(* ===== verification/Prelude.thy ===== *)
theory Prelude
  imports Complex_Main "HOL-Library.Word" "HOL-Library.Monad_Syntax"
begin

text \<open>
  Shared vocabulary of the development: the machine integers of the Go program, the
  numeric helpers of \<^verbatim>\<open>utils/utils.go\<close>, the collections of rewrite rules the component
  theories add to, and the generic facts about words, options and array updates they share.

  Go's \<^verbatim>\<open>uint32\<close> and \<^verbatim>\<open>uint64\<close> are words of that width, so \<open>+\<close>, \<open>-\<close> and \<open>*\<close> wrap as
  they do in Go. \<^verbatim>\<open>int64\<close> is a 64-bit word as well: Go's conversion between \<^verbatim>\<open>int64\<close> and
  \<^verbatim>\<open>uint64\<close> keeps the bits, so it is the identity here, and a signed comparison or division
  reads its operands through \<^term>\<open>sint\<close>.
\<close>

section \<open>Machine integers\<close>

type_synonym u32 = "32 word"
type_synonym u64 = "64 word"
type_synonym i64 = "64 word"

named_theorems ledger_simps "rewrite rules that read the ledger after a step"
named_theorems heap_simps "rewrite rules of the array heap"
named_theorems queue_simps "rewrite rules of the priority queues"

definition s_less :: "i64 \<Rightarrow> i64 \<Rightarrow> bool" where
  "s_less a b \<longleftrightarrow> sint a < sint b"

definition s_le :: "i64 \<Rightarrow> i64 \<Rightarrow> bool" where
  "s_le a b \<longleftrightarrow> sint a \<le> sint b"

text \<open>Go's integer division truncates towards zero.\<close>

definition trunc_div :: "int \<Rightarrow> int \<Rightarrow> int" where
  "trunc_div a b = sgn a * sgn b * (\<bar>a\<bar> div \<bar>b\<bar>)"

definition s_div :: "i64 \<Rightarrow> i64 \<Rightarrow> i64" where
  "s_div a b = word_of_int (trunc_div (sint a) (sint b))"

section \<open>Helpers of the utils package\<close>

definition MinInt32 :: "u32 \<Rightarrow> u32 \<Rightarrow> u32" where
  "MinInt32 a b = (if a < b then a else b)"

definition MinInt64 :: "u64 \<Rightarrow> u64 \<Rightarrow> u64" where
  "MinInt64 a b = (if a < b then a else b)"

definition AbsInt64 :: "i64 \<Rightarrow> i64" where
  "AbsInt64 n = (if s_less n 0 then - n else n)"

lemma MinInt64_min: "MinInt64 a b = min a b"
  by (auto simp: MinInt64_def min_def)

lemma MinInt32_min: "MinInt32 a b = min a b"
  by (auto simp: MinInt32_def min_def)

lemma MinInt64_le1 [simp]: "MinInt64 a b \<le> a"
  by (simp add: MinInt64_min)

lemma MinInt64_le2 [simp]: "MinInt64 a b \<le> b"
  by (simp add: MinInt64_min)

section \<open>Words\<close>

lemma uint_sub_le: "b \<le> a \<Longrightarrow> uint (a - b :: 'a::len word) = uint a - uint b"
  by (simp add: word_le_def uint_sub_lem)

lemma unat_sub_le: "b \<le> a \<Longrightarrow> unat (a - b :: 'a::len word) = unat a - unat b"
  by (simp add: unat_sub)

lemma add_le_bound:
  fixes f t q :: "'a::len word"
  assumes "f \<le> q" "t \<le> q - f"
  shows "f \<le> f + t" "f + t \<le> q"
proof -
  show "f + t \<le> q" using assms by (rule le_plus')
  have "f \<le> f + (q - f)" using assms(1) by simp
  then show "f \<le> f + t" using assms(2) by (rule word_plus_mono_right2)
qed

section \<open>Tables as lists of rows\<close>

text \<open>
  A database table is the list of its rows in the order of insertion. \<open>row\<close> finds the row
  with a key, and \<open>upsert\<close> overwrites the row with the key of the new one or appends it.
\<close>

definition row :: "('a \<Rightarrow> 'k) \<Rightarrow> 'k \<Rightarrow> 'a list \<Rightarrow> 'a option" where
  "row key k xs = find (\<lambda>x. key x = k) xs"

definition upsert :: "('a \<Rightarrow> 'k) \<Rightarrow> 'a \<Rightarrow> 'a list \<Rightarrow> 'a list" where
  "upsert key x xs =
     (if list_ex (\<lambda>y. key y = key x) xs
      then map (\<lambda>y. if key y = key x then x else y) xs else xs @ [x])"

lemma row_Nil [simp]: "row key k [] = None"
  by (simp add: row_def)

lemma row_Cons [simp]: "row key k (x # xs) = (if key x = k then Some x else row key k xs)"
  by (simp add: row_def)

lemma row_append: "row key k (xs @ ys) = (case row key k xs of None \<Rightarrow> row key k ys | Some x \<Rightarrow> Some x)"
  by (induction xs) auto

lemma row_None_iff: "row key k xs = None \<longleftrightarrow> (\<forall>x \<in> set xs. key x \<noteq> k)"
  by (induction xs) auto

lemma row_key: "row key k xs = Some x \<Longrightarrow> key x = k \<and> x \<in> set xs"
  by (induction xs) (auto split: if_splits)

lemma row_distinct: "x \<in> set xs \<Longrightarrow> distinct (map key xs) \<Longrightarrow> row key (key x) xs = Some x"
  by (induction xs) (auto simp: image_iff)

lemma row_map_upd:
  "row key k (map (\<lambda>y. if key y = key x then x else y) xs) =
   (if k = key x then (if row key k xs = None then None else Some x) else row key k xs)"
  by (induction xs) auto

lemma row_upsert [simp]:
  "row key k (upsert key x xs) = (if k = key x then Some x else row key k xs)"
proof (cases "list_ex (\<lambda>y. key y = key x) xs")
  case True
  then have "row key (key x) xs \<noteq> None" by (auto simp: row_None_iff list_ex_iff)
  with True show ?thesis by (auto simp: upsert_def row_map_upd)
next
  case False
  then have "row key (key x) xs = None" by (auto simp: row_None_iff list_ex_iff)
  with False show ?thesis by (auto simp: upsert_def row_append split: option.split)
qed

lemma keys_upsert: "key ` set (upsert key x xs) = insert (key x) (key ` set xs)"
  by (auto simp: upsert_def list_ex_iff image_iff)

section \<open>Pages of a listing\<close>

text \<open>
  \<^verbatim>\<open>ORDER BY id DESC LIMIT n\<close> with the count the client asked for, which is ten if it is 0 and
  never more than ten.
\<close>

lemma page_limit: "unat (if count = 0 then 10 else MinInt32 count 10 :: u32) \<le> 10"
proof -
  have "MinInt32 count 10 \<le> 10" by (simp add: MinInt32_min)
  then show ?thesis by (simp add: word_le_nat_alt)
qed

lemma page_of_rows:
  assumes "n \<le> m"
  shows "length (take n (rev (sort_key f xs))) \<le> m"
    "sorted (rev (map f (take n (rev (sort_key f xs)))))"
    "set (take n (rev (sort_key f xs))) \<subseteq> set xs"
proof -
  show "length (take n (rev (sort_key f xs))) \<le> m" using assms by simp
  have "sorted (drop k (map f (sort_key f xs)))" for k
    by (intro sorted_wrt_drop) simp
  then show "sorted (rev (map f (take n (rev (sort_key f xs)))))"
    by (simp add: take_rev drop_map rev_map)
  show "set (take n (rev (sort_key f xs))) \<subseteq> set xs"
    using set_take_subset by fastforce
qed

lemma page_complete:
  "length (take n (rev (sort_key f xs))) < n \<Longrightarrow> set (take n (rev (sort_key f xs))) = set xs"
  by (simp add: min_def split: if_splits)

lemma page_first:
  fixes f :: "'a \<Rightarrow> 'b::linorder"
  assumes "x \<in> set xs" "x \<notin> set (take n (rev (sort_key f xs)))" "y \<in> set (take n (rev (sort_key f xs)))"
  shows "f x \<le> f y"
proof -
  let ?ys = "rev (sort_key f xs)"
  have "sorted (rev (map f ?ys))" by (simp add: rev_map [symmetric])
  then have "sorted_wrt (\<ge>) (map f ?ys)" by (simp add: sorted_wrt_rev)
  then have "sorted_wrt (\<ge>) (map f (take n ?ys) @ map f (drop n ?ys))" by (simp flip: map_append)
  moreover have "x \<in> set (drop n ?ys)"
    using assms(1,2) by (metis UnE append_take_drop_id set_append set_rev set_sort)
  ultimately show ?thesis using assms(3) by (auto simp: sorted_wrt_append)
qed

text \<open>What a page of a listing is: the rows with the largest ids, at most ten, largest first.\<close>

definition page_of :: "('a \<Rightarrow> u32) \<Rightarrow> 'a set \<Rightarrow> bool \<Rightarrow> 'a list \<Rightarrow> bool" where
  "page_of key found moreExists rows \<longleftrightarrow> length rows \<le> 10 \<and> sorted (rev (map key rows)) \<and> set rows \<subseteq> found \<and>
     (\<forall>x \<in> found. x \<notin> set rows \<longrightarrow> moreExists \<and> (\<forall>y \<in> set rows. key x \<le> key y))"

lemma page_of_query:
  fixes count :: u32
  assumes "n = unat (if count = 0 then 10 else MinInt32 count 10)" "rows = take n (rev (sort_key key xs))"
  shows "page_of key (set xs) (n \<le> length rows) rows"
proof -
  have le: "n \<le> 10" using page_limit assms(1) by simp
  note r = page_of_rows [OF le, where f = key and xs = xs, folded assms(2)]
  have "n \<le> length rows \<and> (\<forall>y \<in> set rows. key x \<le> key y)" if "x \<in> set xs" "x \<notin> set rows" for x
    using page_complete [of n key xs, folded assms(2)] page_first [of x xs n key, folded assms(2)] that
    by (cases "length rows < n") auto
  then show ?thesis using r by (auto simp: page_of_def)
qed

end
