(* ===== verification/Orders.thy ===== *)
theory Orders
  imports Prelude
begin

text \<open>
  Orders: \<^verbatim>\<open>models/Ask.go\<close> and \<^verbatim>\<open>models/Bid.go\<close> (the data), \<^verbatim>\<open>matchingengine/helpers.go\<close>
  and the two comparators of \<^verbatim>\<open>matchingengine/pqueue.go\<close>.

  The Go types \<^verbatim>\<open>Ask\<close> and \<^verbatim>\<open>Bid\<close> have the same fields, so both are the record \<open>order\<close>.
  The comparators are shown to be strict weak orders, which is what the heaps need of them.
\<close>

section \<open>Order types\<close>

datatype OrderType = Limit | Market | StopLoss | StopLossActive

fun OrderType_String :: "OrderType \<Rightarrow> string" where
  "OrderType_String Limit = ''Limit''"
| "OrderType_String Market = ''Market''"
| "OrderType_String StopLoss = ''StopLoss''"
| "OrderType_String StopLossActive = ''StopLossActive''"

definition OrderType_Scan :: "string \<Rightarrow> OrderType option" where
  "OrderType_Scan v =
     (if v = ''Limit'' then Some Limit
      else if v = ''Market'' then Some Market
      else if v = ''StopLoss'' then Some StopLoss
      else if v = ''StopLossActive'' then Some StopLossActive
      else None)"

record order =
  o_Id :: u32
  o_UserId :: u32
  o_StockId :: u32
  o_OrderType :: OrderType
  o_Price :: u64
  o_StockQuantity :: u64
  o_StockQuantityFulfilled :: u64
  o_IsClosed :: bool
  o_CreatedAt :: string
  o_UpdatedAt :: string

type_synonym Ask = order
type_synonym Bid = order

text \<open>A pointer to an \<^verbatim>\<open>Ask\<close> or a \<^verbatim>\<open>Bid\<close>.\<close>

type_synonym ref = nat

definition unfulfilled :: "order \<Rightarrow> u64" where
  "unfulfilled x = o_StockQuantity x - o_StockQuantityFulfilled x"

section \<open>Matching of two orders\<close>

definition isMarket :: "OrderType \<Rightarrow> bool" where
  "isMarket oType \<longleftrightarrow> oType = Market \<or> oType = StopLossActive"

definition isOrderMatching :: "Ask \<Rightarrow> Bid \<Rightarrow> bool" where
  "isOrderMatching askTop bidTop \<longleftrightarrow>
     (if isMarket (o_OrderType bidTop) \<or> isMarket (o_OrderType askTop) then True
      else o_Price bidTop \<ge> o_Price askTop)"

section \<open>Comparison of Go strings\<close>

text \<open>Go compares strings byte by byte, a proper prefix being the smaller string.\<close>

fun str_less :: "string \<Rightarrow> string \<Rightarrow> bool" where
  "str_less [] [] = False"
| "str_less [] (y # ys) = True"
| "str_less (x # xs) [] = False"
| "str_less (x # xs) (y # ys) =
     (if of_char x < (of_char y :: nat) then True
      else if of_char y < (of_char x :: nat) then False
      else str_less xs ys)"

lemma str_less_irrefl [simp]: "\<not> str_less xs xs"
  by (induction xs) auto

lemma str_less_trans: "str_less xs ys \<Longrightarrow> str_less ys zs \<Longrightarrow> str_less xs zs"
proof (induction xs ys arbitrary: zs rule: str_less.induct)
  case (2 y ys)
  then show ?case by (cases zs) auto
next
  case (4 x xs y ys)
  then show ?case by (cases zs) (auto split: if_splits)
qed auto

lemma str_less_linear: "str_less xs ys \<or> xs = ys \<or> str_less ys xs"
proof (induction xs ys rule: str_less.induct)
  case (4 x xs y ys)
  have "of_char x = (of_char y :: nat) \<Longrightarrow> x = y" by simp
  with 4 show ?case by (auto simp: not_less)
qed auto

lemma str_less_negtrans: "\<not> str_less xs ys \<Longrightarrow> \<not> str_less ys zs \<Longrightarrow> \<not> str_less xs zs"
  using str_less_linear str_less_trans by blast

section \<open>Priorities\<close>

record factors =
  f_oType :: OrderType
  f_price :: u64
  f_placedAt :: string
  f_quantity :: u64

definition bidComparator :: "factors \<Rightarrow> factors \<Rightarrow> bool" where
  "bidComparator order1 order2 \<longleftrightarrow>
     (if isMarket (f_oType order1) \<and> isMarket (f_oType order2)
      then str_less (f_placedAt order2) (f_placedAt order1)
      else if isMarket (f_oType order1) then False
      else if isMarket (f_oType order2) then True
      else if f_price order1 = f_price order2 then f_quantity order2 > f_quantity order1
      else f_price order1 < f_price order2)"

definition askComparator :: "factors \<Rightarrow> factors \<Rightarrow> bool" where
  "askComparator order1 order2 \<longleftrightarrow>
     (if isMarket (f_oType order1) \<and> isMarket (f_oType order2)
      then str_less (f_placedAt order2) (f_placedAt order1)
      else if isMarket (f_oType order1) then False
      else if isMarket (f_oType order2) then True
      else if f_price order1 = f_price order2 then f_quantity order2 > f_quantity order1
      else f_price order1 > f_price order2)"

text \<open>
  What a heap needs of the comparison it is given: a strict weak order. The locale is
  interpreted on both comparators below.
\<close>

locale strict_weak_order =
  fixes lt :: "'a \<Rightarrow> 'a \<Rightarrow> bool"
  assumes irrefl: "\<not> lt x x"
    and trans: "lt x y \<Longrightarrow> lt y z \<Longrightarrow> lt x z"
    and negtrans: "\<not> lt x y \<Longrightarrow> \<not> lt y z \<Longrightarrow> \<not> lt x z"
begin

lemma asym: "lt x y \<Longrightarrow> \<not> lt y x"
  using irrefl trans by blast

lemma lt_not_lt: "lt x y \<Longrightarrow> \<not> lt z y \<Longrightarrow> lt x z"
  using negtrans by blast

lemma not_lt_lt: "\<not> lt y x \<Longrightarrow> lt y z \<Longrightarrow> lt x z"
  using negtrans by blast

end

interpretation bid_order: strict_weak_order bidComparator
proof
  fix x y z :: factors
  show "\<not> bidComparator x x" by (simp add: bidComparator_def)
  show "bidComparator x y \<Longrightarrow> bidComparator y z \<Longrightarrow> bidComparator x z"
    by (auto simp: bidComparator_def split: if_splits intro: str_less_trans)
  show "\<not> bidComparator x y \<Longrightarrow> \<not> bidComparator y z \<Longrightarrow> \<not> bidComparator x z"
    by (auto simp: bidComparator_def split: if_splits dest: str_less_negtrans)
qed

interpretation ask_order: strict_weak_order askComparator
proof
  fix x y z :: factors
  show "\<not> askComparator x x" by (simp add: askComparator_def)
  show "askComparator x y \<Longrightarrow> askComparator y z \<Longrightarrow> askComparator x z"
    by (auto simp: askComparator_def split: if_splits intro: str_less_trans)
  show "\<not> askComparator x y \<Longrightarrow> \<not> askComparator y z \<Longrightarrow> \<not> askComparator x z"
    by (auto simp: askComparator_def split: if_splits dest: str_less_negtrans)
qed

lemma OrderType_Scan_String [simp]: "OrderType_Scan (OrderType_String t) = Some t"
  by (cases t) (simp_all add: OrderType_Scan_def)

lemma OrderType_Scan_Some: "OrderType_Scan v = Some t \<Longrightarrow> v = OrderType_String t"
  by (auto simp: OrderType_Scan_def split: if_splits)

end
