(* ===== verification/Array_Heap.thy ===== *)
theory Array_Heap
  imports Orders "HOL-Library.Multiset"
begin

text \<open>
  Binary heaps in a 1-based array, given as a function \<open>a\<close> from the indices to the
  elements and the number \<open>n\<close> of slots in use. The two repair loops of
  \<^verbatim>\<open>matchingengine/pqueue.go\<close> are stated over such functions; \<open>Pqueue\<close> relates the Go
  code, which indexes a slice with a nil in slot 0, to them.
\<close>

definition aswap :: "(nat \<Rightarrow> 'a) \<Rightarrow> nat \<Rightarrow> nat \<Rightarrow> (nat \<Rightarrow> 'a)" where
  "aswap a i j = a(i := a j, j := a i)"

definition amset :: "nat \<Rightarrow> (nat \<Rightarrow> 'a) \<Rightarrow> 'a multiset" where
  "amset n a = image_mset a (mset_set {1..n})"

lemma aswap_apply: "aswap a i j k = (if k = j then a i else if k = i then a j else a k)"
  by (simp add: aswap_def)

lemma amset_0 [simp]: "amset 0 a = {#}"
  by (simp add: amset_def)

lemma amset_Suc [heap_simps]: "amset (Suc n) a = add_mset (a (Suc n)) (amset n a)"
  by (simp add: amset_def atLeastAtMostSuc_conv)

lemma amset_cong: "(\<And>i. 1 \<le> i \<Longrightarrow> i \<le> n \<Longrightarrow> a i = b i) \<Longrightarrow> amset n a = amset n b"
  unfolding amset_def by (intro image_mset_cong) simp

lemma size_amset [simp]: "size (amset n a) = n"
  by (simp add: amset_def)

lemma amset_eq_empty [simp]: "amset n a = {#} \<longleftrightarrow> n = 0"
  by (metis size_amset size_eq_0_iff_empty)

lemma mem_amset: "x \<in># amset n a \<longleftrightarrow> (\<exists>i. 1 \<le> i \<and> i \<le> n \<and> x = a i)"
  by (auto simp: amset_def)

lemma amset_upd:
  assumes "1 \<le> i" "i \<le> n"
  shows "add_mset (a i) (amset n (a(i := x))) = add_mset x (amset n a)"
proof -
  have split: "mset_set {1..n} = add_mset i (mset_set ({1..n} - {i}))"
    using assms by (simp add: mset_set.remove)
  have "image_mset (a(i := x)) (mset_set ({1..n} - {i})) = image_mset a (mset_set ({1..n} - {i}))"
    by (intro image_mset_cong) auto
  then show ?thesis unfolding amset_def split by simp
qed

lemma amset_aswap [heap_simps]:
  assumes "1 \<le> i" "i \<le> n" "1 \<le> j" "j \<le> n"
  shows "amset n (aswap a i j) = amset n a"
proof (cases "i = j")
  case True
  then show ?thesis by (simp add: aswap_def)
next
  case False
  have "add_mset (a i) (amset n (a(i := a j))) = add_mset (a j) (amset n a)"
    using assms by (intro amset_upd)
  moreover have "add_mset (a j) (amset n (aswap a i j)) = add_mset (a i) (amset n (a(i := a j)))"
    using amset_upd [of j n "a(i := a j)" "a i"] assms False by (simp add: aswap_def)
  ultimately show ?thesis by simp
qed

section \<open>The two repair loops\<close>

function aswim :: "('a \<Rightarrow> 'a \<Rightarrow> bool) \<Rightarrow> (nat \<Rightarrow> 'a) \<Rightarrow> nat \<Rightarrow> (nat \<Rightarrow> 'a)" where
  "aswim lt a k =
     (if k > 1 \<and> lt (a (k div 2)) (a k) then aswim lt (aswap a (k div 2) k) (k div 2) else a)"
  by pat_completeness auto
termination
  by (relation "measure (\<lambda>(lt, a, k). k)") auto

definition bigger_child :: "('a \<Rightarrow> 'a \<Rightarrow> bool) \<Rightarrow> nat \<Rightarrow> (nat \<Rightarrow> 'a) \<Rightarrow> nat \<Rightarrow> nat" where
  "bigger_child lt n a k =
     (if 2 * k < n \<and> lt (a (2 * k)) (a (2 * k + 1)) then 2 * k + 1 else 2 * k)"

lemma bigger_child_gt: "k > 0 \<Longrightarrow> k < bigger_child lt n a k"
  by (auto simp: bigger_child_def)

lemma bigger_child_le: "2 * k \<le> n \<Longrightarrow> bigger_child lt n a k \<le> n"
  by (auto simp: bigger_child_def)

lemma bigger_child_div [simp]: "bigger_child lt n a k div 2 = k"
  by (auto simp: bigger_child_def)

function asink :: "('a \<Rightarrow> 'a \<Rightarrow> bool) \<Rightarrow> nat \<Rightarrow> (nat \<Rightarrow> 'a) \<Rightarrow> nat \<Rightarrow> (nat \<Rightarrow> 'a)" where
  "asink lt n a k =
     (if k > 0 \<and> 2 * k \<le> n \<and> lt (a k) (a (bigger_child lt n a k))
      then asink lt n (aswap a k (bigger_child lt n a k)) (bigger_child lt n a k) else a)"
  by pat_completeness auto
termination
proof (relation "measure (\<lambda>(lt, n, a, k). n - k)")
  fix lt :: "'a \<Rightarrow> 'a \<Rightarrow> bool" and n k :: nat and a
  assume "k > 0 \<and> 2 * k \<le> n \<and> lt (a k) (a (bigger_child lt n a k))"
  then have "k < bigger_child lt n a k" "k < n"
    using bigger_child_gt [of k lt n a] by auto
  then show "((lt, n, aswap a k (bigger_child lt n a k), bigger_child lt n a k), lt, n, a, k)
      \<in> measure (\<lambda>(lt, n, a, k). n - k)" by simp
qed simp

declare aswim.simps [simp del] asink.simps [simp del]

lemma amset_aswim [heap_simps]: "1 \<le> k \<Longrightarrow> k \<le> n \<Longrightarrow> amset n (aswim lt a k) = amset n a"
proof (induction lt a k rule: aswim.induct)
  case (1 lt a k)
  show ?case
  proof (cases "k > 1 \<and> lt (a (k div 2)) (a k)")
    case True
    then have "amset n (aswim lt (aswap a (k div 2) k) (k div 2)) = amset n (aswap a (k div 2) k)"
      using "1.prems" by (intro "1.IH") auto
    also have "\<dots> = amset n a"
      using "1.prems" True by (intro amset_aswap) auto
    finally show ?thesis using True by (simp add: aswim.simps [of lt a k])
  next
    case False
    then show ?thesis by (subst aswim.simps) auto
  qed
qed

lemma amset_asink [heap_simps]: "amset n (asink lt n a k) = amset n a"
proof (induction lt n a k rule: asink.induct)
  case (1 lt n a k)
  let ?j = "bigger_child lt n a k"
  show ?case
  proof (cases "k > 0 \<and> 2 * k \<le> n \<and> lt (a k) (a ?j)")
    case True
    then have "amset n (asink lt n (aswap a k ?j) ?j) = amset n (aswap a k ?j)"
      by (intro "1.IH") auto
    also have "\<dots> = amset n a"
      using True bigger_child_gt [of k lt n a] bigger_child_le [of k n lt a]
      by (intro amset_aswap) auto
    finally show ?thesis using True by (simp add: asink.simps [of lt n a k])
  next
    case False
    then show ?thesis by (subst asink.simps) auto
  qed
qed

section \<open>The heap property\<close>

definition heap :: "('a \<Rightarrow> 'a \<Rightarrow> bool) \<Rightarrow> nat \<Rightarrow> (nat \<Rightarrow> 'a) \<Rightarrow> bool" where
  "heap lt n a \<longleftrightarrow> (\<forall>i. 2 \<le> i \<and> i \<le> n \<longrightarrow> \<not> lt (a (i div 2)) (a i))"

text \<open>A heap with one defect at \<open>k\<close>: the element there may be too big for its parent
  (\<open>swim_inv\<close>) or too small for its children (\<open>sink_inv\<close>).\<close>

definition swim_inv :: "('a \<Rightarrow> 'a \<Rightarrow> bool) \<Rightarrow> nat \<Rightarrow> (nat \<Rightarrow> 'a) \<Rightarrow> nat \<Rightarrow> bool" where
  "swim_inv lt n a k \<longleftrightarrow>
     (\<forall>i. 2 \<le> i \<and> i \<le> n \<and> i \<noteq> k \<longrightarrow> \<not> lt (a (i div 2)) (a i)) \<and>
     (\<forall>c. 2 \<le> k \<and> c \<le> n \<and> c div 2 = k \<longrightarrow> \<not> lt (a (k div 2)) (a c))"

definition sink_inv :: "('a \<Rightarrow> 'a \<Rightarrow> bool) \<Rightarrow> nat \<Rightarrow> (nat \<Rightarrow> 'a) \<Rightarrow> nat \<Rightarrow> bool" where
  "sink_inv lt n a k \<longleftrightarrow>
     (\<forall>i. 2 \<le> i \<and> i \<le> n \<and> i div 2 \<noteq> k \<longrightarrow> \<not> lt (a (i div 2)) (a i)) \<and>
     (\<forall>c. 2 \<le> k \<and> c \<le> n \<and> c div 2 = k \<longrightarrow> \<not> lt (a (k div 2)) (a c))"

lemma heapD: "heap lt n a \<Longrightarrow> 2 \<le> i \<Longrightarrow> i \<le> n \<Longrightarrow> \<not> lt (a (i div 2)) (a i)"
  by (simp add: heap_def)

lemma heap_cong: "heap lt n a \<Longrightarrow> (\<And>i. 1 \<le> i \<Longrightarrow> i \<le> n \<Longrightarrow> a i = b i) \<Longrightarrow> heap lt n b"
  by (auto simp: heap_def)

lemma heap_mono: "heap lt n a \<Longrightarrow> m \<le> n \<Longrightarrow> heap lt m a"
  by (auto simp: heap_def)

context strict_weak_order
begin

lemma heap_root:
  assumes "heap lt n a" "1 \<le> i" "i \<le> n"
  shows "\<not> lt (a 1) (a i)"
  using assms(2,3)
proof (induction i rule: less_induct)
  case (less i)
  show ?case
  proof (cases "i = 1")
    case True
    then show ?thesis by (simp add: irrefl)
  next
    case False
    then have "\<not> lt (a 1) (a (i div 2))" using less by auto
    moreover have "\<not> lt (a (i div 2)) (a i)" using assms(1) less False by (intro heapD) auto
    ultimately show ?thesis by (rule negtrans)
  qed
qed

lemma swim_inv_exit:
  assumes "swim_inv lt n a k" "k \<le> 1 \<or> \<not> lt (a (k div 2)) (a k)"
  shows "heap lt n a"
  unfolding heap_def
proof (intro allI impI)
  fix i assume "2 \<le> i \<and> i \<le> n"
  then show "\<not> lt (a (i div 2)) (a i)"
    using assms by (cases "i = k") (auto simp: swim_inv_def)
qed

lemma swim_inv_step:
  assumes inv: "swim_inv lt n a k" and k: "1 < k" "k \<le> n" and viol: "lt (a (k div 2)) (a k)"
  shows "swim_inv lt n (aswap a (k div 2) k) (k div 2)"
  unfolding swim_inv_def
proof (intro conjI allI impI)
  let ?p = "k div 2" and ?b = "aswap a (k div 2) k"
  have pk: "?p < k" "?p \<noteq> k" using k by auto
  fix i assume i: "2 \<le> i \<and> i \<le> n \<and> i \<noteq> ?p"
  consider "i = k" | "i \<noteq> k" "i div 2 = k" | "i \<noteq> k" "i div 2 = ?p"
    | "i \<noteq> k" "i div 2 \<noteq> k" "i div 2 \<noteq> ?p" by blast
  then show "\<not> lt (?b (i div 2)) (?b i)"
  proof cases
    case 1
    then show ?thesis using viol asym pk by (simp add: aswap_apply)
  next
    case 2
    then show ?thesis using inv i k pk by (simp add: aswap_apply swim_inv_def)
  next
    case 3
    then have "\<not> lt (a ?p) (a i)" using inv i by (metis swim_inv_def)
    then have "\<not> lt (a k) (a i)" using viol trans by blast
    then show ?thesis using 3 i pk by (simp add: aswap_apply)
  next
    case 4
    then show ?thesis using inv i by (simp add: aswap_apply swim_inv_def)
  qed
next
  let ?p = "k div 2" and ?b = "aswap a (k div 2) k"
  fix c assume c: "2 \<le> ?p \<and> c \<le> n \<and> c div 2 = ?p"
  have gp: "\<not> lt (a (?p div 2)) (a ?p)"
    using inv c k by (auto simp: swim_inv_def)
  have "?p div 2 \<noteq> ?p" "?p div 2 \<noteq> k" using c k by auto
  moreover have "c \<noteq> ?p" using c by auto
  moreover have "\<not> lt (a (?p div 2)) (a c)" if "c \<noteq> k"
    using inv c that gp negtrans by (metis le_trans div_le_dividend swim_inv_def)
  ultimately show "\<not> lt (?b (?p div 2)) (?b c)"
    using gp by (auto simp: aswap_apply)
qed

lemma heap_aswim:
  "swim_inv lt n a k \<Longrightarrow> k \<le> n \<Longrightarrow> heap lt n (aswim lt a k)"
proof (induction lt\<equiv>lt a k rule: aswim.induct)
  case (1 a k)
  show ?case
  proof (cases "k > 1 \<and> lt (a (k div 2)) (a k)")
    case True
    then have "heap lt n (aswim lt (aswap a (k div 2) k) (k div 2))"
      using "1.prems" by (intro "1.hyps" swim_inv_step) auto
    then show ?thesis using True by (simp add: aswim.simps [of lt a k])
  next
    case False
    then show ?thesis using "1.prems" by (subst aswim.simps) (auto intro: swim_inv_exit)
  qed
qed

lemma sink_inv_exit:
  assumes "sink_inv lt n a k" "n < 2 * k \<or> \<not> lt (a k) (a (bigger_child lt n a k))"
  shows "heap lt n a"
  unfolding heap_def
proof (intro allI impI)
  fix i assume i: "2 \<le> i \<and> i \<le> n"
  show "\<not> lt (a (i div 2)) (a i)"
  proof (cases "i div 2 = k")
    case False
    then show ?thesis using assms(1) i by (simp add: sink_inv_def)
  next
    case True
    then have kids: "i = 2 * k \<or> i = 2 * k + 1" "2 * k \<le> n" using i by auto
    then have nb: "\<not> lt (a k) (a (bigger_child lt n a k))" using assms(2) by auto
    show ?thesis
    proof (cases "2 * k < n \<and> lt (a (2 * k)) (a (2 * k + 1))")
      case True
      then have "\<not> lt (a k) (a (2 * k + 1))" using nb by (simp add: bigger_child_def)
      moreover from this have "\<not> lt (a k) (a (2 * k))" using True trans by blast
      ultimately show ?thesis using kids \<open>i div 2 = k\<close> by auto
    next
      case False
      then have l: "\<not> lt (a k) (a (2 * k))" using nb by (auto simp: bigger_child_def)
      moreover have "\<not> lt (a k) (a (2 * k + 1))" if "i = 2 * k + 1"
        using False l that i negtrans by auto
      ultimately show ?thesis using kids \<open>i div 2 = k\<close> by auto
    qed
  qed
qed

lemma bigger_child_max:
  "2 * k \<le> n \<Longrightarrow> c \<le> n \<Longrightarrow> c div 2 = k \<Longrightarrow> 0 < k \<Longrightarrow> \<not> lt (a (bigger_child lt n a k)) (a c)"
proof -
  assume "2 * k \<le> n" "c \<le> n" "c div 2 = k" "0 < k"
  then have "c = 2 * k \<or> c = 2 * k + 1 \<and> 2 * k < n" by auto
  then show ?thesis by (auto simp: bigger_child_def irrefl asym)
qed

lemma sink_inv_step:
  assumes inv: "sink_inv lt n a k" and k: "0 < k" "2 * k \<le> n"
    and viol: "lt (a k) (a (bigger_child lt n a k))"
  shows "sink_inv lt n (aswap a k (bigger_child lt n a k)) (bigger_child lt n a k)"
  unfolding sink_inv_def
proof (intro conjI allI impI)
  let ?j = "bigger_child lt n a k" and ?b = "aswap a k (bigger_child lt n a k)"
  have j: "k < ?j" "?j div 2 = k" "?j \<le> n" "2 \<le> ?j"
    using k bigger_child_gt [of k lt n a] bigger_child_le [of k n lt a] by auto
  fix i assume i: "2 \<le> i \<and> i \<le> n \<and> i div 2 \<noteq> ?j"
  consider "i = ?j" | "i \<noteq> ?j" "i div 2 = k" | "i = k" | "i \<noteq> ?j" "i \<noteq> k" "i div 2 \<noteq> k" by blast
  then show "\<not> lt (?b (i div 2)) (?b i)"
  proof cases
    case 1
    then show ?thesis using viol asym j by (simp add: aswap_apply)
  next
    case 2
    then have "\<not> lt (a ?j) (a i)" using i k by (intro bigger_child_max) auto
    moreover have "i \<noteq> k" using 2 k by auto
    ultimately show ?thesis using 2 j by (simp add: aswap_apply)
  next
    case 3
    then have "\<not> lt (a (k div 2)) (a ?j)" using inv i j by (simp add: sink_inv_def)
    moreover have "k div 2 \<noteq> k" "k div 2 \<noteq> ?j" using k j by auto
    ultimately show ?thesis using 3 j by (simp add: aswap_apply)
  next
    case 4
    then show ?thesis using inv i by (simp add: aswap_apply sink_inv_def)
  qed
next
  let ?j = "bigger_child lt n a k" and ?b = "aswap a k (bigger_child lt n a k)"
  have j: "k < ?j" "?j div 2 = k" using k bigger_child_gt [of k lt n a] by auto
  fix c assume c: "2 \<le> ?j \<and> c \<le> n \<and> c div 2 = ?j"
  then have "c \<noteq> k" "c \<noteq> ?j" "2 \<le> c" "c div 2 \<noteq> k" using j by auto
  moreover from this have "\<not> lt (a ?j) (a c)" using inv c by (metis sink_inv_def)
  ultimately show "\<not> lt (?b (?j div 2)) (?b c)"
    using j by (simp add: aswap_apply)
qed

lemma heap_asink:
  "sink_inv lt n a k \<Longrightarrow> 0 < k \<Longrightarrow> heap lt n (asink lt n a k)"
proof (induction lt\<equiv>lt n a k rule: asink.induct)
  case (1 n a k)
  let ?j = "bigger_child lt n a k"
  show ?case
  proof (cases "2 * k \<le> n \<and> lt (a k) (a ?j)")
    case True
    then have "heap lt n (asink lt n (aswap a k ?j) ?j)"
      using "1.prems" bigger_child_gt [of k lt n a] by (intro "1.hyps" sink_inv_step) auto
    then show ?thesis using True "1.prems" by (simp add: asink.simps [of lt n a k])
  next
    case False
    then show ?thesis using "1.prems" by (subst asink.simps) (auto intro: sink_inv_exit)
  qed
qed

text \<open>Appending an element leaves a defect at the new slot; moving the last element to the
  root leaves one at the root.\<close>

lemma swim_inv_append:
  "heap lt n a \<Longrightarrow> (\<And>i. 1 \<le> i \<Longrightarrow> i \<le> n \<Longrightarrow> b i = a i) \<Longrightarrow> swim_inv lt (Suc n) b (Suc n)"
  unfolding swim_inv_def
  by (intro conjI allI impI) (auto simp: heap_def le_Suc_eq)

lemma sink_inv_root:
  "heap lt (Suc n) a \<Longrightarrow> sink_inv lt n (aswap a 1 (Suc n)) 1"
  unfolding sink_inv_def
  by (intro conjI allI impI) (auto simp: heap_def aswap_apply)

end

end
