(* ===== verification/Pqueue.thy ===== *)
theory Pqueue
  imports Array_Heap
begin

text \<open>
  The priority queues of \<^verbatim>\<open>matchingengine/pqueue.go\<close>.

  \<^verbatim>\<open>bidPQueue\<close> and \<^verbatim>\<open>askPQueue\<close> are the same code over two pointer types; one definition
  models both. A queue item holds a pointer to the order and a copy of its price and
  quantity, and the comparison reads the order type and the creation time through the
  pointer, so every operation that compares takes the current order objects \<open>ob\<close>. Reading a
  slot that is out of range, or dereferencing the nil of slot 0, is a panic in Go and \<open>None\<close>
  here. The mutexes are left out: an operation is one step.
\<close>

section \<open>Data\<close>

datatype PQType = MAXPQ | MINPQ

record item =
  i_value :: ref
  i_price :: u64
  i_quantity :: u64

record pqueue =
  pq_items :: "item option list"
  pq_elemsCount :: nat
  pq_comparator :: "factors \<Rightarrow> factors \<Rightarrow> bool"

definition newItem :: "ref \<Rightarrow> u64 \<Rightarrow> u64 \<Rightarrow> item" where
  "newItem v p q = \<lparr>i_value = v, i_price = p, i_quantity = q\<rparr>"

definition NewBidPQueue :: "PQType \<Rightarrow> pqueue" where
  "NewBidPQueue pqType =
     \<lparr>pq_items = [None], pq_elemsCount = 0,
      pq_comparator = (if pqType = MAXPQ then bidComparator else askComparator)\<rparr>"

definition NewAskPQueue :: "PQType \<Rightarrow> pqueue" where
  "NewAskPQueue pqType =
     \<lparr>pq_items = [None], pq_elemsCount = 0,
      pq_comparator = (if pqType = MAXPQ then bidComparator else askComparator)\<rparr>"

section \<open>Operations\<close>

definition item_at :: "pqueue \<Rightarrow> nat \<Rightarrow> item option" where
  "item_at pq i = (if i < length (pq_items pq) then pq_items pq ! i else None)"

definition item_factors :: "(ref \<Rightarrow> order) \<Rightarrow> item \<Rightarrow> factors" where
  "item_factors ob it =
     \<lparr>f_oType = o_OrderType (ob (i_value it)), f_price = i_price it,
      f_placedAt = o_CreatedAt (ob (i_value it)), f_quantity = i_quantity it\<rparr>"

definition pq_less :: "(ref \<Rightarrow> order) \<Rightarrow> pqueue \<Rightarrow> nat \<Rightarrow> nat \<Rightarrow> bool option" where
  "pq_less ob pq i j =
     do { x \<leftarrow> item_at pq i; y \<leftarrow> item_at pq j;
          Some (pq_comparator pq (item_factors ob x) (item_factors ob y)) }"

definition pq_exch :: "pqueue \<Rightarrow> nat \<Rightarrow> nat \<Rightarrow> pqueue option" where
  "pq_exch pq i j =
     (if i < length (pq_items pq) \<and> j < length (pq_items pq)
      then Some (pq\<lparr>pq_items := (pq_items pq)[i := pq_items pq ! j, j := pq_items pq ! i]\<rparr>)
      else None)"

lemma pq_exch_elemsCount: "pq_exch pq i j = Some pq' \<Longrightarrow> pq_elemsCount pq' = pq_elemsCount pq"
  by (auto simp: pq_exch_def split: if_splits)

function pq_swim :: "(ref \<Rightarrow> order) \<Rightarrow> pqueue \<Rightarrow> nat \<Rightarrow> pqueue option" where
  "pq_swim ob pq k =
     (if k > 1
      then do { b \<leftarrow> pq_less ob pq (k div 2) k;
                if b then do { pq' \<leftarrow> pq_exch pq (k div 2) k; pq_swim ob pq' (k div 2) }
                else Some pq }
      else Some pq)"
  by pat_completeness auto
termination
  by (relation "measure (\<lambda>(ob, pq, k). k)") auto

text \<open>With \<open>k = 0\<close> the Go loop reads slot 0 through its nil pointer; all calls pass 1.\<close>

function pq_sink :: "(ref \<Rightarrow> order) \<Rightarrow> pqueue \<Rightarrow> nat \<Rightarrow> pqueue option" where
  "pq_sink ob pq k =
     (if k = 0 then None
      else if 2 * k \<le> pq_elemsCount pq
      then do { r \<leftarrow> (if 2 * k < pq_elemsCount pq then pq_less ob pq (2 * k) (2 * k + 1)
                     else Some False);
                b \<leftarrow> pq_less ob pq k (if r then 2 * k + 1 else 2 * k);
                if \<not> b then Some pq
                else do { pq' \<leftarrow> pq_exch pq k (if r then 2 * k + 1 else 2 * k);
                          pq_sink ob pq' (if r then 2 * k + 1 else 2 * k) } }
      else Some pq)"
  by pat_completeness auto
termination
  by (relation "measure (\<lambda>(ob, pq, k). pq_elemsCount pq - k)") (auto dest!: pq_exch_elemsCount)

declare pq_swim.simps [simp del] pq_sink.simps [simp del]

definition pq_Push :: "(ref \<Rightarrow> order) \<Rightarrow> ref \<Rightarrow> pqueue \<Rightarrow> pqueue option" where
  "pq_Push ob v pq =
     pq_swim ob
       (pq\<lparr>pq_items := pq_items pq
              @ [Some (newItem v (o_Price (ob v)) (o_StockQuantity (ob v)))],
           pq_elemsCount := Suc (pq_elemsCount pq)\<rparr>)
       (Suc (pq_elemsCount pq))"

definition pq_Pop :: "(ref \<Rightarrow> order) \<Rightarrow> pqueue \<Rightarrow> (ref option \<times> pqueue) option" where
  "pq_Pop ob pq =
     (if pq_elemsCount pq < 1 then Some (None, pq)
      else do { mx \<leftarrow> item_at pq 1;
                pq1 \<leftarrow> pq_exch pq 1 (pq_elemsCount pq);
                pq2 \<leftarrow> pq_sink ob
                  (pq1\<lparr>pq_items := take (pq_elemsCount pq) (pq_items pq1),
                       pq_elemsCount := pq_elemsCount pq - 1\<rparr>) 1;
                Some (Some (i_value mx), pq2) })"

definition pq_Head :: "pqueue \<Rightarrow> ref option option" where
  "pq_Head pq =
     (if pq_elemsCount pq < 1 then Some None
      else do { mx \<leftarrow> item_at pq 1; Some (Some (i_value mx)) })"

definition pq_Size :: "pqueue \<Rightarrow> nat" where
  "pq_Size pq = pq_elemsCount pq"

definition pq_Empty :: "pqueue \<Rightarrow> bool" where
  "pq_Empty pq \<longleftrightarrow> pq_elemsCount pq = 0"

section \<open>The slice as a 1-based array\<close>

definition rep :: "nat \<Rightarrow> (nat \<Rightarrow> item) \<Rightarrow> (factors \<Rightarrow> factors \<Rightarrow> bool) \<Rightarrow> pqueue" where
  "rep n a c = \<lparr>pq_items = None # map (\<lambda>i. Some (a i)) [1..<Suc n],
                pq_elemsCount = n, pq_comparator = c\<rparr>"

definition arr :: "pqueue \<Rightarrow> nat \<Rightarrow> item" where
  "arr pq i = the (pq_items pq ! i)"

definition wf_pq :: "pqueue \<Rightarrow> bool" where
  "wf_pq pq \<longleftrightarrow> length (pq_items pq) = Suc (pq_elemsCount pq) \<and> pq_items pq ! 0 = None \<and>
     (\<forall>i \<in> {1..pq_elemsCount pq}. pq_items pq ! i \<noteq> None)"

definition item_lt :: "(ref \<Rightarrow> order) \<Rightarrow> (factors \<Rightarrow> factors \<Rightarrow> bool) \<Rightarrow> item \<Rightarrow> item \<Rightarrow> bool" where
  "item_lt ob c x y = c (item_factors ob x) (item_factors ob y)"

lemma nth_rep: "i \<le> n \<Longrightarrow> pq_items (rep n a c) ! i = (if i = 0 then None else Some (a i))"
  by (cases i) (auto simp: rep_def nth_Cons' simp del: upt_Suc)

lemma rep_fields [queue_simps]:
  "length (pq_items (rep n a c)) = Suc n" "pq_elemsCount (rep n a c) = n"
  "pq_comparator (rep n a c) = c"
  by (simp_all add: rep_def)

lemma item_at_rep [queue_simps]:
  "item_at (rep n a c) i = (if 1 \<le> i \<and> i \<le> n then Some (a i) else None)"
  by (auto simp: item_at_def rep_fields nth_rep)

lemma rep_eqI:
  assumes "length (pq_items pq) = Suc n" "pq_elemsCount pq = n" "pq_comparator pq = c"
    and "pq_items pq ! 0 = None" "\<And>i. 1 \<le> i \<Longrightarrow> i \<le> n \<Longrightarrow> pq_items pq ! i = Some (a i)"
  shows "pq = rep n a c"
proof -
  have "pq_items pq = pq_items (rep n a c)"
  proof (rule nth_equalityI)
    show "length (pq_items pq) = length (pq_items (rep n a c))"
      using assms by (simp add: rep_fields)
    fix i assume "i < length (pq_items pq)"
    then show "pq_items pq ! i = pq_items (rep n a c) ! i"
      using assms by (cases "i = 0") (auto simp: nth_rep)
  qed
  then show ?thesis using assms by (cases pq) (simp add: rep_def)
qed

lemma wf_pq_rep_arr: "wf_pq pq \<Longrightarrow> pq = rep (pq_elemsCount pq) (arr pq) (pq_comparator pq)"
  by (rule rep_eqI) (auto simp: wf_pq_def arr_def)

lemma wf_rep [queue_simps]: "wf_pq (rep n a c)"
  by (auto simp: wf_pq_def rep_fields nth_rep)

lemma arr_rep [queue_simps]: "1 \<le> i \<Longrightarrow> i \<le> n \<Longrightarrow> arr (rep n a c) i = a i"
  by (simp add: arr_def nth_rep)

lemma pq_less_rep [queue_simps]:
  "1 \<le> i \<Longrightarrow> i \<le> n \<Longrightarrow> 1 \<le> j \<Longrightarrow> j \<le> n \<Longrightarrow>
   pq_less ob (rep n a c) i j = Some (item_lt ob c (a i) (a j))"
  by (simp add: pq_less_def item_at_rep rep_fields item_lt_def)

lemma pq_exch_rep [queue_simps]:
  "1 \<le> i \<Longrightarrow> i \<le> n \<Longrightarrow> 1 \<le> j \<Longrightarrow> j \<le> n \<Longrightarrow>
   pq_exch (rep n a c) i j = Some (rep n (aswap a i j) c)"
  unfolding pq_exch_def
  by (auto simp: rep_fields nth_rep nth_list_update aswap_apply intro!: rep_eqI)

text \<open>The loops of the Go code do what the loops on arrays do, and never panic.\<close>

lemma pq_swim_rep [queue_simps]:
  "1 \<le> k \<Longrightarrow> k \<le> n \<Longrightarrow> pq_swim ob (rep n a c) k = Some (rep n (aswim (item_lt ob c) a k) c)"
proof (induction lt\<equiv>"item_lt ob c" a k rule: aswim.induct)
  case (1 a k)
  have half: "1 \<le> k div 2" "k div 2 \<le> n" if "1 < k" using that "1.prems" by auto
  show ?case
  proof (cases "1 < k \<and> item_lt ob c (a (k div 2)) (a k)")
    case True
    then show ?thesis using "1.hyps" "1.prems" half
      by (simp add: pq_swim.simps [of ob "rep n a c"] aswim.simps [of _ a k] pq_less_rep pq_exch_rep)
  next
    case False
    then show ?thesis using "1.prems" half
      by (auto simp: pq_swim.simps [of ob "rep n a c"] aswim.simps [of _ a k] pq_less_rep)
  qed
qed

lemma pq_sink_rep [queue_simps]:
  "1 \<le> k \<Longrightarrow> pq_sink ob (rep n a c) k = Some (rep n (asink (item_lt ob c) n a k) c)"
proof (induction lt\<equiv>"item_lt ob c" n a k rule: asink.induct)
  case (1 n a k)
  let ?j = "bigger_child (item_lt ob c) n a k"
  have unf: "pq_sink ob (rep n a c) k =
      (if 2 * k \<le> n
       then if \<not> item_lt ob c (a k) (a ?j) then Some (rep n a c)
            else pq_sink ob (rep n (aswap a k ?j) c) ?j
       else Some (rep n a c))"
    using "1.prems"
    by (subst pq_sink.simps) (auto simp: rep_fields pq_less_rep pq_exch_rep bigger_child_def)
  have "k < ?j" using "1.prems" by (intro bigger_child_gt) simp
  then show ?case using "1.hyps" "1.prems"
    by (auto simp: unf asink.simps [of _ n a k])
qed

section \<open>The queue invariant and the contents\<close>

definition pq_inv :: "(ref \<Rightarrow> order) \<Rightarrow> pqueue \<Rightarrow> bool" where
  "pq_inv ob pq \<longleftrightarrow> wf_pq pq \<and> pq_comparator pq \<in> {bidComparator, askComparator} \<and>
     heap (item_lt ob (pq_comparator pq)) (pq_elemsCount pq) (arr pq)"

definition pq_contents :: "pqueue \<Rightarrow> item multiset" where
  "pq_contents pq = amset (pq_elemsCount pq) (arr pq)"

definition item_of :: "(ref \<Rightarrow> order) \<Rightarrow> ref \<Rightarrow> item" where
  "item_of ob v = newItem v (o_Price (ob v)) (o_StockQuantity (ob v))"

lemma item_lt_swo:
  "c \<in> {bidComparator, askComparator} \<Longrightarrow> strict_weak_order (item_lt ob c)"
  by (unfold_locales; unfold item_lt_def)
    (use bid_order.irrefl bid_order.trans bid_order.negtrans
         ask_order.irrefl ask_order.trans ask_order.negtrans in blast)+

lemma pq_contents_rep [queue_simps]: "pq_contents (rep n a c) = amset n a"
  unfolding pq_contents_def rep_fields by (intro amset_cong) (simp add: arr_rep)

lemma pq_inv_rep [queue_simps]:
  "pq_inv ob (rep n a c) \<longleftrightarrow>
   c \<in> {bidComparator, askComparator} \<and> heap (item_lt ob c) n a"
  unfolding pq_inv_def rep_fields
  by (auto simp: wf_rep arr_rep elim!: heap_cong)

lemma pq_inv_cases:
  assumes "pq_inv ob pq"
  obtains n a c where "pq = rep n a c" "c \<in> {bidComparator, askComparator}"
    "heap (item_lt ob c) n a" "strict_weak_order (item_lt ob c)"
proof -
  have rep: "pq = rep (pq_elemsCount pq) (arr pq) (pq_comparator pq)"
    using assms by (intro wf_pq_rep_arr) (simp add: pq_inv_def)
  then show ?thesis
    using assms item_lt_swo that [of "pq_elemsCount pq" "arr pq" "pq_comparator pq"]
    by (simp add: pq_inv_def)
qed

lemma rep_snoc:
  "(rep n a c)\<lparr>pq_items := pq_items (rep n a c) @ [Some x], pq_elemsCount := Suc n\<rparr> =
   rep (Suc n) (a(Suc n := x)) c"
  by (simp add: rep_def)

lemma rep_take:
  "(rep (Suc n) a c)\<lparr>pq_items := take (Suc n) (pq_items (rep (Suc n) a c)), pq_elemsCount := n\<rparr> =
   rep n a c"
  by (simp add: rep_def)

lemma pq_Push_rep:
  "pq_Push ob v (rep n a c) =
   Some (rep (Suc n) (aswim (item_lt ob c) (a(Suc n := item_of ob v)) (Suc n)) c)"
  unfolding pq_Push_def rep_fields rep_snoc
  by (simp add: pq_swim_rep item_of_def)

lemma pq_Pop_rep:
  "pq_Pop ob (rep (Suc n) a c) =
   Some (Some (i_value (a 1)), rep n (asink (item_lt ob c) n (aswap a 1 (Suc n)) 1) c)"
  unfolding pq_Pop_def
  by (simp add: rep_fields item_at_rep pq_exch_rep rep_take pq_sink_rep)

lemma pq_Push_ok:
  assumes "pq_inv ob pq"
  shows "\<exists>pq'. pq_Push ob v pq = Some pq' \<and> pq_inv ob pq' \<and> pq_comparator pq' = pq_comparator pq \<and>
           pq_contents pq' = add_mset (item_of ob v) (pq_contents pq)"
proof -
  obtain n a c where q: "pq = rep n a c" "c \<in> {bidComparator, askComparator}"
      "heap (item_lt ob c) n a" "strict_weak_order (item_lt ob c)"
    using assms by (rule pq_inv_cases)
  let ?b = "a(Suc n := item_of ob v)"
  have "heap (item_lt ob c) (Suc n) (aswim (item_lt ob c) ?b (Suc n))"
    using q(3)
    by (intro strict_weak_order.heap_aswim [OF q(4)]
          strict_weak_order.swim_inv_append [OF q(4), where a = a]) auto
  moreover have "amset (Suc n) (aswim (item_lt ob c) ?b (Suc n)) = add_mset (item_of ob v) (amset n a)"
  proof -
    have "amset n ?b = amset n a" by (intro amset_cong) simp
    moreover have "amset (Suc n) (aswim (item_lt ob c) ?b (Suc n)) = amset (Suc n) ?b"
      by (simp add: amset_aswim)
    ultimately show ?thesis by (simp add: amset_Suc)
  qed
  ultimately show ?thesis using q(1,2)
    by (simp add: pq_Push_rep pq_inv_rep pq_contents_rep rep_fields)
qed

lemma pq_Pop_ok:
  assumes "pq_inv ob pq" "pq_contents pq \<noteq> {#}"
  shows "\<exists>x pq'. pq_Pop ob pq = Some (Some (i_value x), pq') \<and> pq_Head pq = Some (Some (i_value x)) \<and>
           pq_inv ob pq' \<and> pq_comparator pq' = pq_comparator pq \<and>
           pq_contents pq = add_mset x (pq_contents pq') \<and>
           (\<forall>y \<in># pq_contents pq. \<not> item_lt ob (pq_comparator pq) x y)"
proof -
  obtain m a c where q: "pq = rep m a c" "c \<in> {bidComparator, askComparator}"
      "heap (item_lt ob c) m a" "strict_weak_order (item_lt ob c)"
    using assms(1) by (rule pq_inv_cases)
  from assms(2) q(1) obtain n where m: "m = Suc n"
    by (cases m) (auto simp: pq_contents_rep)
  let ?b = "aswap a 1 (Suc n)"
  have "heap (item_lt ob c) n (asink (item_lt ob c) n ?b 1)"
    using q(3) m
    by (intro strict_weak_order.heap_asink [OF q(4)] strict_weak_order.sink_inv_root [OF q(4)])
      simp_all
  moreover have "amset (Suc n) a = add_mset (a 1) (amset n ?b)"
    using amset_aswap [of 1 "Suc n" "Suc n" a] by (simp add: amset_Suc aswap_apply)
  moreover have "\<forall>y \<in># amset (Suc n) a. \<not> item_lt ob c (a 1) y"
    using strict_weak_order.heap_root [OF q(4,3)] m by (auto simp: mem_amset)
  ultimately show ?thesis using q(1,2) m
    by (intro exI [of _ "a 1"])
      (simp add: pq_Pop_rep pq_inv_rep pq_contents_rep amset_asink pq_Head_def item_at_rep rep_fields)
qed


section \<open>The interface of the queues\<close>

text \<open>
  A queue of references whose items are up to date: the price and quantity stored in an
  item are those of the order it points to. This holds as long as nothing changes the
  price or the quantity of a queued order, and no operation of the program does.
\<close>

definition pq_ok :: "(ref \<Rightarrow> order) \<Rightarrow> pqueue \<Rightarrow> bool" where
  "pq_ok ob pq \<longleftrightarrow> pq_inv ob pq \<and> (\<forall>it \<in># pq_contents pq. it = item_of ob (i_value it))"

definition pq_refs :: "pqueue \<Rightarrow> ref multiset" where
  "pq_refs pq = image_mset i_value (pq_contents pq)"

definition ref_lt :: "(ref \<Rightarrow> order) \<Rightarrow> (factors \<Rightarrow> factors \<Rightarrow> bool) \<Rightarrow> ref \<Rightarrow> ref \<Rightarrow> bool" where
  "ref_lt ob c v w = item_lt ob c (item_of ob v) (item_of ob w)"

lemma i_value_item_of [simp]: "i_value (item_of ob v) = v"
  by (simp add: item_of_def newItem_def)

text \<open>
  What the order book needs of a queue. The abstraction is the multiset of queued
  references; \<open>lt v w\<close> says that \<open>w\<close> has priority over \<open>v\<close>.
\<close>

locale priority_queue =
  fixes push :: "'v \<Rightarrow> 'q \<Rightarrow> 'q option"
    and pop :: "'q \<Rightarrow> ('v option \<times> 'q) option"
    and head :: "'q \<Rightarrow> 'v option option"
    and contents :: "'q \<Rightarrow> 'v multiset"
    and inv :: "'q \<Rightarrow> bool"
    and lt :: "'v \<Rightarrow> 'v \<Rightarrow> bool"
  assumes push_ok:
      "inv q \<Longrightarrow> \<exists>q'. push v q = Some q' \<and> inv q' \<and> contents q' = add_mset v (contents q)"
    and pop_ok:
      "inv q \<Longrightarrow> contents q \<noteq> {#} \<Longrightarrow>
       \<exists>v q'. pop q = Some (Some v, q') \<and> head q = Some (Some v) \<and> inv q' \<and>
              contents q = add_mset v (contents q') \<and> (\<forall>w \<in># contents q. \<not> lt v w)"
    and pop_empty:
      "inv q \<Longrightarrow> contents q = {#} \<Longrightarrow> pop q = Some (None, q) \<and> head q = Some None"

text \<open>The two loops of the order book that work on a queue: taking orders off while they
  satisfy a condition, and pushing a list of orders back.\<close>

partial_function (option) pop_while ::
  "('q \<Rightarrow> 'v option option) \<Rightarrow> ('q \<Rightarrow> ('v option \<times> 'q) option) \<Rightarrow> ('v \<Rightarrow> bool) \<Rightarrow>
   'q \<Rightarrow> 'v list \<Rightarrow> ('v option \<times> 'v list \<times> 'q) option" where
  "pop_while hd_of pop_of P q acc =
     do { top \<leftarrow> hd_of q;
          (case top of
             None \<Rightarrow> Some (None, acc, q)
           | Some v \<Rightarrow>
               if P v
               then do { r \<leftarrow> pop_of q; v' \<leftarrow> fst r; pop_while hd_of pop_of P (snd r) (acc @ [v']) }
               else Some (Some v, acc, q)) }"

fun push_all :: "('v \<Rightarrow> 'q \<Rightarrow> 'q option) \<Rightarrow> 'v list \<Rightarrow> 'q \<Rightarrow> 'q option" where
  "push_all push_of [] q = Some q"
| "push_all push_of (v # vs) q = do { q' \<leftarrow> push_of v q; push_all push_of vs q' }"

text \<open>Popping \<open>n\<close> orders.\<close>

fun drain :: "('q \<Rightarrow> ('v option \<times> 'q) option) \<Rightarrow> nat \<Rightarrow> 'q \<Rightarrow> ('v list \<times> 'q) option" where
  "drain pop_of 0 q = Some ([], q)"
| "drain pop_of (Suc n) q =
     do { r \<leftarrow> pop_of q; v \<leftarrow> fst r; s \<leftarrow> drain pop_of n (snd r); Some (v # fst s, snd s) }"

context priority_queue
begin

lemma drain_ok:
  "inv q \<Longrightarrow> size (contents q) = n \<Longrightarrow>
   \<exists>vs q'. drain pop n q = Some (vs, q') \<and> inv q' \<and> contents q' = {#} \<and> mset vs = contents q \<and>
     sorted_wrt (\<lambda>v w. \<not> lt v w) vs"
proof (induction n arbitrary: q)
  case (Suc n)
  then have "contents q \<noteq> {#}" by auto
  with pop_ok [OF Suc.prems(1)] obtain v q1 where q1: "pop q = Some (Some v, q1)" "inv q1"
    "contents q = add_mset v (contents q1)" "\<forall>w \<in># contents q. \<not> lt v w" by blast
  then have "size (contents q1) = n" using Suc.prems(2) by simp
  from Suc.IH [OF q1(2) this] obtain vs q2 where r: "drain pop n q1 = Some (vs, q2)" "inv q2" "contents q2 = {#}"
    "mset vs = contents q1" "sorted_wrt (\<lambda>v w. \<not> lt v w) vs" by blast
  have "\<forall>w \<in> set vs. \<not> lt v w" using q1(3,4) r(4) by (metis set_mset_mset insertCI set_mset_add_mset_insert)
  then show ?case using q1 r by simp
qed simp

lemma push_all_ok:
  "inv q \<Longrightarrow> \<exists>q'. push_all push vs q = Some q' \<and> inv q' \<and> contents q' = contents q + mset vs"
proof (induction vs arbitrary: q)
  case (Cons v vs)
  obtain q1 where q1: "push v q = Some q1" "inv q1" "contents q1 = add_mset v (contents q)"
    using push_ok [OF Cons.prems] by blast
  obtain q2 where "push_all push vs q1 = Some q2" "inv q2" "contents q2 = contents q1 + mset vs"
    using Cons.IH [OF q1(2)] by blast
  with q1 show ?case by auto
qed simp

lemma head_Some:
  assumes "inv q" "head q = Some (Some v)"
  shows "v \<in># contents q" "\<forall>w \<in># contents q. \<not> lt v w"
    "\<exists>q'. pop q = Some (Some v, q') \<and> inv q' \<and> contents q = add_mset v (contents q')"
proof -
  have ne: "contents q \<noteq> {#}" using pop_empty assms by auto
  from pop_ok [OF assms(1) ne] assms(2) show "v \<in># contents q" "\<forall>w \<in># contents q. \<not> lt v w"
    "\<exists>q'. pop q = Some (Some v, q') \<and> inv q' \<and> contents q = add_mset v (contents q')"
    by auto
qed

lemma pop_while_ok:
  "inv q \<Longrightarrow>
   \<exists>top sk q'. pop_while head pop P q acc = Some (top, acc @ sk, q') \<and> inv q' \<and>
     contents q = contents q' + mset sk \<and> (\<forall>v \<in> set sk. P v) \<and> head q' = Some top \<and>
     (case top of None \<Rightarrow> contents q' = {#} | Some v \<Rightarrow> \<not> P v)"
proof (induction "size (contents q)" arbitrary: q acc rule: less_induct)
  case less
  show ?case
  proof (cases "contents q = {#}")
    case True
    then show ?thesis
      using pop_empty [OF less.prems] less.prems by (simp add: pop_while.simps)
  next
    case False
    obtain v q1 where q1: "pop q = Some (Some v, q1)" "head q = Some (Some v)" "inv q1"
        "contents q = add_mset v (contents q1)"
      using pop_ok [OF less.prems False] by blast
    show ?thesis
    proof (cases "P v")
      case Pv: False
      then show ?thesis using q1 less.prems by (simp add: pop_while.simps)
    next
      case Pv: True
      obtain top sk q' where r: "pop_while head pop P q1 (acc @ [v]) = Some (top, (acc @ [v]) @ sk, q')"
          "inv q'" "contents q1 = contents q' + mset sk" "\<forall>v \<in> set sk. P v" "head q' = Some top"
          "case top of None \<Rightarrow> contents q' = {#} | Some v \<Rightarrow> \<not> P v"
        using less.hyps [of q1 "acc @ [v]"] q1 by auto
      then show ?thesis using q1 Pv
        by (intro exI [of _ top] exI [of _ "v # sk"] exI [of _ q'])
          (simp add: pop_while.simps [of head pop P q])
    qed
  qed
qed

end

interpretation pq: priority_queue
  "pq_Push ob" "pq_Pop ob" pq_Head pq_refs
  "\<lambda>pq. pq_ok ob pq \<and> pq_comparator pq = c" "ref_lt ob c"
  for ob c
proof (unfold_locales, goal_cases)
  case (1 q v)
  then show ?case
    using pq_Push_ok [of ob q v]
    by (auto simp: pq_ok_def pq_refs_def)
next
  case (2 q)
  then have inv: "pq_inv ob q" and it: "\<forall>it \<in># pq_contents q. it = item_of ob (i_value it)"
    and ne: "pq_contents q \<noteq> {#}" by (auto simp: pq_ok_def pq_refs_def)
  obtain x q' where r: "pq_Pop ob q = Some (Some (i_value x), q')"
      "pq_Head q = Some (Some (i_value x))" "pq_inv ob q'" "pq_comparator q' = pq_comparator q"
      "pq_contents q = add_mset x (pq_contents q')"
      "\<forall>y \<in># pq_contents q. \<not> item_lt ob (pq_comparator q) x y"
    using pq_Pop_ok [OF inv ne] by blast
  moreover have "\<forall>w \<in># pq_refs q. \<not> ref_lt ob c (i_value x) w"
    using r(5,6) it 2 by (force simp: pq_refs_def ref_lt_def)
  ultimately show ?case
    using it 2 by (auto simp: pq_ok_def pq_refs_def)
next
  case (3 q)
  then have "pq_elemsCount q = 0" by (auto simp: pq_refs_def pq_contents_def)
  then show ?case by (simp add: pq_Pop_def pq_Head_def)
qed

lemma pq_ok_New [queue_simps]: "pq_ok ob (NewBidPQueue t)" "pq_ok ob (NewAskPQueue t)"
  "pq_refs (NewBidPQueue t) = {#}" "pq_refs (NewAskPQueue t) = {#}"
  by (auto simp: pq_ok_def pq_inv_def wf_pq_def heap_def pq_contents_def pq_refs_def
      NewBidPQueue_def NewAskPQueue_def)

text \<open>A queue does not notice changes of its orders outside the compared fields.\<close>

definition same_prio :: "order \<Rightarrow> order \<Rightarrow> bool" where
  "same_prio x y \<longleftrightarrow> o_OrderType x = o_OrderType y \<and> o_CreatedAt x = o_CreatedAt y \<and>
     o_Price x = o_Price y \<and> o_StockQuantity x = o_StockQuantity y"

lemma same_prio_refl [simp]: "same_prio x x"
  by (simp add: same_prio_def)

lemma pq_ok_cong:
  assumes "pq_ok ob pq" "\<And>v. v \<in># pq_refs pq \<Longrightarrow> same_prio (ob v) (ob' v)"
  shows "pq_ok ob' pq"
proof -
  have fac: "item_factors ob' it = item_factors ob it \<and> item_of ob' (i_value it) = item_of ob (i_value it)"
    if "it \<in># pq_contents pq" for it
    using assms(2) [of "i_value it"] that
    by (auto simp: pq_refs_def same_prio_def item_factors_def item_of_def)
  have "arr pq i \<in># pq_contents pq" if "1 \<le> i" "i \<le> pq_elemsCount pq" for i
    using that by (auto simp: pq_contents_def mem_amset)
  then have "item_factors ob' (arr pq i) = item_factors ob (arr pq i)"
    if "1 \<le> i" "i \<le> pq_elemsCount pq" for i using that fac by blast
  then have "heap (item_lt ob' (pq_comparator pq)) (pq_elemsCount pq) (arr pq)"
    using assms(1) by (auto simp: heap_def item_lt_def pq_ok_def pq_inv_def)
  then show ?thesis using assms(1) fac by (auto simp: pq_ok_def pq_inv_def)
qed

end
