(* ===== verification/Market_Depth.thy ===== *)
theory Market_Depth
  imports Prelude
begin

text \<open>
  The market depth of one stock: \<^verbatim>\<open>datastreams/MarketDepth.go\<close>.

  The stream keeps, for each side of the book, the open quantity per price and the change
  of it since the last broadcast, and the latest trades with those not yet broadcast. A Go
  map is a partial map here; reading a missing key gives 0. The three locks make every
  operation one step. Listeners, channels and the two-second timer are not part of the
  state; what one round of \<^verbatim>\<open>run\<close> sends to them is \<open>depth_flush\<close>.
\<close>

section \<open>State\<close>

record trade =
  tradeQuantity :: u64
  tradePrice :: u64
  tradeTime :: string

record depth =
  askDepth :: "u64 \<rightharpoonup> u64"
  askDepthDiff :: "u64 \<rightharpoonup> i64"
  bidDepth :: "u64 \<rightharpoonup> u64"
  bidDepthDiff :: "u64 \<rightharpoonup> i64"
  latestTrades :: "trade list"
  latestTradesDiff :: "trade list"

definition newMarketDepthStream :: depth where
  "newMarketDepthStream =
     \<lparr>askDepth = Map.empty, askDepthDiff = Map.empty, bidDepth = Map.empty,
      bidDepthDiff = Map.empty, latestTrades = [], latestTradesDiff = []\<rparr>"

definition mget :: "('k \<rightharpoonup> 'a::len word) \<Rightarrow> 'k \<Rightarrow> 'a word" where
  "mget m k = (case m k of None \<Rightarrow> 0 | Some v \<Rightarrow> v)"

definition mdrop0 :: "'k \<Rightarrow> ('k \<rightharpoonup> 'a::len word) \<Rightarrow> ('k \<rightharpoonup> 'a word)" where
  "mdrop0 k m = (if mget m k = 0 then m(k := None) else m)"

section \<open>Operations\<close>

definition depth_AddOrder :: "bool \<Rightarrow> bool \<Rightarrow> u64 \<Rightarrow> u64 \<Rightarrow> depth \<Rightarrow> depth" where
  "depth_AddOrder isMarket isAsk price0 stockQuantity mds =
     (let price = (if isMarket then 0 else price0) in
      if isAsk
      then mds\<lparr>askDepth := (askDepth mds)(price \<mapsto> mget (askDepth mds) price + stockQuantity),
               askDepthDiff := (askDepthDiff mds)(price \<mapsto> mget (askDepthDiff mds) price + stockQuantity)\<rparr>
      else mds\<lparr>bidDepth := (bidDepth mds)(price \<mapsto> mget (bidDepth mds) price + stockQuantity),
               bidDepthDiff := (bidDepthDiff mds)(price \<mapsto> mget (bidDepthDiff mds) price + stockQuantity)\<rparr>)"

definition depth_AddTrade :: "u64 \<Rightarrow> u64 \<Rightarrow> string \<Rightarrow> depth \<Rightarrow> depth" where
  "depth_AddTrade price qty createdAt mds =
     (let t = \<lparr>tradeQuantity = qty, tradePrice = price, tradeTime = createdAt\<rparr>;
          old = (if length (latestTrades mds) \<ge> 20
                 then drop (length (latestTrades mds) - 20) (latestTrades mds)
                 else latestTrades mds)
      in mds\<lparr>latestTrades := old @ [t], latestTradesDiff := latestTradesDiff mds @ [t]\<rparr>)"

definition depth_CloseOrder :: "bool \<Rightarrow> bool \<Rightarrow> u64 \<Rightarrow> u64 \<Rightarrow> depth \<Rightarrow> depth" where
  "depth_CloseOrder isMarket isAsk price0 qty mds =
     (let price = (if isMarket then 0 else price0) in
      if isAsk
      then let stockQuantity = (if qty > mget (askDepth mds) price then mget (askDepth mds) price else qty)
           in mds\<lparr>askDepth := mdrop0 price ((askDepth mds)(price \<mapsto> mget (askDepth mds) price - stockQuantity)),
                  askDepthDiff := mdrop0 price
                    ((askDepthDiff mds)(price \<mapsto> mget (askDepthDiff mds) price - stockQuantity))\<rparr>
      else let stockQuantity = (if qty > mget (bidDepth mds) price then mget (bidDepth mds) price else qty)
           in mds\<lparr>bidDepth := mdrop0 price ((bidDepth mds)(price \<mapsto> mget (bidDepth mds) price - stockQuantity)),
                  bidDepthDiff := mdrop0 price
                    ((bidDepthDiff mds)(price \<mapsto> mget (bidDepthDiff mds) price - stockQuantity))\<rparr>)"

text \<open>What a listener is sent: the state when it joins, and the changes of each round.\<close>

record depth_update =
  u_AskDepth :: "u64 \<rightharpoonup> u64"
  u_BidDepth :: "u64 \<rightharpoonup> u64"
  u_LatestTrades :: "trade list"
  u_AskDepthDiff :: "u64 \<rightharpoonup> i64"
  u_BidDepthDiff :: "u64 \<rightharpoonup> i64"
  u_LatestTradesDiff :: "trade list"

definition empty_update :: depth_update where
  "empty_update = \<lparr>u_AskDepth = Map.empty, u_BidDepth = Map.empty, u_LatestTrades = [],
     u_AskDepthDiff = Map.empty, u_BidDepthDiff = Map.empty, u_LatestTradesDiff = []\<rparr>"

definition depth_AddListener :: "depth \<Rightarrow> depth_update" where
  "depth_AddListener mds =
     empty_update\<lparr>u_AskDepth := askDepth mds, u_BidDepth := bidDepth mds,
       u_LatestTrades := latestTrades mds\<rparr>"

text \<open>One round of \<^verbatim>\<open>run\<close>; with no listener the round does nothing.\<close>

definition depth_flush :: "nat \<Rightarrow> depth \<Rightarrow> depth_update option \<times> depth" where
  "depth_flush listeners mds =
     (if listeners = 0 then (None, mds)
      else if askDepthDiff mds = Map.empty \<and> bidDepthDiff mds = Map.empty \<and> latestTradesDiff mds = []
      then (None, mds)
      else (Some (empty_update\<lparr>u_AskDepthDiff := askDepthDiff mds, u_BidDepthDiff := bidDepthDiff mds,
                    u_LatestTradesDiff := latestTradesDiff mds\<rparr>),
            mds\<lparr>askDepthDiff := Map.empty, bidDepthDiff := Map.empty, latestTradesDiff := []\<rparr>))"

section \<open>Facts about the operations\<close>

lemma mget_upd [simp]: "mget (m(k := Some v)) k' = (if k' = k then v else mget m k')"
  by (simp add: mget_def)

lemma mget_mdrop0 [simp]: "mget (mdrop0 k m) k' = mget m k'"
  by (simp add: mget_def mdrop0_def)

lemma mget_empty [simp]: "mget Map.empty k = 0"
  by (simp add: mget_def)

text \<open>The open quantity of a side at a price, and its change not yet broadcast.\<close>

definition depth_qty :: "bool \<Rightarrow> depth \<Rightarrow> u64 \<Rightarrow> u64" where
  "depth_qty isAsk mds p = mget (if isAsk then askDepth mds else bidDepth mds) p"

definition depth_pending :: "bool \<Rightarrow> depth \<Rightarrow> u64 \<Rightarrow> i64" where
  "depth_pending isAsk mds p = mget (if isAsk then askDepthDiff mds else bidDepthDiff mds) p"

definition depth_key :: "bool \<Rightarrow> u64 \<Rightarrow> u64" where
  "depth_key isMarket price = (if isMarket then 0 else price)"

lemma depth_qty_AddOrder:
  "depth_qty s (depth_AddOrder m isAsk p q mds) p' =
   depth_qty s mds p' + (if s = isAsk \<and> p' = depth_key m p then q else 0)"
  by (auto simp: depth_AddOrder_def depth_qty_def depth_key_def Let_def)

lemma depth_qty_CloseOrder:
  "depth_qty s (depth_CloseOrder m isAsk p q mds) p' =
   depth_qty s mds p' -
   (if s = isAsk \<and> p' = depth_key m p then min q (depth_qty s mds p') else 0)"
  by (auto simp: depth_CloseOrder_def depth_qty_def depth_key_def Let_def min_def)

lemma depth_pending_AddOrder:
  "depth_pending s (depth_AddOrder m isAsk p q mds) p' =
   depth_pending s mds p' + (if s = isAsk \<and> p' = depth_key m p then q else 0)"
  by (auto simp: depth_AddOrder_def depth_pending_def depth_key_def Let_def)

lemma depth_pending_CloseOrder:
  "depth_pending s (depth_CloseOrder m isAsk p q mds) p' =
   depth_pending s mds p' -
   (if s = isAsk \<and> p' = depth_key m p then min q (depth_qty s mds p') else 0)"
  by (auto simp: depth_CloseOrder_def depth_pending_def depth_qty_def depth_key_def Let_def min_def)

lemma depth_AddTrade_qty [simp]:
  "depth_qty s (depth_AddTrade p q c mds) = depth_qty s mds"
  "depth_pending s (depth_AddTrade p q c mds) = depth_pending s mds"
  by (simp_all add: depth_AddTrade_def depth_qty_def depth_pending_def Let_def fun_eq_iff)

section \<open>What a listener knows\<close>

text \<open>
  The quantity a listener has that was up to date at the last broadcast: the depth less
  the pending change. No operation on the depth changes it, only a broadcast does.
\<close>

definition depth_base :: "bool \<Rightarrow> depth \<Rightarrow> u64 \<Rightarrow> u64" where
  "depth_base s mds p = depth_qty s mds p - depth_pending s mds p"

datatype depth_op =
  DAdd bool bool u64 u64
| DClose bool bool u64 u64
| DTrade u64 u64 string

fun depth_step :: "depth_op \<Rightarrow> depth \<Rightarrow> depth" where
  "depth_step (DAdd m a p q) mds = depth_AddOrder m a p q mds"
| "depth_step (DClose m a p q) mds = depth_CloseOrder m a p q mds"
| "depth_step (DTrade p q c) mds = depth_AddTrade p q c mds"

lemma depth_base_step [simp]: "depth_base s (depth_step x mds) p = depth_base s mds p"
  by (cases x) (simp_all add: depth_base_def depth_qty_AddOrder depth_pending_AddOrder
      depth_qty_CloseOrder depth_pending_CloseOrder)

lemma depth_base_fold: "depth_base s (fold depth_step xs mds) p = depth_base s mds p"
  by (induction xs arbitrary: mds) simp_all

definition apply_diff :: "bool \<Rightarrow> depth_update \<Rightarrow> (u64 \<Rightarrow> u64) \<Rightarrow> (u64 \<Rightarrow> u64)" where
  "apply_diff s upd view p = view p + mget (if s then u_AskDepthDiff upd else u_BidDepthDiff upd) p"

text \<open>Only the last 20 trades are kept when a trade is added, so there are at most 21.\<close>

lemma length_AddTrade:
  "length (latestTrades (depth_AddTrade p q c mds)) = min 20 (length (latestTrades mds)) + 1"
  by (simp add: depth_AddTrade_def Let_def)

text \<open>
  The interface of the stream the order book works with: quantities per side and price
  that go up when an order is added and down, never below zero, when one is closed.
\<close>

locale depth_stream =
  fixes add_order :: "bool \<Rightarrow> bool \<Rightarrow> u64 \<Rightarrow> u64 \<Rightarrow> 'd \<Rightarrow> 'd"
    and close_order :: "bool \<Rightarrow> bool \<Rightarrow> u64 \<Rightarrow> u64 \<Rightarrow> 'd \<Rightarrow> 'd"
    and add_trade :: "u64 \<Rightarrow> u64 \<Rightarrow> string \<Rightarrow> 'd \<Rightarrow> 'd"
    and qty :: "bool \<Rightarrow> 'd \<Rightarrow> u64 \<Rightarrow> u64"
  assumes qty_add: "qty s (add_order m a p q d) p' =
      qty s d p' + (if s = a \<and> p' = depth_key m p then q else 0)"
    and qty_close: "qty s (close_order m a p q d) p' =
      qty s d p' - (if s = a \<and> p' = depth_key m p then min q (qty s d p') else 0)"
    and qty_trade: "qty s (add_trade p q c d) p' = qty s d p'"
begin

text \<open>Closing what was added restores the depth, unless the addition wrapped around.\<close>

lemma close_add:
  assumes "qty a d (depth_key m p) \<le> qty a d (depth_key m p) + q"
  shows "qty s (close_order m a p q (add_order m a p q d)) p' = qty s d p'"
proof -
  have "q \<le> qty a d (depth_key m p) + q"
    using assms by (metis add.commute olen_add_eqv)
  then show ?thesis by (simp add: qty_close qty_add min_def)
qed

lemma close_never_wraps: "qty s (close_order m a p q d) p' \<le> qty s d p'"
  by (auto simp: qty_close min_def not_le intro!: word_sub_le)

lemma close_other_side: "s \<noteq> a \<Longrightarrow> qty s (close_order m a p q d) = qty s d"
  by (rule ext) (simp add: qty_close)

end

interpretation mds: depth_stream depth_AddOrder depth_CloseOrder depth_AddTrade depth_qty
  by unfold_locales (simp_all add: depth_qty_AddOrder depth_qty_CloseOrder)

end
