(* ===== verification/Go_Float.thy ===== *)
theory Go_Float
  imports Prelude
begin

text \<open>
  Go's \<^verbatim>\<open>float64\<close>: the finite values as rationals, every operation rounded to the nearest
  53-bit significand, ties to the even one, as IEEE 754 and the Go specification say.

  The program uses \<^verbatim>\<open>float64\<close> for percentages of \<^verbatim>\<open>uint64\<close> amounts only, so every value it
  computes has a magnitude between 2 to the -70 and 2 to the 140 or is zero: there is no overflow to infinity
  and no subnormal number, and neither is modelled. A division whose divisor is zero is
  outside the model; the places that divide say why theirs is not.
\<close>

type_synonym f64 = rat

fun ilog2 :: "nat \<Rightarrow> nat" where
  "ilog2 n = (if n < 2 then 0 else Suc (ilog2 (n div 2)))"

declare ilog2.simps [simp del]

definition expo :: "rat \<Rightarrow> int" where
  "expo x =
     (let (n, d) = quotient_of x; e = int (ilog2 (nat n)) - int (ilog2 (nat d))
      in if 2 powi e \<le> x then e else e - 1)"

definition rne :: "rat \<Rightarrow> int" where
  "rne x =
     (let f = \<lfloor>x\<rfloor>; d = x - of_int f
      in if d < 1 / 2 then f else if d > 1 / 2 then f + 1 else if even f then f else f + 1)"

definition fl64 :: "rat \<Rightarrow> f64" where
  "fl64 x =
     (if x = 0 then 0
      else let e = expo \<bar>x\<bar> - 52 in of_int (rne (x * 2 powi (- e))) * 2 powi e)"

definition fmul :: "f64 \<Rightarrow> f64 \<Rightarrow> f64" where "fmul x y = fl64 (x * y)"
definition fdiv :: "f64 \<Rightarrow> f64 \<Rightarrow> f64" where "fdiv x y = fl64 (x / y)"
definition fadd :: "f64 \<Rightarrow> f64 \<Rightarrow> f64" where "fadd x y = fl64 (x + y)"
definition fsub :: "f64 \<Rightarrow> f64 \<Rightarrow> f64" where "fsub x y = fl64 (x - y)"

text \<open>Conversions: an integer is rounded, a float is truncated towards zero.\<close>

definition f_of_u64 :: "u64 \<Rightarrow> f64" where "f_of_u64 w = fl64 (of_int (uint w))"
definition f_of_i64 :: "i64 \<Rightarrow> f64" where "f_of_i64 w = fl64 (of_int (sint w))"

definition f_trunc :: "f64 \<Rightarrow> int" where
  "f_trunc x = (if x < 0 then \<lceil>x\<rceil> else \<lfloor>x\<rfloor>)"

definition u64_of_f :: "f64 \<Rightarrow> u64" where "u64_of_f x = word_of_int (f_trunc x)"
definition i64_of_f :: "f64 \<Rightarrow> i64" where "i64_of_f x = word_of_int (f_trunc x)"

section \<open>Rounding to an integer\<close>

lemma rne_of_int [simp]: "rne (of_int n) = n"
  by (simp add: rne_def)

lemma rne_bounds: "\<lfloor>x\<rfloor> \<le> rne x" "rne x \<le> \<lceil>x\<rceil>"
proof -
  show "\<lfloor>x\<rfloor> \<le> rne x" by (simp add: rne_def Let_def)
  show "rne x \<le> \<lceil>x\<rceil>"
  proof (cases "x = of_int \<lfloor>x\<rfloor>")
    case True
    then show ?thesis by (metis rne_of_int ceiling_of_int order_refl)
  next
    case False
    then have "\<lceil>x\<rceil> = \<lfloor>x\<rfloor> + 1"
      by (metis ceiling_altdef)
    then show ?thesis by (simp add: rne_def Let_def)
  qed
qed

lemma rne_error: "\<bar>of_int (rne x) - x\<bar> \<le> 1 / 2"
  unfolding rne_def Let_def by (auto simp: abs_if) (linarith)+

lemma rne_le_of_int: "x \<le> of_int n \<Longrightarrow> rne x \<le> n"
  using rne_bounds(2) [of x] by (simp add: ceiling_le_iff order_trans)

lemma of_int_le_rne: "of_int n \<le> x \<Longrightarrow> n \<le> rne x"
  using rne_bounds(1) [of x] by (meson le_floor_iff order_trans)

section \<open>The exponent of a positive value\<close>

lemma ilog2_bounds: "n > 0 \<Longrightarrow> 2 ^ ilog2 n \<le> n \<and> n < 2 ^ Suc (ilog2 n)"
proof (induction n rule: ilog2.induct)
  case (1 n)
  show ?case
  proof (cases "n < 2")
    case True
    then show ?thesis using "1.prems" by (simp add: ilog2.simps [of n])
  next
    case False
    then have "2 ^ ilog2 (n div 2) \<le> n div 2 \<and> n div 2 < 2 ^ Suc (ilog2 (n div 2))"
      using "1.IH" by simp
    then show ?thesis using False by (simp add: ilog2.simps [of n]) linarith
  qed
qed

lemma expo_bounds:
  assumes "x > 0"
  shows "2 powi expo x \<le> x" "x < 2 powi (expo x + 1)"
proof -
  obtain n d where nd: "quotient_of x = (n, d)" by (cases "quotient_of x")
  have d: "d > 0" using nd by (rule quotient_of_denom_pos)
  have x: "x = of_int n / of_int d" using nd by (rule quotient_of_div)
  then have n: "n > 0" using assms d by (simp add: zero_less_divide_iff)
  define ln where "ln = ilog2 (nat n)"
  define ld where "ld = ilog2 (nat d)"
  define e where "e = int ln - int ld"
  have "2 ^ ln \<le> nat n" "nat n < 2 ^ Suc ln" "2 ^ ld \<le> nat d" "nat d < 2 ^ Suc ld"
    using ilog2_bounds [of "nat n"] ilog2_bounds [of "nat d"] n d by (auto simp: ln_def ld_def)
  then have "2 ^ ln \<le> n" "n < 2 ^ Suc ln" "2 ^ ld \<le> d" "d < 2 ^ Suc ld"
    using n d by (simp_all add: le_nat_iff nat_less_iff)
  then have b: "2 ^ ln \<le> rat_of_int n" "rat_of_int n < 2 ^ Suc ln"
      "2 ^ ld \<le> rat_of_int d" "rat_of_int d < 2 ^ Suc ld"
    by (metis of_int_le_iff of_int_less_iff of_int_numeral of_int_power)+
  have pw: "2 powi (e + k) = 2 powi k * (2 ^ ln / 2 ^ ld :: rat)" for k
    by (simp add: e_def power_int_add power_int_diff)
  have up: "x < 2 powi (e + 1)"
  proof -
    have "x < 2 ^ Suc ln / of_int d"
      using b(2) d unfolding x by (intro divide_strict_right_mono) auto
    also have "\<dots> \<le> 2 ^ Suc ln / 2 ^ ld"
      using b(3) d by (intro divide_left_mono mult_pos_pos) auto
    finally show ?thesis using pw [of 1] by simp
  qed
  have lo: "2 powi (e - 1) \<le> x"
  proof -
    have "2 powi (e + (- 1)) = (2 ^ ln / 2 ^ Suc ld :: rat)"
      by (subst pw) (simp add: power_int_minus field_simps)
    also have "\<dots> \<le> 2 ^ ln / of_int d"
      using b(4) d by (intro divide_left_mono) auto
    also have "\<dots> \<le> x" using b(1) d unfolding x by (intro divide_right_mono) auto
    finally show ?thesis by simp
  qed
  have ex: "expo x = (if 2 powi e \<le> x then e else e - 1)"
    by (simp add: expo_def nd e_def ln_def ld_def Let_def)
  show "2 powi expo x \<le> x" using lo ex by auto
  show "x < 2 powi (expo x + 1)" using up ex by auto
qed

lemma expo_less: "0 < x \<Longrightarrow> x < 2 ^ k \<Longrightarrow> expo x < int k"
proof (rule ccontr)
  assume "0 < x" "x < 2 ^ k" "\<not> expo x < int k"
  then have "(2 :: rat) powi int k \<le> 2 powi expo x" by (intro power_int_increasing) auto
  also have "\<dots> \<le> x" using \<open>0 < x\<close> by (rule expo_bounds)
  finally show False using \<open>x < 2 ^ k\<close> by simp
qed

section \<open>Rounding\<close>

lemma fl64_0 [simp]: "fl64 0 = 0"
  by (simp add: fl64_def)

lemma fl64_scaled:
  assumes "x > 0"
  shows "fl64 x = of_int (rne (x * 2 powi (52 - expo x))) * 2 powi (expo x - 52)"
  using assms by (simp add: fl64_def Let_def)

lemma scaled_int:
  assumes "expo x \<le> 52"
  shows "\<exists>m. of_int n * (2 :: rat) powi (52 - expo x) = of_int m \<and> of_int m * (2 :: rat) powi (expo x - 52) = of_int n"
proof (intro exI conjI)
  let ?m = "n * 2 ^ nat (52 - expo x)"
  show eq: "of_int n * (2 :: rat) powi (52 - expo x) = of_int ?m"
    using assms by (simp add: power_int_def)
  have "(2 :: rat) powi (52 - expo x) * 2 powi (expo x - 52) = 1"
    by (subst power_int_add [symmetric]) auto
  then show "of_int ?m * (2 :: rat) powi (expo x - 52) = of_int n"
    by (metis (no_types) eq mult.assoc mult.right_neutral)
qed

lemma fl64_le_of_int:
  assumes "0 \<le> x" "x \<le> of_int n" "n < 2 ^ 53"
  shows "fl64 x \<le> of_int n"
proof (cases "x = 0")
  case True
  then show ?thesis using assms by simp
next
  case False
  then have x: "x > 0" using assms(1) by simp
  have "x < 2 ^ 53" using assms(2,3) by (metis le_less_trans of_int_less_numeral_power_cancel_iff)
  then have "expo x \<le> 52" using expo_less [OF x, of 53] by simp
  then obtain m where m: "of_int n * (2 :: rat) powi (52 - expo x) = of_int m"
      "of_int m * (2 :: rat) powi (expo x - 52) = of_int n"
    using scaled_int by blast
  have "x * 2 powi (52 - expo x) \<le> of_int m"
    unfolding m(1) [symmetric] using assms(2) by (intro mult_right_mono) auto
  then have "rne (x * 2 powi (52 - expo x)) \<le> m" by (rule rne_le_of_int)
  then have "fl64 x \<le> of_int m * 2 powi (expo x - 52)"
    unfolding fl64_scaled [OF x] by (intro mult_right_mono) auto
  then show ?thesis using m by simp
qed

lemma of_int_le_fl64:
  assumes "of_int n \<le> x" "0 \<le> n" "n < 2 ^ 53"
  shows "of_int n \<le> fl64 x"
proof (cases "x = 0")
  case True
  then show ?thesis using assms by simp
next
  case False
  have "0 \<le> x" using assms(1,2) by (meson of_int_0_le_iff order_trans)
  then have x: "x > 0" using False by simp
  show ?thesis
  proof (cases "expo x \<le> 52")
    case True
    then obtain m where m: "of_int n * (2 :: rat) powi (52 - expo x) = of_int m"
        "of_int m * (2 :: rat) powi (expo x - 52) = of_int n"
      using scaled_int by blast
    have "of_int m \<le> x * 2 powi (52 - expo x)"
      unfolding m(1) [symmetric] using assms(1) by (intro mult_right_mono) auto
    then have "m \<le> rne (x * 2 powi (52 - expo x))" by (rule of_int_le_rne)
    then have "of_int m * 2 powi (expo x - 52) \<le> fl64 x"
      unfolding fl64_scaled [OF x] by (intro mult_right_mono) auto
    then show ?thesis using m by simp
  next
    case False
    have e: "(2 :: rat) powi expo x * 2 powi (52 - expo x) = 2 ^ 52"
      by (subst power_int_add [symmetric]) auto
    have "2 ^ 52 \<le> x * 2 powi (52 - expo x)"
      unfolding e [symmetric] using expo_bounds(1) [OF x] by (intro mult_right_mono) auto
    then have "of_int (2 ^ 52) \<le> x * 2 powi (52 - expo x)" by simp
    then have "2 ^ 52 \<le> rne (x * 2 powi (52 - expo x))" by (rule of_int_le_rne)
    then have "of_int (2 ^ 52) * 2 powi (expo x - 52) \<le> fl64 x"
      unfolding fl64_scaled [OF x] by (intro mult_right_mono) (auto simp del: of_int_power)
    moreover have "(2 :: rat) powi 1 \<le> 2 powi (expo x - 52)"
      using False by (intro power_int_increasing) auto
    then have "rat_of_int (2 ^ 52) * 2 \<le> of_int (2 ^ 52) * 2 powi (expo x - 52)" by simp
    moreover have "rat_of_int n \<le> of_int (2 ^ 53)" using assms(3) by (simp only: of_int_le_iff)
    ultimately show ?thesis by simp
  qed
qed

lemma fl64_of_int: "0 \<le> n \<Longrightarrow> n < 2 ^ 53 \<Longrightarrow> fl64 (of_int n) = of_int n"
  using fl64_le_of_int [of "of_int n" n] of_int_le_fl64 [of n "of_int n"]
  by (intro antisym) auto

lemma fl64_nonneg: "0 \<le> x \<Longrightarrow> 0 \<le> fl64 x"
  using of_int_le_fl64 [of 0 x] by simp

lemma fl64_minus: "fl64 (- x) = - fl64 x"
proof (cases "x = 0")
  case False
  have odd: "rne (- y) = - rne y" for y :: rat
  proof -
    have fl: "\<lfloor>- y\<rfloor> = - \<lfloor>y\<rfloor> - 1" if "y \<noteq> of_int \<lfloor>y\<rfloor>"
      using that ceiling_altdef [of y] by (simp add: ceiling_def)
    show ?thesis
    proof (cases "y = of_int \<lfloor>y\<rfloor>")
      case True
      then show ?thesis by (metis of_int_minus rne_of_int)
    next
      case False
      then have "of_int \<lfloor>y\<rfloor> < y" using of_int_floor_le [of y] by linarith
      have "rne (- y) = (let d = of_int \<lfloor>y\<rfloor> + 1 - y in
          if d < 1 / 2 then - \<lfloor>y\<rfloor> - 1 else if d > 1 / 2 then - \<lfloor>y\<rfloor>
          else if odd \<lfloor>y\<rfloor> then - \<lfloor>y\<rfloor> - 1 else - \<lfloor>y\<rfloor>)"
        unfolding rne_def fl [OF False] Let_def by simp
      then show ?thesis unfolding rne_def Let_def by (simp split: if_splits)
    qed
  qed
  show ?thesis using False by (simp add: fl64_def Let_def odd)
qed simp

text \<open>Rounding keeps the order.\<close>

lemma rne_mono:
  assumes "x \<le> y"
  shows "rne x \<le> rne y"
proof (cases "\<lfloor>x\<rfloor> = \<lfloor>y\<rfloor>")
  case True
  then show ?thesis using assms by (auto simp: rne_def Let_def)
next
  case False
  then have "\<lfloor>x\<rfloor> < \<lfloor>y\<rfloor>" using floor_mono [OF assms] by simp
  then have "\<lceil>x\<rceil> \<le> \<lfloor>y\<rfloor>" by (simp add: ceiling_le_iff) linarith
  then show ?thesis using rne_bounds [of x] rne_bounds [of y] by linarith
qed

lemma fl64_expo:
  assumes "x > 0"
  shows "2 powi expo x \<le> fl64 x" "fl64 x \<le> 2 powi (expo x + 1)"
proof -
  let ?s = "x * 2 powi (52 - expo x)"
  have s: "2 powi k * 2 powi (52 - expo x) = (2 :: rat) powi (k + 52 - expo x)" for k
    by (subst power_int_add [symmetric]) (simp_all add: algebra_simps)
  have "2 powi expo x * 2 powi (52 - expo x) \<le> ?s" "?s \<le> 2 powi (expo x + 1) * 2 powi (52 - expo x)"
    using expo_bounds [OF assms] by (simp_all add: mult_right_mono)
  then have "of_int (2 ^ 52) \<le> ?s" "?s \<le> of_int (2 ^ 53)" unfolding s by (simp_all add: power_int_def)
  from of_int_le_rne [OF this(1)] rne_le_of_int [OF this(2)] have "2 ^ 52 \<le> rne ?s" "rne ?s \<le> 2 ^ 53" .
  then have r: "(2 :: rat) ^ 52 \<le> of_int (rne ?s)" "of_int (rne ?s) \<le> (2 :: rat) ^ 53"
    by (metis of_int_le_iff of_int_numeral of_int_power)+
  have p: "(2 :: rat) ^ 52 * 2 powi (expo x - 52) = 2 powi expo x" "(2 :: rat) ^ 53 * 2 powi (expo x - 52) = 2 powi (expo x + 1)"
    by (simp_all add: power_int_diff power_int_add)
  show "2 powi expo x \<le> fl64 x" "fl64 x \<le> 2 powi (expo x + 1)"
    unfolding fl64_scaled [OF assms] p [symmetric] using r by (auto intro!: mult_right_mono)
qed

lemma expo_mono:
  assumes "0 < x" "x \<le> y"
  shows "expo x \<le> expo y"
proof (rule ccontr)
  assume "\<not> expo x \<le> expo y"
  then have "(2 :: rat) powi (expo y + 1) \<le> 2 powi expo x" by (intro power_int_increasing) auto
  then show False using expo_bounds [of x] expo_bounds [of y] assms by simp
qed

lemma fl64_mono:
  assumes "0 \<le> x" "x \<le> y"
  shows "fl64 x \<le> fl64 y"
proof (cases "x = 0")
  case True
  then show ?thesis using assms by (simp add: fl64_nonneg)
next
  case False
  then have x: "0 < x" "0 < y" using assms by simp_all
  show ?thesis
  proof (cases "expo x = expo y")
    case True
    then have "x * 2 powi (52 - expo x) \<le> y * 2 powi (52 - expo y)" using assms by (simp add: mult_right_mono)
    from rne_mono [OF this] show ?thesis unfolding fl64_scaled [OF x(1)] fl64_scaled [OF x(2)]
      using True by (auto intro!: mult_right_mono)
  next
    case False
    then have "expo x + 1 \<le> expo y" using expo_mono [OF x(1) assms(2)] by simp
    then have "(2 :: rat) powi (expo x + 1) \<le> 2 powi expo y" by (intro power_int_increasing) auto
    then show ?thesis using fl64_expo(2) [OF x(1)] fl64_expo(1) [OF x(2)] by linarith
  qed
qed

text \<open>A value that is more than one in the first 32 bits of its fraction is not rounded to one.\<close>

lemma fl64_above_one:
  assumes "1 + 1 / 2 ^ 32 \<le> x"
  shows "1 < fl64 x"
proof -
  have e: "fl64 (1 + 1 / 2 ^ 32) = 1 + 1 / 2 ^ 32"
  proof -
    let ?c = "1 + 1 / 2 ^ 32 :: rat"
    have "expo ?c < 1" using expo_less [of ?c 1] by simp
    moreover have "0 \<le> expo ?c"
    proof (rule ccontr)
      assume "\<not> 0 \<le> expo ?c"
      then have "(2 :: rat) powi (expo ?c + 1) \<le> 2 powi 0" by (intro power_int_increasing) auto
      then show False using expo_bounds(2) [of ?c] by simp
    qed
    ultimately have "expo ?c = 0" by simp
    moreover have "?c * 2 ^ 52 = of_int (2 ^ 52 + 2 ^ 20)" by simp
    ultimately show ?thesis using fl64_scaled [of ?c] rne_of_int [of "2 ^ 52 + 2 ^ 20"]
      by (simp add: power_int_def power_one_over)
  qed
  show ?thesis using fl64_mono [OF _ assms] unfolding e by simp
qed

lemma f_trunc_of_int [simp]: "f_trunc (of_int n) = n"
  by (simp add: f_trunc_def)

lemma f_trunc_nonneg: "0 \<le> x \<Longrightarrow> 0 \<le> f_trunc x"
  by (simp add: f_trunc_def)

lemma f_trunc_le: "0 \<le> x \<Longrightarrow> x \<le> of_int n \<Longrightarrow> f_trunc x \<le> n"
  using floor_mono [of x "of_int n"] by (simp add: f_trunc_def)

lemma le_f_trunc: "of_int n \<le> x \<Longrightarrow> 0 \<le> x \<Longrightarrow> n \<le> f_trunc x"
  by (simp add: f_trunc_def le_floor_iff)

lemma f_of_u64_exact: "uint w < 2 ^ 53 \<Longrightarrow> f_of_u64 w = of_int (uint w)"
  unfolding f_of_u64_def by (rule fl64_of_int) simp_all

lemma u64_of_f_of_u64: "uint w < 2 ^ 53 \<Longrightarrow> u64_of_f (f_of_u64 w) = w"
  unfolding u64_of_f_def f_of_u64_exact f_trunc_of_int by (rule word_of_int_uint)

end
