(* ===== verification/World.thy ===== *)
theory World
  imports Orders Go_Float
begin

text \<open>
  The state of the \<^verbatim>\<open>models\<close> package: the rows of the tables it owns, the objects it keeps
  in memory, and the calls it makes to the database.

  The database itself (MySQL through gorm) is not part of the repository. What the code
  relies on is written out here: a transaction works on its own copy of the tables, which
  becomes the committed state when \<^verbatim>\<open>Commit\<close> succeeds and is dropped otherwise; \<^verbatim>\<open>Save\<close>
  inserts a row whose primary key is 0, giving it a fresh key, and overwrites the row with
  that key otherwise; a \<^verbatim>\<open>SELECT\<close> outside the transaction sees the committed state. Every
  call may fail. Which calls fail is the field \<open>outcomes\<close>: each call takes the next entry, and
  succeeds when the list is used up. A theorem about arbitrary failures quantifies over it.

  The program serialises the operations on a user by the user's lock; an operation is one
  step here.
\<close>

section \<open>Rows\<close>

record user =
  u_Id :: u32
  u_Email :: string
  u_Name :: string
  u_Cash :: u64
  u_Total :: i64
  u_CreatedAt :: string
  u_IsHuman :: bool
  u_ReservedCash :: u64
  u_IsPhoneVerified :: bool
  u_IsAdmin :: bool
  u_IsOTPBlocked :: bool
  u_OTPRequestCount :: i64
  u_IsBlocked :: bool
  u_BlockCount :: i64

record stock =
  s_Id :: u32
  s_ShortName :: string
  s_FullName :: string
  s_Description :: string
  s_CurrentPrice :: u64
  s_DayHigh :: u64
  s_DayLow :: u64
  s_AllTimeHigh :: u64
  s_AllTimeLow :: u64
  s_StocksInExchange :: u64
  s_StocksInMarket :: u64
  s_PreviousDayClose :: u64
  s_UpOrDown :: bool
  s_LastTradePrice :: u64
  s_RealAvgPrice :: f64
  s_CreatedAt :: string
  s_UpdatedAt :: string
  s_GivesDividends :: bool
  s_IsBankrupt :: bool
  s_open :: u64
  s_high :: u64
  s_low :: u64
  s_volume :: u64

datatype TransactionType =
  FromExchangeTransaction | OrderFillTransaction | MortgageTransaction | DividendTransaction
| OrderFeeTransaction | TaxTransaction | PlaceOrderTransaction | CancelOrderTransaction
| ReserveUpdateTransaction | ShortSellTransaction | IpoAllotmentTransaction

record transaction =
  t_Id :: u32
  t_UserId :: u32
  t_StockId :: u32
  t_Type :: TransactionType
  t_ReservedStockQuantity :: i64
  t_StockQuantity :: i64
  t_Price :: u64
  t_ReservedCashTotal :: i64
  t_Total :: i64
  t_CreatedAt :: string

record order_deposit =
  od_TransactionId :: u32
  od_OrderId :: u32
  od_IsAsk :: bool
  od_CreatedAt :: string

record order_fill =
  of_TransactionId :: u32
  of_BidId :: u32
  of_AskId :: u32

record summary =
  ts_Id :: u32
  ts_UserId :: u32
  ts_StockId :: u32
  ts_StockQuantity :: i64
  ts_Price :: f64

record bank =
  ssb_StockId :: u32
  ssb_AvailableStocks :: u32

record lend =
  sl_Id :: u32
  sl_StockId :: u32
  sl_UserId :: u32
  sl_StockQuantity :: u32
  sl_IsSquaredOff :: bool

record mortgage =
  m_userId :: u32
  m_stockId :: u32
  m_stocksInBank :: i64
  m_mortgagePrice :: u64

record ipo_stock =
  is_Id :: u32
  is_ShortName :: string
  is_FullName :: string
  is_Description :: string
  is_CreatedAt :: string
  is_UpdatedAt :: string
  is_IsBiddable :: bool
  is_SlotPrice :: u64
  is_StockPrice :: u64
  is_SlotQuantity :: u32
  is_StocksPerSlot :: u32

record ipo_bid =
  ib_Id :: u32
  ib_UserId :: u32
  ib_IpoStockId :: u32
  ib_SlotPrice :: u64
  ib_SlotQuantity :: u32
  ib_IsFulfilled :: bool
  ib_IsClosed :: bool
  ib_CreatedAt :: string
  ib_UpdatedAt :: string

record game_config =
  c_Id :: u32
  c_IsDailyChallengeOpen :: bool
  c_MarketDay :: u32
  c_IsMarketOpen :: bool

record challenge =
  dc_Id :: u32
  dc_MarketDay :: u32
  dc_ChallengeType :: string
  dc_Value :: u64
  dc_StockId :: u32
  dc_Reward :: u32

record user_state =
  us_Id :: u32
  us_ChallengeId :: u32
  us_UserId :: u32
  us_InitialValue :: i64
  us_FinalValue :: i64
  us_IsCompleted :: bool
  us_IsRewardClaimed :: bool

record leaderboard_row =
  lb_Id :: u32
  lb_UserId :: u32
  lb_UserName :: string
  lb_Rank :: u32
  lb_Cash :: u64
  lb_Debt :: u64
  lb_StockWorth :: i64
  lb_TotalWorth :: i64
  lb_IsBlocked :: bool

record end_of_day =
  ed_Id :: u32
  ed_UserId :: u32
  ed_Cash :: u64
  ed_Debt :: u64
  ed_StockWorth :: i64
  ed_TotalWorth :: i64

record stock_history =
  sh_StockId :: u32
  sh_Close :: u64
  sh_CreatedAt :: string
  sh_Interval :: u32
  sh_Open :: u64
  sh_High :: u64
  sh_Low :: u64
  sh_Volume :: u64

text \<open>
  A row of the daily leaderboard has the fields of a row of the leaderboard; its cash is
  signed, which is how the 64 bits are read and not what they are.
\<close>

record tables =
  Users :: "user list"
  Asks :: "order list"
  Bids :: "order list"
  Stocks :: "stock list"
  Transactions :: "transaction list"
  OrderDeposits :: "order_deposit list"
  OrderFills :: "order_fill list"
  Summaries :: "summary list"
  ShortSellBank :: "bank list"
  ShortSellLends :: "lend list"
  Mortgages :: "mortgage list"
  IpoStocks :: "ipo_stock list"
  IpoBids :: "ipo_bid list"
  Configs :: "game_config list"
  DailyChallenges :: "challenge list"
  UserStates :: "user_state list"
  EndOfDayValues :: "end_of_day list"
  Leaderboard :: "leaderboard_row list"
  DailyLeaderboard :: "leaderboard_row list"
  StockHistories :: "stock_history list"

section \<open>The state\<close>

text \<open>
  \<open>users\<close> is \<^verbatim>\<open>userLocks.m\<close>. An order object is reached through a reference, since the
  matching engine and \<^verbatim>\<open>asksMap\<close> share it; \<open>nextId\<close> is the next primary key the database
  gives out and \<open>now\<close> the time \<^verbatim>\<open>GetCurrentTimeISO8601\<close> returns.
\<close>

record world =
  users :: "u32 \<rightharpoonup> user"
  askObj :: "ref \<Rightarrow> order"
  bidObj :: "ref \<Rightarrow> order"
  nextRef :: ref
  asksMap :: "u32 \<rightharpoonup> ref"
  bidsMap :: "u32 \<rightharpoonup> ref"
  allStocks :: "u32 \<rightharpoonup> stock"
  avgLastPrice :: "u32 \<rightharpoonup> f64"
  db :: tables
  nextId :: u32
  outcomes :: "bool list"
  now :: string
  TotalUserCount :: u32
  isMarketOpen :: bool

datatype go_error =
  DbError
| RecordNotFound
| UserNotFoundError
| InternalServerError
| StockBankruptError
| MinimumPriceThresholdError
| OrderPriceOutOfWindowError u64
| OrderStockLimitExceeded
| NotEnoughStocksError i64
| NotEnoughCashError
| InvalidOrderIDError
| AlreadyClosedError u32
| BuyLimitExceededError
| InvalidRetrievePriceError
| InvalidStockError
| StockNotFoundError u32
| InvalidStockIdError
| IpoNotBiddableError u32
| IpoAlreadyOpenError u32
| IpoOrderStockLimitExceeded
| InvalidRequestError
| InvalidUserError
| InvalidCredentialError
| InvalidChallengeTypeError

section \<open>Calls to the database\<close>

definition db_ok :: "world \<Rightarrow> bool \<times> world" where
  "db_ok w = (case outcomes w of [] \<Rightarrow> (True, w) | b # bs \<Rightarrow> (b, w\<lparr>outcomes := bs\<rparr>))"

text \<open>
  An operation inside a transaction: the state and the tables of the transaction before
  and after, and whether it went through. \<open>tx_seq\<close> runs operations until the first that
  fails, which is what a chain of Go's \<^verbatim>\<open>if err := ...; err != nil { return ... }\<close> does.
\<close>

type_synonym txop = "world \<times> tables \<Rightarrow> bool \<times> world \<times> tables"

definition tx_save :: "(tables \<Rightarrow> tables) \<Rightarrow> txop" where
  "tx_save f = (\<lambda>(w, t). let (ok, w') = db_ok w in (ok, w', if ok then f t else t))"

definition tx_insert :: "(u32 \<Rightarrow> tables \<Rightarrow> tables) \<Rightarrow> txop" where
  "tx_insert f = (\<lambda>(w, t). let (ok, w') = db_ok w
     in if ok then (True, w'\<lparr>nextId := nextId w + 1\<rparr>, f (nextId w) t) else (False, w', t))"

fun tx_seq :: "txop list \<Rightarrow> txop" where
  "tx_seq [] (w, t) = (True, w, t)"
| "tx_seq (op # ops) (w, t) =
     (case op (w, t) of (True, w', t') \<Rightarrow> tx_seq ops (w', t') | (False, w', t') \<Rightarrow> (False, w', t'))"

text \<open>Begin a transaction, run it and commit it; the committed tables change only if all succeeds.\<close>

definition tx_run :: "txop list \<Rightarrow> world \<Rightarrow> bool \<times> world" where
  "tx_run ops w =
     (case tx_seq ops (w, db w) of
        (False, w', t') \<Rightarrow> (False, w')
      | (True, w', t') \<Rightarrow> (let (ok, w'') = db_ok w' in (ok, if ok then w''\<lparr>db := t'\<rparr> else w'')))"

definition save_user :: "user \<Rightarrow> tables \<Rightarrow> tables" where
  "save_user u t = t\<lparr>Users := upsert u_Id u (Users t)\<rparr>"

definition save_ask :: "order \<Rightarrow> tables \<Rightarrow> tables" where
  "save_ask a t = t\<lparr>Asks := upsert o_Id a (Asks t)\<rparr>"

definition save_bid :: "order \<Rightarrow> tables \<Rightarrow> tables" where
  "save_bid b t = t\<lparr>Bids := upsert o_Id b (Bids t)\<rparr>"

definition save_stock :: "stock \<Rightarrow> tables \<Rightarrow> tables" where
  "save_stock s t = t\<lparr>Stocks := upsert s_Id s (Stocks t)\<rparr>"

definition insert_tx :: "transaction \<Rightarrow> u32 \<Rightarrow> tables \<Rightarrow> tables" where
  "insert_tx tr i t = t\<lparr>Transactions := Transactions t @ [tr\<lparr>t_Id := i\<rparr>]\<rparr>"

section \<open>Facts about database calls\<close>

lemma db_ok_nil [simp]: "outcomes w = [] \<Longrightarrow> db_ok w = (True, w)"
  by (simp add: db_ok_def)

lemma tx_save_nil [simp]: "outcomes w = [] \<Longrightarrow> tx_save f (w, t) = (True, w, f t)"
  by (simp add: tx_save_def)

lemma tx_insert_nil [simp]:
  "outcomes w = [] \<Longrightarrow> tx_insert f (w, t) = (True, w\<lparr>nextId := nextId w + 1\<rparr>, f (nextId w) t)"
  by (simp add: tx_insert_def)

lemma tx_seq_append:
  "tx_seq (xs @ ys) (w, t) =
   (case tx_seq xs (w, t) of (True, w', t') \<Rightarrow> tx_seq ys (w', t') | (False, w', t') \<Rightarrow> (False, w', t'))"
proof (induction xs arbitrary: w t)
  case (Cons x xs)
  then show ?case by (simp split: prod.split bool.split)
qed simp

text \<open>
  The in-memory objects, which is everything but the committed tables, the key counter and
  the outcomes of the calls to come. An operation is quiet when it leaves them, and the
  committed tables, as they were; a transaction made of quiet operations then changes the
  committed tables only, and only when all its calls succeed.
\<close>

definition same_mem :: "world \<Rightarrow> world \<Rightarrow> bool" where
  "same_mem w w' \<longleftrightarrow> users w' = users w \<and> askObj w' = askObj w \<and> bidObj w' = bidObj w \<and>
     nextRef w' = nextRef w \<and> asksMap w' = asksMap w \<and> bidsMap w' = bidsMap w \<and>
     allStocks w' = allStocks w \<and> avgLastPrice w' = avgLastPrice w \<and> now w' = now w \<and>
     isMarketOpen w' = isMarketOpen w"

definition quiet :: "txop \<Rightarrow> bool" where
  "quiet op \<longleftrightarrow> (\<forall>w t ok w' t'. op (w, t) = (ok, w', t') \<longrightarrow> same_mem w w' \<and> db w' = db w)"

lemma same_mem_refl [simp]: "same_mem w w"
  by (simp add: same_mem_def)

lemma same_mem_trans: "same_mem w1 w2 \<Longrightarrow> same_mem w2 w3 \<Longrightarrow> same_mem w1 w3"
  by (auto simp: same_mem_def)

lemma same_mem_upd [simp]:
  "same_mem w (w'\<lparr>db := d\<rparr>) = same_mem w w'" "same_mem w (w'\<lparr>outcomes := os\<rparr>) = same_mem w w'"
  "same_mem w (w'\<lparr>nextId := n\<rparr>) = same_mem w w'"
  by (auto simp: same_mem_def)

lemma db_ok_same: "db_ok w = (ok, w') \<Longrightarrow> same_mem w w' \<and> db w' = db w \<and> nextId w' = nextId w"
  by (auto simp: db_ok_def split: list.splits)

lemma quietD: "quiet op \<Longrightarrow> op (w, t) = (ok, w', t') \<Longrightarrow> same_mem w w' \<and> db w' = db w"
  unfolding quiet_def by blast

lemma quiet_save [simp]: "quiet (tx_save f)"
  by (auto simp: quiet_def tx_save_def Let_def dest: db_ok_same split: prod.splits)

lemma quiet_insert [simp]: "quiet (tx_insert f)"
  by (auto simp: quiet_def tx_insert_def Let_def dest: db_ok_same split: prod.splits if_splits)

lemma quiet_seq:
  "list_all quiet ops \<Longrightarrow> tx_seq ops (w, t) = (ok, w', t') \<Longrightarrow> same_mem w w' \<and> db w' = db w"
proof (induction ops arbitrary: w t)
  case (Cons op ops)
  obtain ok1 w1 t1 where s1: "op (w, t) = (ok1, w1, t1)" by (cases "op (w, t)")
  have e1: "same_mem w w1 \<and> db w1 = db w" using Cons.prems(1) s1 quietD [of op w t] by simp
  show ?case
  proof (cases ok1)
    case False
    then show ?thesis using Cons.prems s1 e1 by simp
  next
    case True
    then have "same_mem w1 w' \<and> db w' = db w1" using Cons.prems s1 by (intro Cons.IH) auto
    then show ?thesis using e1 same_mem_trans by auto
  qed
qed simp

lemma tx_run_frame:
  assumes "list_all quiet ops" "tx_run ops w = (ok, w')"
  shows "same_mem w w'" and "\<not> ok \<Longrightarrow> db w' = db w"
proof -
  obtain ok1 w1 t1 where s1: "tx_seq ops (w, db w) = (ok1, w1, t1)"
    by (cases "tx_seq ops (w, db w)")
  have e1: "same_mem w w1 \<and> db w1 = db w" using quiet_seq [OF assms(1) s1] .
  obtain ok2 w2 where s2: "db_ok w1 = (ok2, w2)" by (cases "db_ok w1")
  have e2: "same_mem w w2 \<and> db w2 = db w" using e1 db_ok_same [OF s2] same_mem_trans by auto
  show "same_mem w w'" and "\<not> ok \<Longrightarrow> db w' = db w"
    using assms(2) s1 s2 e1 e2 by (auto simp: tx_run_def split: if_splits bool.splits)
qed

text \<open>When no call fails, a transaction commits what its operations do.\<close>

lemma tx_run_nil:
  assumes "tx_seq ops (w, db w) = (True, w', t')" "outcomes w' = []"
  shows "tx_run ops w = (True, w'\<lparr>db := t'\<rparr>)"
  using assms by (simp add: tx_run_def)

text \<open>An operation that goes through when the database does.\<close>

definition reliable :: "txop \<Rightarrow> bool" where
  "reliable op \<longleftrightarrow> (\<forall>w t. outcomes w = [] \<longrightarrow> (\<exists>w' t'. op (w, t) = (True, w', t') \<and> outcomes w' = []))"

lemma reliable_save [simp]: "reliable (tx_save f)"
  by (simp add: reliable_def)

lemma reliable_insert [simp]: "reliable (tx_insert f)"
  by (simp add: reliable_def)

lemma reliable_seq:
  "list_all reliable ops \<Longrightarrow> outcomes w = [] \<Longrightarrow> \<exists>w' t'. tx_seq ops (w, t) = (True, w', t') \<and> outcomes w' = []"
proof (induction ops arbitrary: w t)
  case (Cons op ops)
  then obtain w1 t1 where "op (w, t) = (True, w1, t1)" "outcomes w1 = []" unfolding reliable_def by fastforce
  then show ?case using Cons.IH [of w1 t1] Cons.prems by auto
qed simp

lemma reliable_run:
  assumes "list_all reliable ops" "outcomes w = []"
  shows "\<exists>w'. tx_run ops w = (True, w') \<and> outcomes w' = []"
proof -
  obtain w1 t1 where "tx_seq ops (w, db w) = (True, w1, t1)" "outcomes w1 = []"
    using reliable_seq [OF assms] by blast
  then show ?thesis using tx_run_nil [of ops w w1 t1] by simp
qed

text \<open>What a successful transaction has done, call by call.\<close>

lemma tx_seq_Cons_True:
  "tx_seq (op # ops) (w, t) = (True, w', t') \<longleftrightarrow>
   (\<exists>w1 t1. op (w, t) = (True, w1, t1) \<and> tx_seq ops (w1, t1) = (True, w', t'))"
  by (auto split: prod.splits bool.splits)

lemma tx_seq_ConsE:
  assumes "tx_seq (op # ops) (w, t) = (True, w', t')"
  obtains w1 t1 where "op (w, t) = (True, w1, t1)" "tx_seq ops (w1, t1) = (True, w', t')"
  using assms unfolding tx_seq_Cons_True by blast

lemma tx_save_True: "tx_save f (w, t) = (True, w1, t1) \<Longrightarrow> t1 = f t"
  by (auto simp: tx_save_def Let_def split: prod.splits)

lemma tx_insert_True: "tx_insert f (w, t) = (True, w1, t1) \<Longrightarrow> t1 = f (nextId w) t"
  by (auto simp: tx_insert_def Let_def split: prod.splits if_splits)

lemma tx_saves_True: "tx_seq (map tx_save fs) (w, t) = (True, w', t') \<Longrightarrow> t' = fold (\<lambda>f. f) fs t"
proof (induction fs arbitrary: w t)
  case (Cons f fs)
  then obtain w1 t1 where "tx_save f (w, t) = (True, w1, t1)" "tx_seq (map tx_save fs) (w1, t1) = (True, w', t')"
    unfolding list.map tx_seq_Cons_True by blast
  then show ?case using Cons.IH tx_save_True by fastforce
qed simp

lemma tx_run_True:
  "tx_run ops w = (True, w') \<Longrightarrow> \<exists>w1 t1. tx_seq ops (w, db w) = (True, w1, t1) \<and> db w' = t1"
  by (auto simp: tx_run_def Let_def split: prod.splits bool.splits if_splits)

lemma tx_run_TrueE:
  assumes "tx_run ops w = (True, w')"
  obtains w1 t1 where "tx_seq ops (w, db w) = (True, w1, t1)" "db w' = t1" "same_mem w1 w'" "nextId w' = nextId w1"
proof -
  obtain ok1 w1 t1 where s: "tx_seq ops (w, db w) = (ok1, w1, t1)" by (cases "tx_seq ops (w, db w)")
  obtain ok2 w2 where c: "db_ok w1 = (ok2, w2)" by fastforce
  have "ok1" "db w' = t1" "same_mem w1 w'" "nextId w' = nextId w1"
    using assms s c db_ok_same [OF c] by (auto simp: tx_run_def split: bool.splits if_splits)
  then show ?thesis using that s by auto
qed

text \<open>Rows without their keys.\<close>

definition no_key :: "transaction \<Rightarrow> transaction" where
  "no_key tr = tr\<lparr>t_Id := 0\<rparr>"

definition adds_tx :: "transaction list \<Rightarrow> tables \<Rightarrow> tables \<Rightarrow> bool" where
  "adds_tx trs t t' \<longleftrightarrow> (\<exists>rows. Transactions t' = Transactions t @ rows \<and> map no_key rows = map no_key trs)"

lemma no_key_upd [simp]: "no_key (tr\<lparr>t_Id := i\<rparr>) = no_key tr"
  by (simp add: no_key_def)

lemma adds_tx_same: "Transactions t' = Transactions t \<Longrightarrow> adds_tx [] t t'"
  by (simp add: adds_tx_def)

lemma adds_tx_insert: "adds_tx [tr] t (insert_tx tr i t)"
  by (simp add: adds_tx_def insert_tx_def)

lemma adds_tx_trans: "adds_tx xs a b \<Longrightarrow> adds_tx ys b c \<Longrightarrow> adds_tx (xs @ ys) a c"
  unfolding adds_tx_def by fastforce

end
