(* ===== verification/Order_Objects.thy ===== *)
theory Order_Objects
  imports World
begin

text \<open>
  The operations of \<^verbatim>\<open>models/Ask.go\<close> and \<^verbatim>\<open>models/Bid.go\<close> on order objects: loading,
  creating, closing and triggering them.

  An object is shared through its reference by \<^verbatim>\<open>asksMap\<close> (\<^verbatim>\<open>bidsMap\<close>) and the queues of the
  matching engine. \<^verbatim>\<open>getAsk\<close> ignores the error of its query: an id that is not in the map and
  not in the database yields the zero value, which is then kept in the map.
\<close>

definition zero_order :: order where
  "zero_order = \<lparr>o_Id = 0, o_UserId = 0, o_StockId = 0, o_OrderType = Limit, o_Price = 0,
     o_StockQuantity = 0, o_StockQuantityFulfilled = 0, o_IsClosed = False,
     o_CreatedAt = [], o_UpdatedAt = []\<rparr>"

definition set_ask :: "ref \<Rightarrow> order \<Rightarrow> world \<Rightarrow> world" where
  "set_ask r a w = w\<lparr>askObj := (askObj w)(r := a)\<rparr>"

definition set_bid :: "ref \<Rightarrow> order \<Rightarrow> world \<Rightarrow> world" where
  "set_bid r b w = w\<lparr>bidObj := (bidObj w)(r := b)\<rparr>"

text \<open>\<^verbatim>\<open>&Ask{...}\<close>: a new object.\<close>

definition new_ask :: "order \<Rightarrow> world \<Rightarrow> ref \<times> world" where
  "new_ask a w = (nextRef w, (set_ask (nextRef w) a w)\<lparr>nextRef := Suc (nextRef w)\<rparr>)"

definition new_bid :: "order \<Rightarrow> world \<Rightarrow> ref \<times> world" where
  "new_bid b w = (nextRef w, (set_bid (nextRef w) b w)\<lparr>nextRef := Suc (nextRef w)\<rparr>)"

section \<open>Asks\<close>

definition TriggerStoploss_ask :: "ref \<Rightarrow> world \<Rightarrow> go_error option \<times> world" where
  "TriggerStoploss_ask r w =
     (let x = askObj w r in
      if o_OrderType x = StopLoss
      then let x' = x\<lparr>o_OrderType := StopLossActive, o_UpdatedAt := now w\<rparr>;
               (ok, w') = db_ok (set_ask r x' w)
           in if ok then (None, w'\<lparr>db := save_ask x' (db w')\<rparr>) else (Some DbError, w')
      else (None, w))"

definition getAsk :: "u32 \<Rightarrow> world \<Rightarrow> ref \<times> world" where
  "getAsk i w =
     (case asksMap w i of
        Some r \<Rightarrow> (r, w)
      | None \<Rightarrow>
          (let (ok, w1) = db_ok w;
               x = (if ok then (case row o_Id i (Asks (db w1)) of Some x \<Rightarrow> x | None \<Rightarrow> zero_order)
                    else zero_order);
               (r, w2) = new_ask x w1
           in (r, w2\<lparr>asksMap := (asksMap w2)(i \<mapsto> r)\<rparr>)))"

definition createAsk :: "ref \<Rightarrow> txop" where
  "createAsk r = (\<lambda>(w, t).
     let x = (askObj w r)\<lparr>o_CreatedAt := now w, o_UpdatedAt := now w\<rparr>;
         (ok, w1) = db_ok (set_ask r x w)
     in if \<not> ok then (False, w1, t)
        else let x' = x\<lparr>o_Id := nextId w1\<rparr>
             in (True, (set_ask r x' w1)\<lparr>asksMap := (asksMap w1)(nextId w1 \<mapsto> r),
                                       nextId := nextId w1 + 1\<rparr>,
                 save_ask x' t))"

definition Ask_Close :: "ref \<Rightarrow> world \<times> tables \<Rightarrow> go_error option \<times> world \<times> tables" where
  "Ask_Close r = (\<lambda>(w, t).
     let x = askObj w r in
     if o_IsClosed x then (Some (AlreadyClosedError (o_Id x)), w, t)
     else let x' = x\<lparr>o_IsClosed := True, o_UpdatedAt := now w\<rparr>;
              (ok, w1) = db_ok (set_ask r x' w)
          in if \<not> ok then (Some DbError, w1, t)
             else (None, w1\<lparr>asksMap := (asksMap w1)(o_Id x := None)\<rparr>, save_ask x' t))"

text \<open>At start-up every open row gets an object; a failing query is a panic.\<close>

fun load_asks :: "order list \<Rightarrow> world \<Rightarrow> ref list \<times> world" where
  "load_asks [] w = ([], w)"
| "load_asks (x # xs) w =
     (let (r, w1) = new_ask x w;
          (rs, w2) = load_asks xs (w1\<lparr>asksMap := (asksMap w1)(o_Id x \<mapsto> r)\<rparr>)
      in (r # rs, w2))"

definition GetAllOpenAsks :: "world \<Rightarrow> (ref list \<times> world) option" where
  "GetAllOpenAsks w =
     (let (ok, w1) = db_ok w
      in if \<not> ok then None
         else Some (load_asks (filter (\<lambda>x. \<not> o_IsClosed x) (Asks (db w1))) w1))"

definition GetMyOpenAsks :: "u32 \<Rightarrow> world \<Rightarrow> (go_error + order list) \<times> world" where
  "GetMyOpenAsks uid w =
     (let (ok, w1) = db_ok w
      in if \<not> ok then (Inl DbError, w1)
         else (Inr (filter (\<lambda>x. o_UserId x = uid \<and> \<not> o_IsClosed x) (Asks (db w1))), w1))"

definition GetMyClosedAsks ::
  "u32 \<Rightarrow> u32 \<Rightarrow> u32 \<Rightarrow> world \<Rightarrow> (go_error + bool \<times> order list) \<times> world" where
  "GetMyClosedAsks uid lastId count w =
     (let n = (if count = 0 then 10 else MinInt32 count 10);
          (ok, w1) = db_ok w;
          found = filter (\<lambda>x. (lastId \<noteq> 0 \<longrightarrow> o_Id x \<le> lastId) \<and> o_UserId x = uid \<and> o_IsClosed x)
                    (Asks (db w1));
          rows = take (unat n) (rev (sort_key o_Id found))
      in if \<not> ok then (Inl DbError, w1) else (Inr (unat n \<le> length rows, rows), w1))"

section \<open>Bids\<close>

definition TriggerStoploss_bid :: "ref \<Rightarrow> world \<Rightarrow> go_error option \<times> world" where
  "TriggerStoploss_bid r w =
     (let x = bidObj w r in
      if o_OrderType x = StopLoss
      then let x' = x\<lparr>o_OrderType := StopLossActive, o_UpdatedAt := now w\<rparr>;
               (ok, w') = db_ok (set_bid r x' w)
           in if ok then (None, w'\<lparr>db := save_bid x' (db w')\<rparr>) else (Some DbError, w')
      else (None, w))"

definition getBid :: "u32 \<Rightarrow> world \<Rightarrow> ref \<times> world" where
  "getBid i w =
     (case bidsMap w i of
        Some r \<Rightarrow> (r, w)
      | None \<Rightarrow>
          (let (ok, w1) = db_ok w;
               x = (if ok then (case row o_Id i (Bids (db w1)) of Some x \<Rightarrow> x | None \<Rightarrow> zero_order)
                    else zero_order);
               (r, w2) = new_bid x w1
           in (r, w2\<lparr>bidsMap := (bidsMap w2)(i \<mapsto> r)\<rparr>)))"

definition createBid :: "ref \<Rightarrow> txop" where
  "createBid r = (\<lambda>(w, t).
     let x = (bidObj w r)\<lparr>o_CreatedAt := now w, o_UpdatedAt := now w\<rparr>;
         (ok, w1) = db_ok (set_bid r x w)
     in if \<not> ok then (False, w1, t)
        else let x' = x\<lparr>o_Id := nextId w1\<rparr>
             in (True, (set_bid r x' w1)\<lparr>bidsMap := (bidsMap w1)(nextId w1 \<mapsto> r),
                                       nextId := nextId w1 + 1\<rparr>,
                 save_bid x' t))"

definition Bid_Close :: "ref \<Rightarrow> world \<times> tables \<Rightarrow> go_error option \<times> world \<times> tables" where
  "Bid_Close r = (\<lambda>(w, t).
     let x = bidObj w r in
     if o_IsClosed x then (Some (AlreadyClosedError (o_Id x)), w, t)
     else let x' = x\<lparr>o_IsClosed := True, o_UpdatedAt := now w\<rparr>;
              (ok, w1) = db_ok (set_bid r x' w)
          in if \<not> ok then (Some DbError, w1, t)
             else (None, w1\<lparr>bidsMap := (bidsMap w1)(o_Id x := None)\<rparr>, save_bid x' t))"

text \<open>At start-up every open row gets an object; a failing query is a panic.\<close>

fun load_bids :: "order list \<Rightarrow> world \<Rightarrow> ref list \<times> world" where
  "load_bids [] w = ([], w)"
| "load_bids (x # xs) w =
     (let (r, w1) = new_bid x w;
          (rs, w2) = load_bids xs (w1\<lparr>bidsMap := (bidsMap w1)(o_Id x \<mapsto> r)\<rparr>)
      in (r # rs, w2))"

definition GetAllOpenBids :: "world \<Rightarrow> (ref list \<times> world) option" where
  "GetAllOpenBids w =
     (let (ok, w1) = db_ok w
      in if \<not> ok then None
         else Some (load_bids (filter (\<lambda>x. \<not> o_IsClosed x) (Bids (db w1))) w1))"

definition GetMyOpenBids :: "u32 \<Rightarrow> world \<Rightarrow> (go_error + order list) \<times> world" where
  "GetMyOpenBids uid w =
     (let (ok, w1) = db_ok w
      in if \<not> ok then (Inl DbError, w1)
         else (Inr (filter (\<lambda>x. o_UserId x = uid \<and> \<not> o_IsClosed x) (Bids (db w1))), w1))"

definition GetMyClosedBids ::
  "u32 \<Rightarrow> u32 \<Rightarrow> u32 \<Rightarrow> world \<Rightarrow> (go_error + bool \<times> order list) \<times> world" where
  "GetMyClosedBids uid lastId count w =
     (let n = (if count = 0 then 10 else MinInt32 count 10);
          (ok, w1) = db_ok w;
          found = filter (\<lambda>x. (lastId \<noteq> 0 \<longrightarrow> o_Id x \<le> lastId) \<and> o_UserId x = uid \<and> o_IsClosed x)
                    (Bids (db w1));
          rows = take (unat n) (rev (sort_key o_Id found))
      in if \<not> ok then (Inl DbError, w1) else (Inr (unat n \<le> length rows, rows), w1))"

section \<open>What the operations leave alone\<close>

lemma set_ask_simps [ledger_simps]:
  "askObj (set_ask r a w) = (askObj w)(r := a)" "bidObj (set_ask r a w) = bidObj w"
  "users (set_ask r a w) = users w" "db (set_ask r a w) = db w" "asksMap (set_ask r a w) = asksMap w"
  "bidsMap (set_ask r a w) = bidsMap w" "outcomes (set_ask r a w) = outcomes w"
  "now (set_ask r a w) = now w" "nextId (set_ask r a w) = nextId w"
  "allStocks (set_ask r a w) = allStocks w" "avgLastPrice (set_ask r a w) = avgLastPrice w"
  "nextRef (set_ask r a w) = nextRef w"
  by (simp_all add: set_ask_def)

lemma set_bid_simps [ledger_simps]:
  "bidObj (set_bid r b w) = (bidObj w)(r := b)" "askObj (set_bid r b w) = askObj w"
  "users (set_bid r b w) = users w" "db (set_bid r b w) = db w" "asksMap (set_bid r b w) = asksMap w"
  "bidsMap (set_bid r b w) = bidsMap w" "outcomes (set_bid r b w) = outcomes w"
  "now (set_bid r b w) = now w" "nextId (set_bid r b w) = nextId w"
  "allStocks (set_bid r b w) = allStocks w" "avgLastPrice (set_bid r b w) = avgLastPrice w"
  "nextRef (set_bid r b w) = nextRef w"
  by (simp_all add: set_bid_def)

text \<open>Triggering a stop-loss makes it a market order, whether or not the row could be saved.\<close>

lemma TriggerStoploss_ask_objs:
  "TriggerStoploss_ask r w = (e, w') \<Longrightarrow>
   askObj w' = (askObj w)(r := if o_OrderType (askObj w r) = StopLoss
     then (askObj w r)\<lparr>o_OrderType := StopLossActive, o_UpdatedAt := now w\<rparr> else askObj w r) \<and>
   bidObj w' = bidObj w \<and> users w' = users w \<and> allStocks w' = allStocks w \<and> now w' = now w \<and> nextRef w' = nextRef w"
proof -
  assume run: "TriggerStoploss_ask r w = (e, w')"
  show ?thesis
  proof (cases "o_OrderType (askObj w r) = StopLoss")
    case False
    then show ?thesis using run by (auto simp: TriggerStoploss_ask_def Let_def)
  next
    case True
    let ?x = "(askObj w r)\<lparr>o_OrderType := StopLossActive, o_UpdatedAt := now w\<rparr>"
    obtain ok w1 where c: "db_ok (set_ask r ?x w) = (ok, w1)" by fastforce
    then have "w' = w1 \<or> w' = w1\<lparr>db := save_ask ?x (db w1)\<rparr>"
      using run True by (simp add: TriggerStoploss_ask_def Let_def split: if_splits)
    then show ?thesis using db_ok_same [OF c] True
      by (auto simp: same_mem_def ledger_simps)
  qed
qed

lemma TriggerStoploss_bid_objs:
  "TriggerStoploss_bid r w = (e, w') \<Longrightarrow>
   bidObj w' = (bidObj w)(r := if o_OrderType (bidObj w r) = StopLoss
     then (bidObj w r)\<lparr>o_OrderType := StopLossActive, o_UpdatedAt := now w\<rparr> else bidObj w r) \<and>
   askObj w' = askObj w \<and> users w' = users w \<and> allStocks w' = allStocks w \<and> now w' = now w \<and> nextRef w' = nextRef w"
proof -
  assume run: "TriggerStoploss_bid r w = (e, w')"
  show ?thesis
  proof (cases "o_OrderType (bidObj w r) = StopLoss")
    case False
    then show ?thesis using run by (auto simp: TriggerStoploss_bid_def Let_def)
  next
    case True
    let ?x = "(bidObj w r)\<lparr>o_OrderType := StopLossActive, o_UpdatedAt := now w\<rparr>"
    obtain ok w1 where c: "db_ok (set_bid r ?x w) = (ok, w1)" by fastforce
    then have "w' = w1 \<or> w' = w1\<lparr>db := save_bid ?x (db w1)\<rparr>"
      using run True by (simp add: TriggerStoploss_bid_def Let_def split: if_splits)
    then show ?thesis using db_ok_same [OF c] True
      by (auto simp: same_mem_def ledger_simps)
  qed
qed

text \<open>The listings of closed orders.\<close>

lemma GetMyClosedAsks_page:
  assumes "GetMyClosedAsks uid lastId count w = (Inr (b, rows), w')"
  shows "page_of o_Id {x \<in> set (Asks (db w)). (lastId \<noteq> 0 \<longrightarrow> o_Id x \<le> lastId) \<and> o_UserId x = uid \<and> o_IsClosed x} b rows"
proof -
  obtain ok w1 where c: "db_ok w = (ok, w1)" by fastforce
  let ?n = "unat (if count = 0 then 10 else MinInt32 count 10 :: u32)"
  let ?found = "filter (\<lambda>x. (lastId \<noteq> 0 \<longrightarrow> o_Id x \<le> lastId) \<and> o_UserId x = uid \<and> o_IsClosed x) (Asks (db w1))"
  have "rows = take ?n (rev (sort_key o_Id ?found))" "b = (?n \<le> length rows)"
    using assms c by (auto simp: GetMyClosedAsks_def Let_def split: if_splits)
  from page_of_query [OF refl this(1)] this(2) db_ok_same [OF c] show ?thesis by simp
qed

lemma GetMyClosedBids_page:
  assumes "GetMyClosedBids uid lastId count w = (Inr (b, rows), w')"
  shows "page_of o_Id {x \<in> set (Bids (db w)). (lastId \<noteq> 0 \<longrightarrow> o_Id x \<le> lastId) \<and> o_UserId x = uid \<and> o_IsClosed x} b rows"
proof -
  obtain ok w1 where c: "db_ok w = (ok, w1)" by fastforce
  let ?n = "unat (if count = 0 then 10 else MinInt32 count 10 :: u32)"
  let ?found = "filter (\<lambda>x. (lastId \<noteq> 0 \<longrightarrow> o_Id x \<le> lastId) \<and> o_UserId x = uid \<and> o_IsClosed x) (Bids (db w1))"
  have "rows = take ?n (rev (sort_key o_Id ?found))" "b = (?n \<le> length rows)"
    using assms c by (auto simp: GetMyClosedBids_def Let_def split: if_splits)
  from page_of_query [OF refl this(1)] this(2) db_ok_same [OF c] show ?thesis by simp
qed

end
