(* ===== verification/Order_Book.thy ===== *)
theory Order_Book
  imports Pqueue Market_Depth Order_Objects
begin

text \<open>
  The order book of one stock: \<^verbatim>\<open>matchingengine/OrderBook.go\<close> and \<^verbatim>\<open>helpers.go\<close>.

  A book has four queues (asks, bids and the stop-losses of each side), the market depth, and
  the orders waiting on its two channels. Its operations work on the order objects of the
  \<^verbatim>\<open>models\<close> package, so they take and return the state \<open>world\<close> beside the book. As in the
  Go code, the function that fills an order is a parameter, \<open>fill\<close>.

  A panic is \<open>None\<close>, and so is a loop that does not end: the loops are
  \<^theory_text>\<open>partial_function\<close>s, and that they return is a theorem of \<open>Book_Proofs\<close>.
\<close>

section \<open>State\<close>

datatype AskOrderFillStatus = AskAlreadyClosed | AskDone | AskUndone
datatype BidOrderFillStatus = BidAlreadyClosed | BidDone | BidUndone

type_synonym FillOrder =
  "ref \<Rightarrow> ref \<Rightarrow> u64 \<Rightarrow> u64 \<Rightarrow> world \<Rightarrow>
   ((AskOrderFillStatus \<times> BidOrderFillStatus \<times> transaction option) \<times> world) option"

record orderBook =
  ob_stockId :: u32
  ob_askChan :: "ref list"
  ob_bidChan :: "ref list"
  asks :: pqueue
  bids :: pqueue
  askStoploss :: pqueue
  bidStoploss :: pqueue
  depth_of :: depth

definition NewOrderBook :: "u32 \<Rightarrow> depth \<Rightarrow> orderBook" where
  "NewOrderBook stockId mds =
     \<lparr>ob_stockId = stockId, ob_askChan = [], ob_bidChan = [],
      asks = NewAskPQueue MINPQ, bids = NewBidPQueue MAXPQ,
      askStoploss = NewAskPQueue MAXPQ, bidStoploss = NewBidPQueue MINPQ,
      depth_of = mds\<rparr>"

section \<open>Depth updates\<close>

definition addAskToDepth :: "order \<Rightarrow> orderBook \<Rightarrow> orderBook" where
  "addAskToDepth ask ob =
     ob\<lparr>depth_of := depth_AddOrder (isMarket (o_OrderType ask)) True (o_Price ask) (unfulfilled ask) (depth_of ob)\<rparr>"

definition addBidToDepth :: "order \<Rightarrow> orderBook \<Rightarrow> orderBook" where
  "addBidToDepth bid ob =
     ob\<lparr>depth_of := depth_AddOrder (isMarket (o_OrderType bid)) False (o_Price bid) (unfulfilled bid) (depth_of ob)\<rparr>"

definition closeAskDepth :: "order \<Rightarrow> u64 \<Rightarrow> orderBook \<Rightarrow> orderBook" where
  "closeAskDepth ask q ob =
     ob\<lparr>depth_of := depth_CloseOrder (isMarket (o_OrderType ask)) True (o_Price ask) q (depth_of ob)\<rparr>"

definition closeBidDepth :: "order \<Rightarrow> u64 \<Rightarrow> orderBook \<Rightarrow> orderBook" where
  "closeBidDepth bid q ob =
     ob\<lparr>depth_of := depth_CloseOrder (isMarket (o_OrderType bid)) False (o_Price bid) q (depth_of ob)\<rparr>"

fun LoadOldTransactions :: "transaction list \<Rightarrow> orderBook \<Rightarrow> orderBook" where
  "LoadOldTransactions [] ob = ob"
| "LoadOldTransactions (tx # txs) ob =
     LoadOldTransactions txs
       (ob\<lparr>depth_of := depth_AddTrade (t_Price tx) (- t_StockQuantity tx) (t_CreatedAt tx) (depth_of ob)\<rparr>)"

definition LoadOldAsk :: "ref \<Rightarrow> world \<Rightarrow> orderBook \<Rightarrow> orderBook option" where
  "LoadOldAsk r w ob =
     (if o_OrderType (askObj w r) = StopLoss
      then do { q \<leftarrow> pq_Push (askObj w) r (askStoploss ob); Some (ob\<lparr>askStoploss := q\<rparr>) }
      else do { q \<leftarrow> pq_Push (askObj w) r (asks ob);
                Some (addAskToDepth (askObj w r) (ob\<lparr>asks := q\<rparr>)) })"

definition LoadOldBid :: "ref \<Rightarrow> world \<Rightarrow> orderBook \<Rightarrow> orderBook option" where
  "LoadOldBid r w ob =
     (if o_OrderType (bidObj w r) = StopLoss
      then do { q \<leftarrow> pq_Push (bidObj w) r (bidStoploss ob); Some (ob\<lparr>bidStoploss := q\<rparr>) }
      else do { q \<leftarrow> pq_Push (bidObj w) r (bids ob);
                Some (addBidToDepth (bidObj w r) (ob\<lparr>bids := q\<rparr>)) })"

section \<open>New and cancelled orders\<close>

text \<open>The price of \<^verbatim>\<open>GetStockCopy\<close>, whose error both callers ignore: an unknown stock has the
  price 0 of the zero value.\<close>

definition stock_price :: "world \<Rightarrow> u32 \<Rightarrow> u64" where
  "stock_price w sid = (case allStocks w sid of Some s \<Rightarrow> s_CurrentPrice s | None \<Rightarrow> 0)"

text \<open>Sending on a channel: the order waits there until the book's goroutine takes it.\<close>

definition AddAskOrder :: "ref \<Rightarrow> orderBook \<Rightarrow> world \<Rightarrow> (orderBook \<times> world) option" where
  "AddAskOrder r ob w =
     (let ask = askObj w r in
      if o_OrderType ask = StopLoss
      then if stock_price w (o_StockId ask) \<le> o_Price ask
           then let (e, w1) = TriggerStoploss_ask r w
                in Some (ob\<lparr>ob_askChan := ob_askChan ob @ [r]\<rparr>, w1)
           else do { q \<leftarrow> pq_Push (askObj w) r (askStoploss ob);
                     Some (ob\<lparr>askStoploss := q\<rparr>, w) }
      else Some (ob\<lparr>ob_askChan := ob_askChan ob @ [r]\<rparr>, w))"

definition AddBidOrder :: "ref \<Rightarrow> orderBook \<Rightarrow> world \<Rightarrow> (orderBook \<times> world) option" where
  "AddBidOrder r ob w =
     (let bid = bidObj w r in
      if o_OrderType bid = StopLoss
      then if stock_price w (o_StockId bid) \<ge> o_Price bid
           then let (e, w1) = TriggerStoploss_bid r w
                in Some (ob\<lparr>ob_bidChan := ob_bidChan ob @ [r]\<rparr>, w1)
           else do { q \<leftarrow> pq_Push (bidObj w) r (bidStoploss ob);
                     Some (ob\<lparr>bidStoploss := q\<rparr>, w) }
      else Some (ob\<lparr>ob_bidChan := ob_bidChan ob @ [r]\<rparr>, w))"

definition CancelAskOrder :: "ref \<Rightarrow> world \<Rightarrow> orderBook \<Rightarrow> orderBook" where
  "CancelAskOrder r w ob =
     (if o_OrderType (askObj w r) = StopLoss then ob
      else closeAskDepth (askObj w r) (unfulfilled (askObj w r)) ob)"

definition CancelBidOrder :: "ref \<Rightarrow> world \<Rightarrow> orderBook \<Rightarrow> orderBook" where
  "CancelBidOrder r w ob =
     (if o_OrderType (bidObj w r) = StopLoss then ob
      else closeBidDepth (bidObj w r) (unfulfilled (bidObj w r)) ob)"

section \<open>Matching\<close>

text \<open>
  Both functions return the matching order, if there is one, and the orders of the same user
  that were taken off the queue on the way to it. The caller pushes these back: the Go code
  returns the closure \<^verbatim>\<open>addBackOrders\<close>, here \<open>addBackBids\<close> and \<open>addBackAsks\<close> on that list.
\<close>

definition addBackBids :: "ref list \<Rightarrow> world \<Rightarrow> orderBook \<Rightarrow> orderBook option" where
  "addBackBids rs w ob =
     do { q \<leftarrow> push_all (pq_Push (bidObj w)) rs (bids ob); Some (ob\<lparr>bids := q\<rparr>) }"

definition addBackAsks :: "ref list \<Rightarrow> world \<Rightarrow> orderBook \<Rightarrow> orderBook option" where
  "addBackAsks rs w ob =
     do { q \<leftarrow> push_all (pq_Push (askObj w)) rs (asks ob); Some (ob\<lparr>asks := q\<rparr>) }"

definition getTopMatchingBid ::
  "ref \<Rightarrow> world \<Rightarrow> orderBook \<Rightarrow> (ref option \<times> ref list \<times> orderBook) option" where
  "getTopMatchingBid ar w ob =
     do { (top, same, q) \<leftarrow> pop_while pq_Head (pq_Pop (bidObj w))
            (\<lambda>b. o_UserId (bidObj w b) = o_UserId (askObj w ar)) (bids ob) [];
          (if (case top of None \<Rightarrow> True | Some b \<Rightarrow> \<not> isOrderMatching (askObj w ar) (bidObj w b))
           then do { ob' \<leftarrow> addBackBids same w (ob\<lparr>bids := q\<rparr>); Some (None, [], ob') }
           else Some (top, same, ob\<lparr>bids := q\<rparr>)) }"

definition getTopMatchingAsk ::
  "ref \<Rightarrow> world \<Rightarrow> orderBook \<Rightarrow> (ref option \<times> ref list \<times> orderBook) option" where
  "getTopMatchingAsk br w ob =
     do { (top, same, q) \<leftarrow> pop_while pq_Head (pq_Pop (askObj w))
            (\<lambda>a. o_UserId (askObj w a) = o_UserId (bidObj w br)) (asks ob) [];
          (if (case top of None \<Rightarrow> True | Some a \<Rightarrow> \<not> isOrderMatching (askObj w a) (bidObj w br))
           then do { ob' \<leftarrow> addBackAsks same w (ob\<lparr>asks := q\<rparr>); Some (None, [], ob') }
           else Some (top, same, ob\<lparr>asks := q\<rparr>)) }"

definition getTradePriceAndQty :: "order \<Rightarrow> order \<Rightarrow> world \<Rightarrow> u64 \<times> u64" where
  "getTradePriceAndQty ask bid w =
     (let stockTradeQty = MinInt64 (unfulfilled ask) (unfulfilled bid);
          stockTradePrice =
            (if isMarket (o_OrderType ask) \<and> isMarket (o_OrderType bid) then stock_price w (o_StockId ask)
             else if isMarket (o_OrderType ask) then o_Price bid
             else if isMarket (o_OrderType bid) then o_Price ask
             else if str_less (o_CreatedAt ask) (o_CreatedAt bid) then o_Price ask
             else o_Price bid)
      in (stockTradePrice, stockTradeQty))"

section \<open>Stop-losses\<close>

partial_function (option) triggerAsks :: "u64 \<Rightarrow> orderBook \<Rightarrow> world \<Rightarrow> (orderBook \<times> world) option" where
  "triggerAsks price ob w =
     do { top \<leftarrow> pq_Head (askStoploss ob);
          (case top of
             None \<Rightarrow> Some (ob, w)
           | Some r \<Rightarrow>
               if price \<le> o_Price (askObj w r)
               then do { x \<leftarrow> pq_Pop (askObj w) (askStoploss ob);
                         r' \<leftarrow> fst x;
                         let w1 = snd (TriggerStoploss_ask r' w);
                         q \<leftarrow> pq_Push (askObj w1) r' (asks ob);
                         triggerAsks price
                           (ob\<lparr>askStoploss := snd x, asks := q,
                               depth_of := depth_AddOrder True True (o_Price (askObj w1 r'))
                                 (o_StockQuantity (askObj w1 r')) (depth_of ob)\<rparr>) w1 }
               else Some (ob, w)) }"

partial_function (option) triggerBids :: "u64 \<Rightarrow> orderBook \<Rightarrow> world \<Rightarrow> (orderBook \<times> world) option" where
  "triggerBids price ob w =
     do { top \<leftarrow> pq_Head (bidStoploss ob);
          (case top of
             None \<Rightarrow> Some (ob, w)
           | Some r \<Rightarrow>
               if price \<ge> o_Price (bidObj w r)
               then do { x \<leftarrow> pq_Pop (bidObj w) (bidStoploss ob);
                         r' \<leftarrow> fst x;
                         let w1 = snd (TriggerStoploss_bid r' w);
                         q \<leftarrow> pq_Push (bidObj w1) r' (bids ob);
                         triggerBids price
                           (ob\<lparr>bidStoploss := snd x, bids := q,
                               depth_of := depth_AddOrder True False (o_Price (bidObj w1 r'))
                                 (o_StockQuantity (bidObj w1 r')) (depth_of ob)\<rparr>) w1 }
               else Some (ob, w)) }"

definition triggerStopLosses :: "transaction \<Rightarrow> orderBook \<Rightarrow> world \<Rightarrow> (orderBook \<times> world) option" where
  "triggerStopLosses tr ob w =
     do { (ob1, w1) \<leftarrow> triggerAsks (t_Price tr) ob w; triggerBids (t_Price tr) ob1 w1 }"

section \<open>Trades\<close>

definition makeTrade ::
  "FillOrder \<Rightarrow> ref \<Rightarrow> ref \<Rightarrow> bool \<Rightarrow> bool \<Rightarrow> orderBook \<Rightarrow> world \<Rightarrow>
   ((bool \<times> bool) \<times> orderBook \<times> world) option" where
  "makeTrade fill ar br incomingAsk incomingBid ob w =
     do { let (stockTradePrice, stockTradeQty) = getTradePriceAndQty (askObj w ar) (bidObj w br) w;
          ((askStatus, bidStatus, trans), w1) \<leftarrow> fill ar br stockTradePrice stockTradeQty w;
          let ask = askObj w1 ar;
          let bid = bidObj w1 br;
          (ob2, w2) \<leftarrow>
            (case trans of
               Some tr \<Rightarrow>
                 (let qty = - t_StockQuantity tr;
                      ob1 = ob\<lparr>depth_of := depth_AddTrade (t_Price tr) qty (t_CreatedAt tr) (depth_of ob)\<rparr>;
                      ob1 = (if \<not> incomingBid then closeBidDepth bid qty ob1 else ob1);
                      ob1 = (if \<not> incomingAsk then closeAskDepth ask qty ob1 else ob1)
                  in triggerStopLosses tr ob1 w1)
             | None \<Rightarrow>
                 (let ob1 = (if \<not> incomingBid \<and> bidStatus \<noteq> BidAlreadyClosed
                             then closeBidDepth bid (unfulfilled bid) ob else ob);
                      ob1 = (if \<not> incomingAsk \<and> askStatus \<noteq> AskAlreadyClosed
                             then closeAskDepth ask (unfulfilled ask) ob1 else ob1)
                  in Some (ob1, w1)));
          Some ((askStatus \<noteq> AskUndone, bidStatus \<noteq> BidUndone), ob2, w2) }"

definition popBids :: "world \<Rightarrow> orderBook \<Rightarrow> (ref option \<times> orderBook) option" where
  "popBids w ob = do { (x, q) \<leftarrow> pq_Pop (bidObj w) (bids ob); Some (x, ob\<lparr>bids := q\<rparr>) }"

definition popAsks :: "world \<Rightarrow> orderBook \<Rightarrow> (ref option \<times> orderBook) option" where
  "popAsks w ob = do { (x, q) \<leftarrow> pq_Pop (askObj w) (asks ob); Some (x, ob\<lparr>asks := q\<rparr>) }"

partial_function (option) processAsk_loop ::
  "FillOrder \<Rightarrow> ref \<Rightarrow> bool \<Rightarrow> orderBook \<Rightarrow> world \<Rightarrow> (orderBook \<times> world) option" where
  "processAsk_loop fill ar askDone ob w =
     do { g \<leftarrow> getTopMatchingBid ar w ob;
          (case fst g of
             None \<Rightarrow>
               if \<not> askDone
               then do { q \<leftarrow> pq_Push (askObj w) ar (asks (snd (snd g)));
                         Some (addAskToDepth (askObj w ar) ((snd (snd g))\<lparr>asks := q\<rparr>), w) }
               else Some (snd (snd g), w)
           | Some br \<Rightarrow>
               do { m \<leftarrow> makeTrade fill ar br True False (snd (snd g)) w;
                    let (askDone', bidDone) = fst m;
                    let w2 = snd (snd m);
                    ob3 \<leftarrow> (if bidDone then map_option snd (popBids w2 (fst (snd m))) else Some (fst (snd m)));
                    ob4 \<leftarrow> addBackBids (fst (snd g)) w2 ob3;
                    (if \<not> askDone' \<and> \<not> bidDone then Some (ob4, w2)
                     else if askDone' then Some (ob4, w2)
                     else processAsk_loop fill ar askDone' ob4 w2) }) }"

partial_function (option) processBid_loop ::
  "FillOrder \<Rightarrow> ref \<Rightarrow> bool \<Rightarrow> orderBook \<Rightarrow> world \<Rightarrow> (orderBook \<times> world) option" where
  "processBid_loop fill br bidDone ob w =
     do { g \<leftarrow> getTopMatchingAsk br w ob;
          (case fst g of
             None \<Rightarrow>
               if \<not> bidDone
               then do { q \<leftarrow> pq_Push (bidObj w) br (bids (snd (snd g)));
                         Some (addBidToDepth (bidObj w br) ((snd (snd g))\<lparr>bids := q\<rparr>), w) }
               else Some (snd (snd g), w)
           | Some ar \<Rightarrow>
               do { m \<leftarrow> makeTrade fill ar br False True (snd (snd g)) w;
                    let (askDone, bidDone') = fst m;
                    let w2 = snd (snd m);
                    ob3 \<leftarrow> (if askDone then map_option snd (popAsks w2 (fst (snd m))) else Some (fst (snd m)));
                    ob4 \<leftarrow> addBackAsks (fst (snd g)) w2 ob3;
                    (if \<not> askDone \<and> \<not> bidDone' then Some (ob4, w2)
                     else if bidDone' then Some (ob4, w2)
                     else processBid_loop fill br bidDone' ob4 w2) }) }"

definition processAsk :: "FillOrder \<Rightarrow> ref \<Rightarrow> orderBook \<Rightarrow> world \<Rightarrow> (orderBook \<times> world) option" where
  "processAsk fill ar ob w = processAsk_loop fill ar False ob w"

definition processBid :: "FillOrder \<Rightarrow> ref \<Rightarrow> orderBook \<Rightarrow> world \<Rightarrow> (orderBook \<times> world) option" where
  "processBid fill br ob w = processBid_loop fill br False ob w"

section \<open>Start-up and the receiving loop\<close>

text \<open>The loop of \<^verbatim>\<open>clearExistingOrders\<close> with its variables \<^verbatim>\<open>bidTop\<close>, \<^verbatim>\<open>askTop\<close> and the orders
  of \<^verbatim>\<open>addBackOrders\<close>. It ends when one of the two is nil; the bid is then pushed back.\<close>

partial_function (option) clear_loop ::
  "FillOrder \<Rightarrow> ref option \<Rightarrow> ref option \<Rightarrow> ref list \<Rightarrow> orderBook \<Rightarrow> world \<Rightarrow> (orderBook \<times> world) option" where
  "clear_loop fill bidTop askTop same ob w =
     (case bidTop of
        None \<Rightarrow> Some (ob, w)
      | Some br \<Rightarrow>
          (case askTop of
             None \<Rightarrow> do { q \<leftarrow> pq_Push (bidObj w) br (bids ob); Some (ob\<lparr>bids := q\<rparr>, w) }
           | Some ar \<Rightarrow>
               do { m \<leftarrow> makeTrade fill ar br False False ob w;
                    let (askDone, bidDone) = fst m;
                    let w2 = snd (snd m);
                    ob3 \<leftarrow> addBackAsks same w2 (fst (snd m));
                    (if \<not> askDone \<and> \<not> bidDone then Some (ob3, w2)
                     else do { ob4 \<leftarrow> (if askDone then map_option snd (popAsks w2 ob3) else Some ob3);
                               y \<leftarrow> (if bidDone then popBids w2 ob4 else Some (bidTop, ob4));
                               (case fst y of
                                  None \<Rightarrow> clear_loop fill None askTop same (snd y) w2
                                | Some br' \<Rightarrow>
                                    do { g \<leftarrow> getTopMatchingAsk br' w2 (snd y);
                                         clear_loop fill (Some br') (fst g) (fst (snd g)) (snd (snd g)) w2 }) }) }))"

definition clearExistingOrders :: "FillOrder \<Rightarrow> orderBook \<Rightarrow> world \<Rightarrow> (orderBook \<times> world) option" where
  "clearExistingOrders fill ob w =
     do { top \<leftarrow> pq_Head (bids ob);
          (case top of
             None \<Rightarrow> Some (ob, w)
           | Some _ \<Rightarrow>
               do { y \<leftarrow> popBids w ob;
                    br \<leftarrow> fst y;
                    g \<leftarrow> getTopMatchingAsk br w (snd y);
                    clear_loop fill (Some br) (fst g) (fst (snd g)) (snd (snd g)) w }) }"

definition StartStockMatching :: "FillOrder \<Rightarrow> orderBook \<Rightarrow> world \<Rightarrow> (orderBook \<times> world) option" where
  "StartStockMatching fill ob w = clearExistingOrders fill ob w"

text \<open>
  One round of the goroutine: it takes an order that waits on one of the channels. Which
  sender goes first is up to the scheduler; the argument picks the channel and the sender.
\<close>

definition waitForOrder ::
  "FillOrder \<Rightarrow> bool \<times> nat \<Rightarrow> orderBook \<Rightarrow> world \<Rightarrow> (orderBook \<times> world) option" where
  "waitForOrder fill pick ob w =
     (case pick of
        (True, i) \<Rightarrow>
          if i < length (ob_askChan ob)
          then processAsk fill (ob_askChan ob ! i)
                 (ob\<lparr>ob_askChan := take i (ob_askChan ob) @ drop (Suc i) (ob_askChan ob)\<rparr>) w
          else Some (ob, w)
      | (False, i) \<Rightarrow>
          if i < length (ob_bidChan ob)
          then processBid fill (ob_bidChan ob ! i)
                 (ob\<lparr>ob_bidChan := take i (ob_bidChan ob) @ drop (Suc i) (ob_bidChan ob)\<rparr>) w
          else Some (ob, w))"

end
