(* ===== verification/Ledger.thy ===== *)
theory Ledger
  imports World
begin

text \<open>
  The ledger of transactions: \<^verbatim>\<open>models/Transaction.go\<close>, \<^verbatim>\<open>OrderDepositTransaction.go\<close> and the
  queries of \<^verbatim>\<open>User.go\<close> that sum over it.

  What a user owns is not stored: it is the sum of the stock quantities of the user's
  transactions. A sum that SQL computes is a sum of words; a sum over no rows, which is NULL
  in SQL and leaves the Go variable at 0, is 0.
\<close>

section \<open>Transaction types\<close>

fun TransactionType_String :: "TransactionType \<Rightarrow> string" where
  "TransactionType_String FromExchangeTransaction = ''FromExchangeTransaction''"
| "TransactionType_String OrderFillTransaction = ''OrderFillTransaction''"
| "TransactionType_String MortgageTransaction = ''MortgageTransaction''"
| "TransactionType_String DividendTransaction = ''DividendTransaction''"
| "TransactionType_String OrderFeeTransaction = ''OrderFeeTransaction''"
| "TransactionType_String TaxTransaction = ''TaxTransaction''"
| "TransactionType_String PlaceOrderTransaction = ''PlaceOrderTransaction''"
| "TransactionType_String CancelOrderTransaction = ''CancelOrderTransaction''"
| "TransactionType_String ReserveUpdateTransaction = ''ReserveUpdateTransaction''"
| "TransactionType_String ShortSellTransaction = ''ShortSellTransaction''"
| "TransactionType_String IpoAllotmentTransaction = ''IpoAllotmentTransaction''"

definition TransactionType_Scan :: "string \<Rightarrow> TransactionType option" where
  "TransactionType_Scan v =
     (if v = ''FromExchangeTransaction'' then Some FromExchangeTransaction
      else if v = ''OrderFillTransaction'' then Some OrderFillTransaction
      else if v = ''MortgageTransaction'' then Some MortgageTransaction
      else if v = ''DividendTransaction'' then Some DividendTransaction
      else if v = ''OrderFeeTransaction'' then Some OrderFeeTransaction
      else if v = ''TaxTransaction'' then Some TaxTransaction
      else if v = ''PlaceOrderTransaction'' then Some PlaceOrderTransaction
      else if v = ''CancelOrderTransaction'' then Some CancelOrderTransaction
      else if v = ''ReserveUpdateTransaction'' then Some ReserveUpdateTransaction
      else if v = ''ShortSellTransaction'' then Some ShortSellTransaction
      else if v = ''IpoAllotmentTransaction'' then Some IpoAllotmentTransaction
      else None)"

lemma TransactionType_Scan_String [simp]: "TransactionType_Scan (TransactionType_String tt) = Some tt"
  by (cases tt) (simp_all add: TransactionType_Scan_def)

lemma TransactionType_Scan_Some: "TransactionType_Scan v = Some tt \<Longrightarrow> v = TransactionType_String tt"
  by (auto simp: TransactionType_Scan_def split: if_splits)

section \<open>Transactions\<close>

text \<open>\<^verbatim>\<open>GetTransactionRef\<close>; the id is given when the row is inserted.\<close>

definition GetTransactionRef ::
  "u32 \<Rightarrow> u32 \<Rightarrow> TransactionType \<Rightarrow> i64 \<Rightarrow> i64 \<Rightarrow> u64 \<Rightarrow> i64 \<Rightarrow> i64 \<Rightarrow> string \<Rightarrow> transaction" where
  "GetTransactionRef userID stockID ttype reservedStockQuantity stockQuantity price reservedCashTotal tot t =
     \<lparr>t_Id = 0, t_UserId = userID, t_StockId = stockID, t_Type = ttype,
      t_ReservedStockQuantity = reservedStockQuantity, t_StockQuantity = stockQuantity,
      t_Price = price, t_ReservedCashTotal = reservedCashTotal, t_Total = tot, t_CreatedAt = t\<rparr>"

definition GetTransactions ::
  "u32 \<Rightarrow> u32 \<Rightarrow> u32 \<Rightarrow> world \<Rightarrow> (go_error + bool \<times> transaction list) \<times> world" where
  "GetTransactions userId lastId count w =
     (let n = (if count = 0 then 10 else MinInt32 count 10);
          (ok, w1) = db_ok w;
          found = filter (\<lambda>x. (lastId \<noteq> 0 \<longrightarrow> t_Id x \<le> lastId) \<and> t_UserId x = userId)
                    (Transactions (db w1));
          rows = take (unat n) (rev (sort_key t_Id found))
      in if \<not> ok then (Inl DbError, w1) else (Inr (unat n \<le> length rows, rows), w1))"

definition GetAskTransactionsForStock ::
  "u32 \<Rightarrow> u32 \<Rightarrow> world \<Rightarrow> (go_error + transaction list) \<times> world" where
  "GetAskTransactionsForStock stockID count w =
     (let (ok, w1) = db_ok w;
          found = filter (\<lambda>x. t_StockId x = stockID \<and> s_less (t_StockQuantity x) 0 \<and>
                    t_Type x = OrderFillTransaction) (Transactions (db w1))
      in if \<not> ok then (Inl DbError, w1) else (Inr (take (unat count) (rev (sort_key t_Id found))), w1))"

section \<open>Order deposits\<close>

definition makeOrderDepositTransactionRef :: "u32 \<Rightarrow> u32 \<Rightarrow> bool \<Rightarrow> string \<Rightarrow> order_deposit" where
  "makeOrderDepositTransactionRef transactionID orderID isAsk t =
     \<lparr>od_TransactionId = transactionID, od_OrderId = orderID, od_IsAsk = isAsk, od_CreatedAt = t\<rparr>"

definition deposit_rows :: "u32 \<Rightarrow> bool \<Rightarrow> tables \<Rightarrow> transaction list" where
  "deposit_rows orderID isAsk t =
     [tr. od \<leftarrow> OrderDeposits t, od_OrderId od = orderID \<and> od_IsAsk od = isAsk,
          tr \<leftarrow> Transactions t, t_Id tr = od_TransactionId od]"

definition getPlaceOrderTransactionDetails :: "u32 \<Rightarrow> bool \<Rightarrow> world \<Rightarrow> (go_error + i64 \<times> i64) \<times> world" where
  "getPlaceOrderTransactionDetails orderID isAsk w =
     (let (ok, w1) = db_ok w
      in if \<not> ok then (Inl DbError, w1)
         else (case deposit_rows orderID isAsk (db w1) of
                 [] \<Rightarrow> (Inl InvalidOrderIDError, w1)
               | tr # _ \<Rightarrow> (Inr (- t_Total tr, t_StockQuantity tr), w1)))"

text \<open>The transaction is inserted first; its fresh id goes into the deposit row.\<close>

definition savePlaceOrderTransaction :: "u32 \<Rightarrow> transaction \<Rightarrow> bool \<Rightarrow> txop" where
  "savePlaceOrderTransaction orderID tr isAsk = (\<lambda>(w, t).
     tx_seq [tx_insert (insert_tx tr),
             tx_save (\<lambda>t. t\<lparr>OrderDeposits := OrderDeposits t @
               [makeOrderDepositTransactionRef (nextId w) orderID isAsk (now w)]\<rparr>)] (w, t))"

section \<open>What a user owns\<close>

definition of_user_stock :: "u32 \<Rightarrow> u32 \<Rightarrow> transaction \<Rightarrow> bool" where
  "of_user_stock uid sid x \<longleftrightarrow> t_UserId x = uid \<and> t_StockId x = sid"

definition sum_tx :: "(transaction \<Rightarrow> i64) \<Rightarrow> (transaction \<Rightarrow> bool) \<Rightarrow> tables \<Rightarrow> i64" where
  "sum_tx f P t = sum_list (map f (filter P (Transactions t)))"

definition getSingleStockCount :: "user \<Rightarrow> u32 \<Rightarrow> world \<Rightarrow> (go_error + i64) \<times> world" where
  "getSingleStockCount u stockId w =
     (let (ok, w1) = db_ok w
      in if \<not> ok then (Inl DbError, w1)
         else (Inr (sum_tx t_StockQuantity (of_user_stock (u_Id u) stockId) (db w1)), w1))"

definition getTotalSingleStockCount :: "user \<Rightarrow> u32 \<Rightarrow> world \<Rightarrow> (go_error + i64) \<times> world" where
  "getTotalSingleStockCount u stockId w =
     (let (ok, w1) = db_ok w
      in if \<not> ok then (Inl DbError, w1)
         else (Inr (sum_tx t_StockQuantity (of_user_stock (u_Id u) stockId) (db w1) +
                    sum_tx t_ReservedStockQuantity (of_user_stock (u_Id u) stockId) (db w1)), w1))"

text \<open>\<^verbatim>\<open>group by stockId\<close>: a map over the stocks of the user's transactions.\<close>

definition by_stock :: "(transaction \<Rightarrow> i64) \<Rightarrow> u32 \<Rightarrow> tables \<Rightarrow> (u32 \<rightharpoonup> i64)" where
  "by_stock f uid t = (\<lambda>sid.
     if list_ex (of_user_stock uid sid) (Transactions t)
     then Some (sum_tx f (of_user_stock uid sid) t) else None)"

definition GetCashSpent :: "u32 \<Rightarrow> world \<Rightarrow> (go_error + (u32 \<rightharpoonup> i64)) \<times> world" where
  "GetCashSpent userId w =
     (let (ok, w1) = db_ok w
      in if \<not> ok then (Inl DbError, w1)
         else (Inr (by_stock (\<lambda>x. t_Price x * t_ReservedStockQuantity x + t_Price x * t_StockQuantity x)
                     userId (db w1)), w1))"

section \<open>Facts about the ledger\<close>

lemma sum_tx_insert [ledger_simps]:
  "sum_tx f P (insert_tx tr i t) = sum_tx f P t + (if P (tr\<lparr>t_Id := i\<rparr>) then f (tr\<lparr>t_Id := i\<rparr>) else 0)"
  by (simp add: sum_tx_def insert_tx_def)

lemma sum_tx_save [ledger_simps]:
  "sum_tx f P (save_user u t) = sum_tx f P t" "sum_tx f P (save_ask a t) = sum_tx f P t"
  "sum_tx f P (save_bid b t) = sum_tx f P t" "sum_tx f P (save_stock s t) = sum_tx f P t"
  by (simp_all add: sum_tx_def save_user_def save_ask_def save_bid_def save_stock_def)

lemma of_user_stock_ref [ledger_simps]:
  "of_user_stock uid sid ((GetTransactionRef u s ty rq q p rc tot c)\<lparr>t_Id := i\<rparr>) \<longleftrightarrow> u = uid \<and> s = sid"
  "of_user_stock uid sid (GetTransactionRef u s ty rq q p rc tot c) \<longleftrightarrow> u = uid \<and> s = sid"
  by (auto simp: of_user_stock_def GetTransactionRef_def)

lemma GetTransactionRef_simps [ledger_simps]:
  "t_UserId (GetTransactionRef u s ty rq q p rc tot c) = u"
  "t_StockId (GetTransactionRef u s ty rq q p rc tot c) = s"
  "t_Type (GetTransactionRef u s ty rq q p rc tot c) = ty"
  "t_ReservedStockQuantity (GetTransactionRef u s ty rq q p rc tot c) = rq"
  "t_StockQuantity (GetTransactionRef u s ty rq q p rc tot c) = q"
  "t_Price (GetTransactionRef u s ty rq q p rc tot c) = p"
  "t_ReservedCashTotal (GetTransactionRef u s ty rq q p rc tot c) = rc"
  "t_Total (GetTransactionRef u s ty rq q p rc tot c) = tot"
  by (simp_all add: GetTransactionRef_def)

lemma quiet_savePlaceOrder [simp]: "quiet (savePlaceOrderTransaction i tr isAsk)"
proof (unfold quiet_def, intro allI impI)
  fix w t ok w' t'
  assume "savePlaceOrderTransaction i tr isAsk (w, t) = (ok, w', t')"
  then have "tx_seq [tx_insert (insert_tx tr),
      tx_save (\<lambda>t. t\<lparr>OrderDeposits := OrderDeposits t @
        [makeOrderDepositTransactionRef (nextId w) i isAsk (now w)]\<rparr>)] (w, t) = (ok, w', t')"
    unfolding savePlaceOrderTransaction_def by simp
  from quiet_seq [OF _ this] show "same_mem w w' \<and> db w' = db w" by simp
qed

text \<open>Sums over the rows a transaction added; the sums in use do not look at the keys.\<close>

lemma sum_tx_adds:
  assumes "adds_tx trs t t'" "\<And>x. f (no_key x) = f x" "\<And>x. P (no_key x) = P x"
  shows "sum_tx f P t' = sum_tx f P t + sum_list (map f (filter P trs))"
proof -
  obtain rows where r: "Transactions t' = Transactions t @ rows" "map no_key rows = map no_key trs"
    using assms(1) by (auto simp: adds_tx_def)
  have n: "sum_list (map f (filter P xs)) = sum_list (map f (filter P (map no_key xs)))" for xs
    using assms(2,3) by (induction xs) auto
  show ?thesis using r n [of rows] n [of trs] by (simp add: sum_tx_def)
qed

lemma no_key_fields [simp]:
  "t_UserId (no_key x) = t_UserId x" "t_StockId (no_key x) = t_StockId x" "t_Total (no_key x) = t_Total x"
  "t_StockQuantity (no_key x) = t_StockQuantity x"
  "t_ReservedStockQuantity (no_key x) = t_ReservedStockQuantity x"
  "t_ReservedCashTotal (no_key x) = t_ReservedCashTotal x" "t_Price (no_key x) = t_Price x"
  "of_user_stock i s (no_key x) = of_user_stock i s x"
  by (simp_all add: no_key_def of_user_stock_def)

text \<open>The listing of a user's transactions.\<close>

lemma GetTransactions_page:
  assumes "GetTransactions uid lastId count w = (Inr (b, rows), w')"
  shows "page_of t_Id {x \<in> set (Transactions (db w)). (lastId \<noteq> 0 \<longrightarrow> t_Id x \<le> lastId) \<and> t_UserId x = uid} b rows"
proof -
  obtain ok w1 where c: "db_ok w = (ok, w1)" by fastforce
  let ?n = "unat (if count = 0 then 10 else MinInt32 count 10 :: u32)"
  let ?found = "filter (\<lambda>x. (lastId \<noteq> 0 \<longrightarrow> t_Id x \<le> lastId) \<and> t_UserId x = uid) (Transactions (db w1))"
  have "rows = take ?n (rev (sort_key t_Id ?found))" "b = (?n \<le> length rows)"
    using assms c by (auto simp: GetTransactions_def Let_def split: if_splits)
  from page_of_query [OF refl this(1)] this(2) db_ok_same [OF c] show ?thesis by simp
qed

end
