(* ===== verification/Engine.thy ===== *)
theory Engine
  imports Order_Book Ledger
begin

text \<open>
  The matching engine: \<^verbatim>\<open>matchingengine/MatchingEngine.go\<close>. It keeps an order book per stock,
  loads the open orders when the server starts, and passes new and cancelled orders on to
  the book of their stock.

  A stock without a book is a nil interface in the map, and calling a method of it panics:
  \<open>None\<close>. The books are started in goroutines of their own; the order in which they get to
  work is an argument.
\<close>

section \<open>State\<close>

type_synonym engine = "u32 \<rightharpoonup> orderBook"

text \<open>\<^verbatim>\<open>marketDepthsMap\<close> of \<^verbatim>\<open>datastreams/Stream.go\<close>: a stream is made when it is first asked for.\<close>

type_synonym depths = "u32 \<rightharpoonup> depth"

definition GetMarketDepthStream :: "u32 \<Rightarrow> depths \<Rightarrow> depth \<times> depths" where
  "GetMarketDepthStream stockId m =
     (let m1 = (if m stockId = None then m(stockId \<mapsto> newMarketDepthStream) else m)
      in (the (m1 stockId), m1))"

section \<open>Loading old orders\<close>

fun new_books :: "u32 list \<Rightarrow> depths \<Rightarrow> engine \<Rightarrow> world \<Rightarrow> engine \<times> world" where
  "new_books [] m e w = (e, w)"
| "new_books (stockID # ids) m e w =
     (let (d, m1) = GetMarketDepthStream stockID m;
          ob = NewOrderBook stockID d;
          (tx, w1) = GetAskTransactionsForStock stockID 15 w
      in new_books ids m1 (e(stockID \<mapsto> (case tx of Inl _ \<Rightarrow> ob | Inr txs \<Rightarrow> LoadOldTransactions txs ob))) w1)"

fun load_old_asks :: "ref list \<Rightarrow> world \<Rightarrow> engine \<Rightarrow> engine option" where
  "load_old_asks [] w e = Some e"
| "load_old_asks (r # rs) w e =
     do { ob \<leftarrow> e (o_StockId (askObj w r));
          ob' \<leftarrow> LoadOldAsk r w ob;
          load_old_asks rs w (e(o_StockId (askObj w r) \<mapsto> ob')) }"

fun load_old_bids :: "ref list \<Rightarrow> world \<Rightarrow> engine \<Rightarrow> engine option" where
  "load_old_bids [] w e = Some e"
| "load_old_bids (r # rs) w e =
     do { ob \<leftarrow> e (o_StockId (bidObj w r));
          ob' \<leftarrow> LoadOldBid r w ob;
          load_old_bids rs w (e(o_StockId (bidObj w r) \<mapsto> ob')) }"

definition loadOldOrders :: "depths \<Rightarrow> world \<Rightarrow> (engine \<times> world) option" where
  "loadOldOrders m w =
     (let (ok, w1) = db_ok w; stockIDs = map s_Id (Stocks (db w1)) in
      if \<not> ok then None
      else do { (openAskOrders, w2) \<leftarrow> GetAllOpenAsks w1;
                (openBidOrders, w3) \<leftarrow> GetAllOpenBids w2;
                let (e, w4) = new_books stockIDs m Map.empty w3;
                e1 \<leftarrow> load_old_asks openAskOrders w4 e;
                e2 \<leftarrow> load_old_bids openBidOrders w4 e1;
                Some (e2, w4) })"

fun start_books :: "FillOrder \<Rightarrow> u32 list \<Rightarrow> engine \<Rightarrow> world \<Rightarrow> (engine \<times> world) option" where
  "start_books fill [] e w = Some (e, w)"
| "start_books fill (s # ss) e w =
     do { ob \<leftarrow> e s;
          (ob', w1) \<leftarrow> StartStockMatching fill ob w;
          start_books fill ss (e(s \<mapsto> ob')) w1 }"

definition NewMatchingEngine :: "FillOrder \<Rightarrow> u32 list \<Rightarrow> depths \<Rightarrow> world \<Rightarrow> (engine \<times> world) option" where
  "NewMatchingEngine fill schedule m w =
     do { (e, w1) \<leftarrow> loadOldOrders m w; start_books fill schedule e w1 }"

section \<open>New and cancelled orders\<close>

definition engine_AddAskOrder :: "ref \<Rightarrow> engine \<Rightarrow> world \<Rightarrow> (engine \<times> world) option" where
  "engine_AddAskOrder r e w =
     do { ob \<leftarrow> e (o_StockId (askObj w r));
          (ob', w1) \<leftarrow> AddAskOrder r ob w;
          Some (e(o_StockId (askObj w r) \<mapsto> ob'), w1) }"

definition engine_AddBidOrder :: "ref \<Rightarrow> engine \<Rightarrow> world \<Rightarrow> (engine \<times> world) option" where
  "engine_AddBidOrder r e w =
     do { ob \<leftarrow> e (o_StockId (bidObj w r));
          (ob', w1) \<leftarrow> AddBidOrder r ob w;
          Some (e(o_StockId (bidObj w r) \<mapsto> ob'), w1) }"

definition engine_CancelAskOrder :: "ref \<Rightarrow> world \<Rightarrow> engine \<Rightarrow> engine option" where
  "engine_CancelAskOrder r w e =
     do { ob \<leftarrow> e (o_StockId (askObj w r));
          Some (e(o_StockId (askObj w r) \<mapsto> CancelAskOrder r w ob)) }"

definition engine_CancelBidOrder :: "ref \<Rightarrow> world \<Rightarrow> engine \<Rightarrow> engine option" where
  "engine_CancelBidOrder r w e =
     do { ob \<leftarrow> e (o_StockId (bidObj w r));
          Some (e(o_StockId (bidObj w r) \<mapsto> CancelBidOrder r w ob)) }"

end
