(* ===== verification/Accounts.thy ===== *)
theory Accounts
  imports Ledger
begin

text \<open>
  The accounts of \<^verbatim>\<open>models/User.go\<close>: reaching a user's object, the small operations on it,
  fees, and the administration of users.

  A \<^verbatim>\<open>*User\<close> is the object that \<open>users\<close> holds for an id, and \<open>usr w i\<close> reads it. A lock is held
  for a whole operation, and operations are single steps, so locks show in one place only:
  asking for the same user twice never returns. A panic is \<open>None\<close>.
\<close>

section \<open>Objects\<close>

definition zero_user :: user where
  "zero_user = \<lparr>u_Id = 0, u_Email = [], u_Name = [], u_Cash = 0, u_Total = 0, u_CreatedAt = [],
     u_IsHuman = False, u_ReservedCash = 0, u_IsPhoneVerified = False, u_IsAdmin = False,
     u_IsOTPBlocked = False, u_OTPRequestCount = 0, u_IsBlocked = False, u_BlockCount = 0\<rparr>"

definition usr :: "world \<Rightarrow> u32 \<Rightarrow> user" where
  "usr w i = (case users w i of Some u \<Rightarrow> u | None \<Rightarrow> zero_user)"

definition set_user :: "u32 \<Rightarrow> user \<Rightarrow> world \<Rightarrow> world" where
  "set_user i u w = w\<lparr>users := (users w)(i \<mapsto> u)\<rparr>"

text \<open>
  The new object is put into the map before the query runs, and stays there when the query
  fails: a later call for the same id finds it and succeeds with the zero user.
\<close>

definition getUserExclusively :: "u32 \<Rightarrow> world \<Rightarrow> go_error option \<times> world" where
  "getUserExclusively i w =
     (case users w i of
        Some u \<Rightarrow> (None, w)
      | None \<Rightarrow>
          (let (ok, w1) = db_ok w
           in if \<not> ok then (Some DbError, set_user i zero_user w1)
              else (case row u_Id i (Users (db w1)) of
                      None \<Rightarrow> (Some UserNotFoundError, set_user i zero_user w1)
                    | Some u \<Rightarrow> (None, set_user i u w1))))"

definition getUserPairExclusive :: "u32 \<Rightarrow> u32 \<Rightarrow> world \<Rightarrow> (go_error option \<times> world) option" where
  "getUserPairExclusive id1 id2 w =
     (let (firstUserId, secondUserId) = (if id1 < id2 then (id1, id2) else (id2, id1));
          (e, w1) = getUserExclusively firstUserId w
      in if e \<noteq> None then Some (e, w1)
         else if firstUserId = secondUserId then None
         else Some (getUserExclusively secondUserId w1))"

text \<open>\<^verbatim>\<open>GetUserCopy\<close> asks the database a second time; an error of the first query is kept by the
  handle and is the error of the second.\<close>

definition GetUserCopy :: "u32 \<Rightarrow> world \<Rightarrow> (go_error + user) \<times> world" where
  "GetUserCopy i w =
     (case users w i of
        Some u \<Rightarrow> (Inr u, w)
      | None \<Rightarrow>
          (let (e, w1) = getUserExclusively i w
           in (case e of
                 Some x \<Rightarrow> (Inl (if x = UserNotFoundError then RecordNotFound else x), w1)
               | None \<Rightarrow> (let (ok, w2) = db_ok w1
                           in if ok then (Inr (usr w2 i), w2) else (Inl DbError, w2)))))"

section \<open>Cash\<close>

definition SubtractUserCash :: "u32 \<Rightarrow> u64 \<Rightarrow> txop" where
  "SubtractUserCash i fee = (\<lambda>(w, t).
     let u = (usr w i)\<lparr>u_Cash := u_Cash (usr w i) - fee\<rparr>
     in tx_save (save_user u) (set_user i u w, t))"

definition AddUserReservedCash :: "u32 \<Rightarrow> u64 \<Rightarrow> txop" where
  "AddUserReservedCash i reservedCash = (\<lambda>(w, t).
     let u = (usr w i)\<lparr>u_ReservedCash := u_ReservedCash (usr w i) + reservedCash\<rparr>
     in tx_save (save_user u) (set_user i u w, t))"

definition getOrderFeePrice :: "u64 \<Rightarrow> u32 \<Rightarrow> OrderType \<Rightarrow> world \<Rightarrow> u64 option" where
  "getOrderFeePrice price stockId ot w =
     (case ot of
        Limit \<Rightarrow> Some price
      | Market \<Rightarrow> map_option s_CurrentPrice (allStocks w stockId)
      | StopLoss \<Rightarrow> Some price
      | StopLossActive \<Rightarrow> Some 0)"

definition getOrderFee :: "u64 \<Rightarrow> u64 \<Rightarrow> u64" where
  "getOrderFee quantity price = u64_of_f (fmul (fl64 (3 / 100)) (f_of_u64 (quantity * price)))"

text \<open>Tax brackets: the sorted keys of \<^verbatim>\<open>TaxBrackets\<close> with their rates.\<close>

definition TaxBrackets :: "(i64 \<times> u64) list" where
  "TaxBrackets = [(0, 0), (100000, 2), (500000, 5), (1000000, 9), (2000000, 15)]"

definition MaxTaxPercent :: u64 where "MaxTaxPercent = 25"

fun tax_lookup :: "i64 \<Rightarrow> (i64 \<times> u64) list \<Rightarrow> u64" where
  "tax_lookup netCash [] = MaxTaxPercent"
| "tax_lookup netCash ((bracket, rate) # rest) =
     (if s_le netCash bracket then rate else tax_lookup netCash rest)"

definition getTaxPercent :: "i64 \<Rightarrow> u64" where
  "getTaxPercent netCash = tax_lookup netCash TaxBrackets"

section \<open>Creating users\<close>

definition create_row :: "user \<Rightarrow> world \<Rightarrow> (go_error + user) \<times> world" where
  "create_row u w =
     (let (ok, w1) = db_ok w
      in if \<not> ok then (Inl DbError, w1)
         else let u' = u\<lparr>u_Id := nextId w1\<rparr>
              in (Inr u', w1\<lparr>nextId := nextId w1 + 1, TotalUserCount := TotalUserCount w1 + 1,
                             db := save_user u' (db w1)\<rparr>))"

definition createUser :: "string \<Rightarrow> string \<Rightarrow> world \<Rightarrow> (go_error + user) \<times> world" where
  "createUser name email w =
     create_row (zero_user\<lparr>u_Email := email, u_Name := name, u_Cash := 200000, u_Total := 200000,
       u_CreatedAt := now w, u_IsHuman := True\<rparr>) w"

definition CreateBot :: "string \<Rightarrow> world \<Rightarrow> (go_error + user) \<times> world" where
  "CreateBot botName w =
     create_row (zero_user\<lparr>u_Email := botName @ ''@bot'', u_Name := botName, u_Cash := 200000,
       u_Total := 200000, u_CreatedAt := now w\<rparr>) w"

section \<open>Queries\<close>

definition IsUserPhoneVerified :: "u32 \<Rightarrow> world \<Rightarrow> bool option" where
  "IsUserPhoneVerified i w = map_option u_IsPhoneVerified (users w i)"

definition IsAdminAuth :: "u32 \<Rightarrow> world \<Rightarrow> bool option" where
  "IsAdminAuth i w = map_option u_IsAdmin (users w i)"

definition IsUserOTPBlocked :: "u32 \<Rightarrow> world \<Rightarrow> bool option" where
  "IsUserOTPBlocked i w = map_option u_IsOTPBlocked (users w i)"

definition GetUserOTPRequestCount :: "u32 \<Rightarrow> world \<Rightarrow> i64 option" where
  "GetUserOTPRequestCount i w = map_option u_OTPRequestCount (users w i)"

definition IsUserBlocked :: "u32 \<Rightarrow> world \<Rightarrow> bool option" where
  "IsUserBlocked i w = map_option u_IsBlocked (users w i)"

definition GetUserBlockCount :: "u32 \<Rightarrow> world \<Rightarrow> i64 option" where
  "GetUserBlockCount i w = map_option u_BlockCount (users w i)"

definition Logout :: "u32 \<Rightarrow> world \<Rightarrow> world" where
  "Logout i w = w\<lparr>users := (users w)(i := None)\<rparr>"

text \<open>\<^verbatim>\<open>close(ch)\<close> on the nil channel of a failed call is a panic.\<close>

definition GetUserStockWorth :: "u32 \<Rightarrow> world \<Rightarrow> (i64 \<times> world) option" where
  "GetUserStockWorth i w =
     (let (e, w1) = getUserExclusively i w; u = usr w1 i
      in if e \<noteq> None then None
         else Some (u_Total u - (u_Cash u + u_ReservedCash u), w1))"

definition owned_query :: "(transaction \<Rightarrow> i64) \<Rightarrow> u32 \<Rightarrow> world \<Rightarrow> (go_error + (u32 \<rightharpoonup> i64)) \<times> world" where
  "owned_query f i w =
     (let (e, w1) = getUserExclusively i w
      in (case e of
            Some x \<Rightarrow> (Inl x, w1)
          | None \<Rightarrow> (let (ok, w2) = db_ok w1
                      in if ok then (Inr (by_stock f i (db w2)), w2) else (Inl DbError, w2))))"

definition GetStocksOwned :: "u32 \<Rightarrow> world \<Rightarrow> (go_error + (u32 \<rightharpoonup> i64)) \<times> world" where
  "GetStocksOwned = owned_query t_StockQuantity"

definition GetReservedStocksOwned :: "u32 \<Rightarrow> world \<Rightarrow> (go_error + (u32 \<rightharpoonup> i64)) \<times> world" where
  "GetReservedStocksOwned = owned_query t_ReservedStockQuantity"

section \<open>Blocking\<close>

definition SetBlockUser :: "u32 \<Rightarrow> bool \<Rightarrow> u64 \<Rightarrow> world \<Rightarrow> (go_error option \<times> world) option" where
  "SetBlockUser i isBlocked penalty w =
     (let (e, w1) = getUserExclusively i w; u = usr w1 i in
      if e \<noteq> None then None
      else if u_IsBlocked u = isBlocked then Some (None, w1)
      else
        let blockCount = (if isBlocked then u_BlockCount u + 1
                          else if s_less 0 (u_BlockCount u) then u_BlockCount u - 1 else 0);
            u' = u\<lparr>u_IsBlocked := isBlocked, u_BlockCount := blockCount, u_Cash := u_Cash u - penalty\<rparr>;
            (ok, w2) = db_ok (set_user i u' w1)
        in if ok then Some (None, w2\<lparr>db := save_user u' (db w2)\<rparr>)
           else Some (Some InternalServerError, set_user i u w2))"

fun unblock_users :: "i64 \<Rightarrow> u32 list \<Rightarrow> world \<Rightarrow> (go_error option \<times> world) option" where
  "unblock_users maxBlockCount [] w = Some (None, w)"
| "unblock_users maxBlockCount (i # is) w =
     (let (e, w1) = getUserExclusively i w; u = usr w1 i in
      if e \<noteq> None then None
      else if u_IsBlocked u \<and> s_less (u_BlockCount u) maxBlockCount
      then let u' = u\<lparr>u_IsBlocked := False\<rparr>; (ok, w2) = db_ok (set_user i u' w1)
           in if ok then unblock_users maxBlockCount is (w2\<lparr>db := save_user u' (db w2)\<rparr>)
              else Some (Some InternalServerError, set_user i u w2)
      else unblock_users maxBlockCount is w1)"

text \<open>The error of the query for the ids is ignored. \<^verbatim>\<open>config.MaxBlockCount\<close> is an argument.\<close>

definition UnBlockAllUsers :: "i64 \<Rightarrow> world \<Rightarrow> (go_error option \<times> world) option" where
  "UnBlockAllUsers maxBlockCount w =
     (let (ok, w1) = db_ok w
      in unblock_users maxBlockCount (if ok then map u_Id (Users (db w1)) else []) w1)"

section \<open>Facts about accounts\<close>

lemma set_user_simps [ledger_simps]:
  "users (set_user i u w) = (users w)(i \<mapsto> u)" "allStocks (set_user i u w) = allStocks w"
  "askObj (set_user i u w) = askObj w" "bidObj (set_user i u w) = bidObj w" "db (set_user i u w) = db w"
  "outcomes (set_user i u w) = outcomes w" "avgLastPrice (set_user i u w) = avgLastPrice w"
  "now (set_user i u w) = now w" "nextId (set_user i u w) = nextId w"
  "asksMap (set_user i u w) = asksMap w" "bidsMap (set_user i u w) = bidsMap w"
  "nextRef (set_user i u w) = nextRef w" "TotalUserCount (set_user i u w) = TotalUserCount w"
  "isMarketOpen (set_user i u w) = isMarketOpen w"
  by (simp_all add: set_user_def)

lemma usr_set_user [simp]: "usr (set_user i u w) j = (if j = i then u else usr w j)"
  by (simp add: usr_def set_user_def)

lemma usr_Some [simp]: "users w i = Some u \<Longrightarrow> usr w i = u"
  by (simp add: usr_def)

lemma usr_cong: "users w' = users w \<Longrightarrow> usr w' i = usr w i"
  by (simp add: usr_def)

text \<open>
  Reaching a user changes nothing but the map of users, where it at most adds an object for
  the id; after success the object is there.
\<close>

definition same_but_users :: "world \<Rightarrow> world \<Rightarrow> bool" where
  "same_but_users w w' \<longleftrightarrow> askObj w' = askObj w \<and> bidObj w' = bidObj w \<and> nextRef w' = nextRef w \<and>
     asksMap w' = asksMap w \<and> bidsMap w' = bidsMap w \<and> allStocks w' = allStocks w \<and>
     avgLastPrice w' = avgLastPrice w \<and> db w' = db w \<and> nextId w' = nextId w \<and> now w' = now w \<and>
     isMarketOpen w' = isMarketOpen w \<and> (\<forall>j u. users w j = Some u \<longrightarrow> users w' j = Some u)"

lemma same_but_users_refl [simp]: "same_but_users w w"
  by (simp add: same_but_users_def)

lemma same_but_users_trans: "same_but_users a b \<Longrightarrow> same_but_users b c \<Longrightarrow> same_but_users a c"
  by (simp add: same_but_users_def)

lemma getUserExclusively_frame:
  assumes "getUserExclusively i w = (e, w')"
  shows "same_but_users w w'" "users w' i \<noteq> None" "outcomes w = [] \<Longrightarrow> outcomes w' = []"
    "e = None \<Longrightarrow> users w i = None \<Longrightarrow> users w' i = row u_Id i (Users (db w))"
    "j \<noteq> i \<Longrightarrow> users w' j = users w j"
proof -
  consider (Hit) u where "users w i = Some u" "e = None" "w' = w"
    | (Load) w1 u where "users w i = None" "same_mem w w1 \<and> db w1 = db w \<and> nextId w1 = nextId w"
        "outcomes w = [] \<longrightarrow> outcomes w1 = []" "w' = set_user i u w1"
        "e = None \<longrightarrow> row u_Id i (Users (db w)) = Some u"
  proof (cases "users w i")
    case (Some u)
    then show ?thesis using assms by (intro Hit) (auto simp: getUserExclusively_def)
  next
    case None
    obtain ok w1 where c: "db_ok w = (ok, w1)" by fastforce
    note f = db_ok_same [OF c]
    have o: "outcomes w = [] \<longrightarrow> outcomes w1 = []" using c by auto
    show ?thesis
    proof (cases "ok \<and> row u_Id i (Users (db w1)) \<noteq> None")
      case True
      then obtain u where "row u_Id i (Users (db w1)) = Some u" by blast
      then show ?thesis using assms None c f o True
        by (intro Load [of w1 u]) (auto simp: getUserExclusively_def)
    next
      case False
      then show ?thesis using assms None c f o
        by (intro Load [of w1 zero_user]) (auto simp: getUserExclusively_def split: if_splits)
    qed
  qed
  then have "same_but_users w w' \<and> users w' i \<noteq> None \<and> (outcomes w = [] \<longrightarrow> outcomes w' = []) \<and>
      (e = None \<longrightarrow> users w i = None \<longrightarrow> users w' i = row u_Id i (Users (db w))) \<and>
      (j \<noteq> i \<longrightarrow> users w' j = users w j)"
  proof cases
    case (Load w1 u)
    then show ?thesis unfolding Load(4) same_but_users_def same_mem_def
      by (simp add: ledger_simps)
  qed simp
  then show "same_but_users w w'" "users w' i \<noteq> None" "outcomes w = [] \<Longrightarrow> outcomes w' = []"
    "e = None \<Longrightarrow> users w i = None \<Longrightarrow> users w' i = row u_Id i (Users (db w))"
    "j \<noteq> i \<Longrightarrow> users w' j = users w j" by simp_all
qed

lemma getUserPairExclusive_frame:
  assumes "getUserPairExclusive i j w = Some (e, w')"
  shows "same_but_users w w'" "e = None \<Longrightarrow> users w' i \<noteq> None \<and> users w' j \<noteq> None"
    "outcomes w = [] \<Longrightarrow> outcomes w' = []"
proof -
  obtain f s where fs: "(if i < j then (i, j) else (j, i)) = (f, s)" by fastforce
  obtain e1 w1 where g1: "getUserExclusively f w = (e1, w1)" by fastforce
  obtain e2 w2 where g2: "getUserExclusively s w1 = (e2, w2)" by fastforce
  note f1 = getUserExclusively_frame [OF g1] and f2 = getUserExclusively_frame [OF g2]
  have r: "(e1 \<noteq> None \<and> e = e1 \<and> w' = w1) \<or> (e1 = None \<and> e = e2 \<and> w' = w2)"
    using assms fs g1 g2 by (auto simp: getUserPairExclusive_def Let_def split: if_splits)
  show "same_but_users w w'" using r f1(1) f2(1) same_but_users_trans by blast
  have "users w2 f \<noteq> None" using f1(2) f2(1) by (auto simp: same_but_users_def)
  then show "e = None \<Longrightarrow> users w' i \<noteq> None \<and> users w' j \<noteq> None"
    using r fs f2(2) by (auto split: if_splits)
  show "outcomes w = [] \<Longrightarrow> outcomes w' = []" using r f1(3) f2(3) by auto
qed

lemma getUserPairExclusive_total:
  "i \<noteq> j \<Longrightarrow> \<exists>e w'. getUserPairExclusive i j w = Some (e, w')"
  by (auto simp: getUserPairExclusive_def Let_def split: prod.splits)

text \<open>The tax rates.\<close>

lemma getTaxPercent_brackets:
  "getTaxPercent n = (if sint n \<le> 0 then 0 else if sint n \<le> 100000 then 2
     else if sint n \<le> 500000 then 5 else if sint n \<le> 1000000 then 9
     else if sint n \<le> 2000000 then 15 else 25)"
  by (simp add: getTaxPercent_def TaxBrackets_def MaxTaxPercent_def s_le_def)

lemma getTaxPercent_le: "getTaxPercent n \<le> 25"
  by (simp add: getTaxPercent_brackets)

lemma getTaxPercent_mono: "sint n \<le> sint m \<Longrightarrow> getTaxPercent n \<le> getTaxPercent m"
  by (simp add: getTaxPercent_brackets)

end
