(* ===== verification/Tax.thy ===== *)
theory Tax
  imports Accounts
begin

text \<open>
  The tax on profits: \<^verbatim>\<open>getTaxForBiddingUser\<close> and \<^verbatim>\<open>getTaxForAskingUser\<close> of \<^verbatim>\<open>models/User.go\<close>,
  and the rows of \<^verbatim>\<open>TransactionSummary\<close>, which keep how many stocks a user holds and at what
  average price.

  Floating point follows \<open>Go_Float\<close>, which has no NaN: the average over no stocks at all, 0/0
  in Go, is 0 here. It does not arise for trades of a positive quantity.
\<close>

section \<open>Summaries\<close>

text \<open>The query's error is ignored, so a failing or empty query leaves the fresh summary.\<close>

definition find_summary :: "u32 \<Rightarrow> u32 \<Rightarrow> world \<Rightarrow> tables \<Rightarrow> summary \<times> world" where
  "find_summary userId stockId w t =
     (let (ok, w1) = db_ok w;
          none = \<lparr>ts_Id = 0, ts_UserId = userId, ts_StockId = stockId, ts_StockQuantity = 0, ts_Price = 0\<rparr>;
          found = find (\<lambda>x. ts_UserId x = userId \<and> ts_StockId x = stockId) (Summaries t)
      in (if ok then (case found of Some x \<Rightarrow> x | None \<Rightarrow> none) else none, w1))"

definition save_summary :: "summary \<Rightarrow> txop" where
  "save_summary x =
     (if ts_Id x = 0
      then tx_insert (\<lambda>i t. t\<lparr>Summaries := Summaries t @ [x\<lparr>ts_Id := i\<rparr>]\<rparr>)
      else tx_save (\<lambda>t. t\<lparr>Summaries := upsert ts_Id x (Summaries t)\<rparr>))"

section \<open>Tax\<close>

definition tax_on :: "f64 \<Rightarrow> user \<Rightarrow> u64" where
  "tax_on profit u = (if profit > 0 then u64_of_f profit * getTaxPercent (u_Total u) div 100 else 0)"

definition tax_transaction :: "u32 \<Rightarrow> u32 \<Rightarrow> u64 \<Rightarrow> string \<Rightarrow> transaction option" where
  "tax_transaction userId stockId tax t =
     (if tax = 0 then None
      else Some (GetTransactionRef userId stockId TaxTransaction 0 0 0 0 (- tax) t))"

text \<open>The new summary and the tax of a purchase; then of a sale.\<close>

definition bid_tax :: "summary \<Rightarrow> u64 \<Rightarrow> u64 \<Rightarrow> user \<Rightarrow> summary \<times> u64" where
  "bid_tax x stockQuantity stockPrice u =
     (let p = f_of_u64 stockPrice; q = f_of_u64 stockQuantity; held = f_of_i64 (ts_StockQuantity x) in
      if ts_Id x \<noteq> 0
      then if held < 0
           then let taxable = min q (- held);
                    profit = fmul taxable (fsub (ts_Price x) p);
                    x1 = x\<lparr>ts_StockQuantity := ts_StockQuantity x + stockQuantity\<rparr>
                in (if taxable = - held then x1\<lparr>ts_Price := p\<rparr> else x1, tax_on profit u)
           else (x\<lparr>ts_Price := fdiv (fadd (fmul held (ts_Price x)) (fmul q p)) (fadd held q),
                   ts_StockQuantity := ts_StockQuantity x + stockQuantity\<rparr>, 0)
      else (x\<lparr>ts_StockQuantity := stockQuantity, ts_Price := p\<rparr>, 0))"

definition ask_tax :: "summary \<Rightarrow> u64 \<Rightarrow> u64 \<Rightarrow> user \<Rightarrow> summary \<times> u64" where
  "ask_tax x stockQuantity stockPrice u =
     (let p = f_of_u64 stockPrice; q = f_of_u64 stockQuantity; held = f_of_i64 (ts_StockQuantity x) in
      if ts_Id x \<noteq> 0
      then if held > 0
           then let taxable = min q held;
                    profit = fmul taxable (fsub p (ts_Price x));
                    x1 = x\<lparr>ts_StockQuantity := ts_StockQuantity x - stockQuantity\<rparr>
                in (if taxable = held then x1\<lparr>ts_Price := p\<rparr> else x1, tax_on profit u)
           else (x\<lparr>ts_Price := fdiv (fsub (fmul held (ts_Price x)) (fmul q p)) (fsub held q),
                   ts_StockQuantity := ts_StockQuantity x - stockQuantity\<rparr>, 0)
      else (x\<lparr>ts_StockQuantity := - stockQuantity, ts_Price := p\<rparr>, 0))"

text \<open>
  The functions of the code: the tax is subtracted from the user's cash in memory. They work
  on the user \<open>i\<close>; \<^verbatim>\<open>tx.Save\<close> of the summary is left to the caller.
\<close>

definition getTaxForBiddingUser ::
  "u32 \<Rightarrow> u64 \<Rightarrow> u64 \<Rightarrow> u32 \<Rightarrow> world \<Rightarrow> tables \<Rightarrow> (summary \<times> transaction option) \<times> world" where
  "getTaxForBiddingUser stockId stockQuantity stockPrice i w t =
     (let u = usr w i;
          (x, w1) = find_summary (u_Id u) stockId w t;
          (x', tax) = bid_tax x stockQuantity stockPrice u
      in ((x', tax_transaction (u_Id u) stockId tax (now w)),
          set_user i (u\<lparr>u_Cash := u_Cash u - tax\<rparr>) w1))"

definition getTaxForAskingUser ::
  "u32 \<Rightarrow> u64 \<Rightarrow> u64 \<Rightarrow> u32 \<Rightarrow> world \<Rightarrow> tables \<Rightarrow> (summary \<times> transaction option) \<times> world" where
  "getTaxForAskingUser stockId stockQuantity stockPrice i w t =
     (let u = usr w i;
          (x, w1) = find_summary (u_Id u) stockId w t;
          (x', tax) = ask_tax x stockQuantity stockPrice u
      in ((x', tax_transaction (u_Id u) stockId tax (now w)),
          set_user i (u\<lparr>u_Cash := u_Cash u - tax\<rparr>) w1))"

section \<open>Facts about the tax\<close>

lemma quiet_save_summary [simp]: "quiet (save_summary x)"
  by (simp add: save_summary_def)

text \<open>What a tax transaction records is what was taken.\<close>

definition tax_amount :: "transaction option \<Rightarrow> i64" where
  "tax_amount tr = (case tr of None \<Rightarrow> 0 | Some x \<Rightarrow> - t_Total x)"

lemma tax_amount_transaction [simp]: "tax_amount (tax_transaction i s tax t) = tax"
  by (simp add: tax_amount_def tax_transaction_def ledger_simps)

lemma find_summary_frame:
  "find_summary i s w t = (x, w') \<Longrightarrow> same_mem w w' \<and> db w' = db w \<and> nextId w' = nextId w \<and>
     (outcomes w = [] \<longrightarrow> outcomes w' = [])"
  by (auto simp: find_summary_def Let_def dest: db_ok_same split: prod.splits)

text \<open>A row of tax moves the cash of one user, and nothing else.\<close>

definition tax_row :: "u32 \<Rightarrow> transaction \<Rightarrow> bool" where
  "tax_row i x \<longleftrightarrow> t_UserId x = i \<and> t_Type x = TaxTransaction \<and> t_StockQuantity x = 0 \<and>
     t_ReservedStockQuantity x = 0 \<and> t_ReservedCashTotal x = 0"

lemma tax_frame:
  assumes "getTaxForBiddingUser s q p i w t = ((x, tr), w') \<or> getTaxForAskingUser s q p i w t = ((x, tr), w')"
  shows "users w' = (users w)(i \<mapsto> (usr w i)\<lparr>u_Cash := u_Cash (usr w i) - tax_amount tr\<rparr>)"
    "same_mem (w\<lparr>users := users w'\<rparr>) w'" "db w' = db w" "nextId w' = nextId w"
    "outcomes w = [] \<Longrightarrow> outcomes w' = []" "tr = Some tt \<Longrightarrow> tax_row (u_Id (usr w i)) tt"
proof -
  obtain y w1 where f: "find_summary (u_Id (usr w i)) s w t = (y, w1)" by fastforce
  note ff = find_summary_frame [OF f]
  obtain tax where r: "w' = set_user i ((usr w i)\<lparr>u_Cash := u_Cash (usr w i) - tax\<rparr>) w1"
      "tr = tax_transaction (u_Id (usr w i)) s tax (now w)"
    using assms f by (auto simp: getTaxForBiddingUser_def getTaxForAskingUser_def Let_def split: prod.splits)
  show "users w' = (users w)(i \<mapsto> (usr w i)\<lparr>u_Cash := u_Cash (usr w i) - tax_amount tr\<rparr>)"
    "same_mem (w\<lparr>users := users w'\<rparr>) w'" "db w' = db w" "nextId w' = nextId w"
    "outcomes w = [] \<Longrightarrow> outcomes w' = []" "tr = Some tt \<Longrightarrow> tax_row (u_Id (usr w i)) tt"
    using r ff by (auto simp: same_mem_def ledger_simps tax_transaction_def tax_amount_def tax_row_def split: if_splits)
qed

text \<open>The tax is at most a quarter of the profit, and there is none on a loss.\<close>

lemma tax_on_le:
  assumes "uint (u64_of_f profit) * 25 < 2 ^ 64"
  shows "uint (tax_on profit u) \<le> uint (u64_of_f profit) * 25 div 100"
proof (cases "profit > 0")
  case False
  then show ?thesis by (simp add: tax_on_def pos_imp_zdiv_nonneg_iff)
next
  case True
  let ?P = "uint (u64_of_f profit)" and ?r = "uint (getTaxPercent (u_Total u))"
  have r: "?r \<le> 25" using getTaxPercent_le [of "u_Total u"] by (simp add: word_le_def)
  have "?P * ?r \<le> ?P * 25" using r by (intro mult_left_mono) auto
  then have "uint (u64_of_f profit * getTaxPercent (u_Total u)) = ?P * ?r"
    using assms by (subst uint_mult_lem [THEN iffD1]) auto
  then have "uint (tax_on profit u) = ?P * ?r div 100"
    using True by (simp add: tax_on_def uint_div)
  also have "\<dots> \<le> ?P * 25 div 100" using \<open>?P * ?r \<le> ?P * 25\<close> by (intro zdiv_mono1) auto
  finally show ?thesis .
qed

end
