(* ===== verification/Stocks.thy ===== *)
theory Stocks
  imports World
begin

text \<open>
  The stocks: \<^verbatim>\<open>models/Stock.go\<close>.

  \<open>allStocks\<close> and \<open>avgLastPrice\<close> are the two maps of the package. A Go map is walked in an
  order the runtime picks: the operations that walk \<open>allStocks\<close> take that order as an argument.
  The values sent to the data streams are not part of the state.
\<close>

section \<open>Reading stocks\<close>

definition GetStockCopy :: "u32 \<Rightarrow> world \<Rightarrow> go_error + stock" where
  "GetStockCopy stockId w =
     (case allStocks w stockId of None \<Rightarrow> Inl (StockNotFoundError stockId) | Some s \<Rightarrow> Inr s)"

definition GetAllStocks :: "world \<Rightarrow> (u32 \<rightharpoonup> stock)" where
  "GetAllStocks w = allStocks w"

definition GetCompanyDetails :: "u32 \<Rightarrow> world \<Rightarrow> stock option" where
  "GetCompanyDetails stockId w = allStocks w stockId"

definition IsStockBankrupt :: "u32 \<Rightarrow> world \<Rightarrow> bool option" where
  "IsStockBankrupt stockId w = map_option s_IsBankrupt (allStocks w stockId)"

section \<open>The price after a trade\<close>

definition set_stock :: "u32 \<Rightarrow> stock \<Rightarrow> world \<Rightarrow> world" where
  "set_stock i s w = w\<lparr>allStocks := (allStocks w)(i \<mapsto> s)\<rparr>"

definition avg_of :: "world \<Rightarrow> u32 \<Rightarrow> f64" where
  "avg_of w i = (case avgLastPrice w i of None \<Rightarrow> 0 | Some x \<Rightarrow> x)"

definition averageStockCount :: "stock \<Rightarrow> u64" where
  "averageStockCount s =
     u64_of_f (min (max (f_of_u64 (1 * (s_StocksInExchange s + s_StocksInMarket s) div 100)) 1) 3)"

definition stockPriceChange :: "stock \<Rightarrow> u64 \<Rightarrow> u64 \<Rightarrow> f64 \<Rightarrow> f64" where
  "stockPriceChange s price quantity avg =
     (let cnt = averageStockCount s;
          finalQuantity = u64_of_f (min (f_of_u64 quantity) (f_of_u64 cnt));
          priceDifference = fsub (f_of_u64 price) avg
      in fdiv (fmul (f_of_u64 finalQuantity) priceDifference) (f_of_u64 cnt))"

text \<open>The day's marks, the marks of the running period and the all-time marks, one after the other.\<close>

definition day_marks :: "stock \<Rightarrow> stock" where
  "day_marks s =
     (let p = s_CurrentPrice s
      in if p > s_DayHigh s then s\<lparr>s_DayHigh := p\<rparr> else if p < s_DayLow s then s\<lparr>s_DayLow := p\<rparr> else s)"

definition period_marks :: "stock \<Rightarrow> stock" where
  "period_marks s =
     (let p = s_CurrentPrice s
      in if p > s_high s then s\<lparr>s_high := p\<rparr> else if p < s_low s then s\<lparr>s_low := p\<rparr> else s)"

definition all_time_marks :: "stock \<Rightarrow> stock" where
  "all_time_marks s =
     (let p = s_CurrentPrice s
      in if p > s_AllTimeHigh s then s\<lparr>s_AllTimeHigh := p\<rparr>
         else if p < s_AllTimeLow s then s\<lparr>s_AllTimeLow := p\<rparr> else s)"

definition price_marks :: "stock \<Rightarrow> stock" where
  "price_marks s =
     (let s3 = all_time_marks (period_marks (day_marks s))
      in s3\<lparr>s_UpOrDown := s_CurrentPrice s3 > s_PreviousDayClose s3\<rparr>)"

definition UpdateStockPrice :: "u32 \<Rightarrow> u64 \<Rightarrow> u64 \<Rightarrow> world \<Rightarrow> go_error option \<times> world" where
  "UpdateStockPrice stockId price quantity w =
     (case allStocks w stockId of
        None \<Rightarrow> (Some (StockNotFoundError stockId), w)
      | Some old \<Rightarrow>
          (let s1 = old\<lparr>s_LastTradePrice := price, s_UpdatedAt := now w\<rparr>;
               change = stockPriceChange s1 price quantity (avg_of w stockId);
               avgs = (avgLastPrice w)(s_Id s1 \<mapsto> fadd (avg_of w (s_Id s1)) change);
               w1 = w\<lparr>avgLastPrice := avgs\<rparr>;
               s2 = price_marks (s1\<lparr>s_CurrentPrice := u64_of_f (avg_of w1 (s_Id s1)),
                                    s_RealAvgPrice := avg_of w1 stockId\<rparr>);
               (ok, w2) = db_ok (set_stock stockId s2 w1)
           in if ok then (None, w2\<lparr>db := save_stock s2 (db w2)\<rparr>)
              else (Some DbError, set_stock stockId old w2)))"

definition UpdateStockVolume :: "u32 \<Rightarrow> u64 \<Rightarrow> world \<Rightarrow> world option" where
  "UpdateStockVolume stockId volume w =
     (case allStocks w stockId of
        None \<Rightarrow> None
      | Some s \<Rightarrow> Some (set_stock stockId (s\<lparr>s_volume := s_volume s + volume\<rparr>) w))"

section \<open>Loading\<close>

text \<open>The unexported fields \<^verbatim>\<open>open\<close>, \<^verbatim>\<open>high\<close>, \<^verbatim>\<open>low\<close> and \<^verbatim>\<open>volume\<close> have no column.\<close>

definition loaded_stock :: "stock \<Rightarrow> stock" where
  "loaded_stock s = s\<lparr>s_open := s_CurrentPrice s, s_high := s_CurrentPrice s,
     s_low := s_CurrentPrice s, s_volume := 0\<rparr>"

fun load_stocks :: "stock list \<Rightarrow> world \<Rightarrow> world" where
  "load_stocks [] w = w"
| "load_stocks (s # ss) w =
     load_stocks ss (w\<lparr>allStocks := (allStocks w)(s_Id s \<mapsto> loaded_stock s),
                       avgLastPrice := (avgLastPrice w)(s_Id s \<mapsto> s_RealAvgPrice s)\<rparr>)"

definition LoadStocks :: "world \<Rightarrow> go_error option \<times> world" where
  "LoadStocks w =
     (let (ok, w1) = db_ok w
      in if \<not> ok then (Some DbError, w1)
         else (None, load_stocks (Stocks (db w1)) (w1\<lparr>allStocks := Map.empty, avgLastPrice := Map.empty\<rparr>)))"

section \<open>The administration of stocks\<close>

definition AddStocksToExchange :: "u32 \<Rightarrow> u64 \<Rightarrow> world \<Rightarrow> go_error option \<times> world" where
  "AddStocksToExchange stockId count w =
     (case allStocks w stockId of
        None \<Rightarrow> (Some (StockNotFoundError stockId), w)
      | Some s \<Rightarrow>
          (let s1 = s\<lparr>s_StocksInExchange := s_StocksInExchange s + count, s_UpdatedAt := now w\<rparr>;
               (ok, w1) = db_ok (set_stock stockId s1 w)
           in if ok then (None, w1\<lparr>db := save_stock s1 (db w1)\<rparr>)
              else (Some DbError,
                    set_stock stockId (s1\<lparr>s_StocksInExchange := s_StocksInExchange s1 - count\<rparr>) w1)))"

text \<open>
  The body of the loops of \<^verbatim>\<open>SetPreviousDayClose\<close> and \<^verbatim>\<open>SetDayHighAndLow\<close>: it changes each stock
  in memory and saves it in the transaction, up to the first save that fails.
\<close>

fun save_all_stocks :: "(stock \<Rightarrow> stock) \<Rightarrow> u32 list \<Rightarrow> txop" where
  "save_all_stocks f [] (w, t) = (True, w, t)"
| "save_all_stocks f (i # is) (w, t) =
     (case allStocks w i of
        None \<Rightarrow> save_all_stocks f is (w, t)
      | Some s \<Rightarrow>
          (let (ok, w1) = db_ok (set_stock i (f s) w)
           in if ok then save_all_stocks f is (w1, save_stock (f s) t) else (False, w1, t)))"

text \<open>The deferred function runs \<^verbatim>\<open>LoadStocks\<close> on every path, and its result is what is returned.\<close>

definition SetPreviousDayClose :: "u32 list \<Rightarrow> world \<Rightarrow> go_error option \<times> world" where
  "SetPreviousDayClose ids w =
     LoadStocks (snd (tx_run [save_all_stocks (\<lambda>s. s\<lparr>s_PreviousDayClose := s_CurrentPrice s\<rparr>) ids] w))"

definition SetDayHighAndLow :: "u32 list \<Rightarrow> world \<Rightarrow> go_error option \<times> world" where
  "SetDayHighAndLow ids w =
     LoadStocks (snd (tx_run [save_all_stocks
       (\<lambda>s. s\<lparr>s_DayHigh := s_CurrentPrice s, s_DayLow := s_CurrentPrice s\<rparr>) ids] w))"

definition SetGivesDividends :: "u32 \<Rightarrow> bool \<Rightarrow> world \<Rightarrow> go_error option \<times> world" where
  "SetGivesDividends stockId givesDividends w =
     (case allStocks w stockId of
        None \<Rightarrow> (Some InvalidStockError, w)
      | Some old \<Rightarrow>
          (let s1 = old\<lparr>s_GivesDividends := givesDividends\<rparr>;
               (ok, w1) = db_ok (set_stock stockId s1 w)
           in if ok then (None, w1\<lparr>db := save_stock s1 (db w1)\<rparr>)
              else (Some DbError, set_stock stockId old w1)))"

definition SetBankruptcy :: "u32 \<Rightarrow> bool \<Rightarrow> world \<Rightarrow> go_error option \<times> world" where
  "SetBankruptcy stockId isBankrupt w =
     (case allStocks w stockId of
        None \<Rightarrow> (Some InvalidStockError, w)
      | Some old \<Rightarrow>
          (let s1 = old\<lparr>s_IsBankrupt := isBankrupt, s_CurrentPrice := 0\<rparr>;
               (ok, w1) = db_ok (set_stock stockId s1 w)
           in if ok then (None, w1\<lparr>db := save_stock s1 (db w1)\<rparr>)
              else (Some DbError, set_stock stockId old w1)))"

section \<open>Facts about the price\<close>

lemma set_stock_simps [ledger_simps]:
  "allStocks (set_stock i s w) = (allStocks w)(i \<mapsto> s)" "users (set_stock i s w) = users w"
  "askObj (set_stock i s w) = askObj w" "bidObj (set_stock i s w) = bidObj w" "db (set_stock i s w) = db w"
  "outcomes (set_stock i s w) = outcomes w" "avgLastPrice (set_stock i s w) = avgLastPrice w"
  "now (set_stock i s w) = now w" "nextId (set_stock i s w) = nextId w"
  "isMarketOpen (set_stock i s w) = isMarketOpen w"
  "asksMap (set_stock i s w) = asksMap w" "bidsMap (set_stock i s w) = bidsMap w"
  "nextRef (set_stock i s w) = nextRef w"
  by (simp_all add: set_stock_def)

text \<open>The average is over one to three trades, whatever the number of stocks.\<close>

lemma averageStockCount_bounds: "1 \<le> averageStockCount s" "averageStockCount s \<le> 3"
proof -
  let ?x = "min (max (f_of_u64 (1 * (s_StocksInExchange s + s_StocksInMarket s) div 100)) 1) 3"
  have "1 \<le> f_trunc ?x" by (rule le_f_trunc) auto
  moreover have "f_trunc ?x \<le> 3" by (rule f_trunc_le) auto
  ultimately have "f_trunc ?x = 1 \<or> f_trunc ?x = 2 \<or> f_trunc ?x = 3" by arith
  then show "1 \<le> averageStockCount s" "averageStockCount s \<le> 3"
    by (auto simp: averageStockCount_def u64_of_f_def)
qed

definition marks_ok :: "stock \<Rightarrow> bool" where
  "marks_ok s \<longleftrightarrow> s_DayLow s \<le> s_DayHigh s \<and> s_low s \<le> s_high s \<and> s_AllTimeLow s \<le> s_AllTimeHigh s"

definition within_marks :: "stock \<Rightarrow> bool" where
  "within_marks s \<longleftrightarrow> s_DayLow s \<le> s_CurrentPrice s \<and> s_CurrentPrice s \<le> s_DayHigh s \<and>
     s_low s \<le> s_CurrentPrice s \<and> s_CurrentPrice s \<le> s_high s \<and>
     s_AllTimeLow s \<le> s_CurrentPrice s \<and> s_CurrentPrice s \<le> s_AllTimeHigh s \<and>
     (s_UpOrDown s \<longleftrightarrow> s_CurrentPrice s > s_PreviousDayClose s)"

text \<open>One pair of marks: a price above the high one raises it, one below the low one lowers that.\<close>

definition raised :: "u64 \<Rightarrow> u64 \<Rightarrow> u64" where "raised p hi = (if p > hi then p else hi)"
definition lowered :: "u64 \<Rightarrow> u64 \<Rightarrow> u64 \<Rightarrow> u64" where
  "lowered p hi lo = (if p > hi then lo else if p < lo then p else lo)"

lemma lowered_raised:
  "p \<le> raised p hi" "lo \<le> hi \<Longrightarrow> lowered p hi lo \<le> p" "lo \<le> hi \<Longrightarrow> lowered p hi lo \<le> raised p hi"
  by (auto simp: raised_def lowered_def)

lemma marks_fields:
  "s_CurrentPrice (day_marks s) = s_CurrentPrice s" "s_CurrentPrice (period_marks s) = s_CurrentPrice s"
  "s_CurrentPrice (all_time_marks s) = s_CurrentPrice s" "s_Id (day_marks s) = s_Id s"
  "s_Id (period_marks s) = s_Id s" "s_Id (all_time_marks s) = s_Id s"
  "s_RealAvgPrice (day_marks s) = s_RealAvgPrice s" "s_RealAvgPrice (period_marks s) = s_RealAvgPrice s"
  "s_RealAvgPrice (all_time_marks s) = s_RealAvgPrice s" "s_LastTradePrice (day_marks s) = s_LastTradePrice s"
  "s_LastTradePrice (period_marks s) = s_LastTradePrice s" "s_LastTradePrice (all_time_marks s) = s_LastTradePrice s"
  "s_high (day_marks s) = s_high s" "s_low (day_marks s) = s_low s"
  "s_AllTimeHigh (day_marks s) = s_AllTimeHigh s" "s_AllTimeLow (day_marks s) = s_AllTimeLow s"
  "s_DayHigh (period_marks s) = s_DayHigh s" "s_DayLow (period_marks s) = s_DayLow s"
  "s_AllTimeHigh (period_marks s) = s_AllTimeHigh s" "s_AllTimeLow (period_marks s) = s_AllTimeLow s"
  "s_DayHigh (all_time_marks s) = s_DayHigh s" "s_DayLow (all_time_marks s) = s_DayLow s"
  "s_high (all_time_marks s) = s_high s" "s_low (all_time_marks s) = s_low s"
  by (simp_all add: day_marks_def period_marks_def all_time_marks_def Let_def)

lemma marks_set:
  "s_DayHigh (day_marks s) = raised (s_CurrentPrice s) (s_DayHigh s)"
  "s_DayLow (day_marks s) = lowered (s_CurrentPrice s) (s_DayHigh s) (s_DayLow s)"
  "s_high (period_marks s) = raised (s_CurrentPrice s) (s_high s)"
  "s_low (period_marks s) = lowered (s_CurrentPrice s) (s_high s) (s_low s)"
  "s_AllTimeHigh (all_time_marks s) = raised (s_CurrentPrice s) (s_AllTimeHigh s)"
  "s_AllTimeLow (all_time_marks s) = lowered (s_CurrentPrice s) (s_AllTimeHigh s) (s_AllTimeLow s)"
  by (simp_all add: day_marks_def period_marks_def all_time_marks_def raised_def lowered_def Let_def)

lemma price_marks_fields [simp]:
  "s_CurrentPrice (price_marks s) = s_CurrentPrice s" "s_Id (price_marks s) = s_Id s"
  "s_RealAvgPrice (price_marks s) = s_RealAvgPrice s" "s_LastTradePrice (price_marks s) = s_LastTradePrice s"
  by (simp_all add: price_marks_def Let_def marks_fields)

lemma within_price_marks: "marks_ok s \<Longrightarrow> within_marks (price_marks s) \<and> marks_ok (price_marks s)"
  by (simp add: marks_ok_def within_marks_def price_marks_def Let_def marks_fields marks_set lowered_raised)

lemma UpdateStockPrice_cases:
  assumes run: "UpdateStockPrice i p q w = (e, w')" and s: "allStocks w i = Some s" and id: "s_Id s = i"
  defines "avg' \<equiv> fadd (avg_of w i) (stockPriceChange (s\<lparr>s_LastTradePrice := p, s_UpdatedAt := now w\<rparr>) p q (avg_of w i))"
  obtains (Saved) s' where "e = None" "allStocks w' = (allStocks w)(i \<mapsto> s')"
      "s' = price_marks (s\<lparr>s_LastTradePrice := p, s_UpdatedAt := now w,
              s_CurrentPrice := u64_of_f avg', s_RealAvgPrice := avg'\<rparr>)"
      "avgLastPrice w' = (avgLastPrice w)(i \<mapsto> avg')" "db w' = save_stock s' (db w)"
  | (Failed) "e = Some DbError" "allStocks w' = allStocks w"
      "avgLastPrice w' = (avgLastPrice w)(i \<mapsto> avg')" "db w' = db w"
proof -
  let ?w1 = "w\<lparr>avgLastPrice := (avgLastPrice w)(i \<mapsto> avg')\<rparr>"
  let ?s2 = "price_marks (s\<lparr>s_LastTradePrice := p, s_UpdatedAt := now w,
              s_CurrentPrice := u64_of_f avg', s_RealAvgPrice := avg'\<rparr>)"
  obtain ok w2 where c: "db_ok (set_stock i ?s2 ?w1) = (ok, w2)" by fastforce
  have av: "avg_of ?w1 i = avg'" by (simp add: avg_of_def)
  have r: "(e, w') = (if ok then (None, w2\<lparr>db := save_stock ?s2 (db w2)\<rparr>) else (Some DbError, set_stock i s w2))"
    using run s id c av by (cases ok) (simp_all add: UpdateStockPrice_def Let_def avg'_def)
  note f = db_ok_same [OF c]
  show ?thesis
  proof (cases ok)
    case True
    then show ?thesis using r f by (intro Saved [of ?s2]) (auto simp: same_mem_def ledger_simps)
  next
    case False
    then show ?thesis using r f s by (intro Failed) (auto simp: same_mem_def ledger_simps)
  qed
qed

text \<open>What else the price update leaves alone.\<close>

lemma UpdateStockPrice_frame:
  "UpdateStockPrice i p q w = (e, w') \<Longrightarrow>
   askObj w' = askObj w \<and> bidObj w' = bidObj w \<and> users w' = users w \<and> asksMap w' = asksMap w \<and>
   bidsMap w' = bidsMap w \<and> dom (allStocks w') = dom (allStocks w) \<and> now w' = now w \<and>
   (\<forall>j. j \<noteq> i \<longrightarrow> allStocks w' j = allStocks w j) \<and>
   (db w' = db w \<or> (\<exists>s. db w' = save_stock s (db w)))"
proof -
  assume run: "UpdateStockPrice i p q w = (e, w')"
  show ?thesis
  proof (cases "allStocks w i")
    case None
    then show ?thesis using run by (auto simp: UpdateStockPrice_def)
  next
    case (Some s)
    then obtain s2 avgs ok w2 where c: "db_ok (set_stock i s2 (w\<lparr>avgLastPrice := avgs\<rparr>)) = (ok, w2)"
      and r: "w' = w2\<lparr>db := save_stock s2 (db w2)\<rparr> \<or> w' = set_stock i s w2"
      using run by (fastforce simp: UpdateStockPrice_def Let_def split: prod.splits if_splits)
    have "i \<in> dom (allStocks w)" using Some by blast
    then show ?thesis using r db_ok_same [OF c]
      by (elim disjE) (auto simp: same_mem_def ledger_simps insert_absorb)
  qed
qed

section \<open>Facts about loading and the end of the day\<close>

lemma load_stocks_simps:
  "allStocks (load_stocks ss w) =
     (\<lambda>i. case row s_Id i (rev ss) of Some s \<Rightarrow> Some (loaded_stock s) | None \<Rightarrow> allStocks w i)"
  "avgLastPrice (load_stocks ss w) =
     (\<lambda>i. case row s_Id i (rev ss) of Some s \<Rightarrow> Some (s_RealAvgPrice s) | None \<Rightarrow> avgLastPrice w i)"
  "users (load_stocks ss w) = users w" "db (load_stocks ss w) = db w"
  by (induction ss arbitrary: w) (auto simp: row_append fun_eq_iff split: option.splits)

end
