(* ===== verification/Exchange.thy ===== *)
theory Exchange
  imports Tax Stocks
begin

text \<open>
  Trading with the exchange and with the bank: \<^verbatim>\<open>PerformBuyFromExchangeTransaction\<close> and
  \<^verbatim>\<open>PerformMortgageTransaction\<close> of \<^verbatim>\<open>models/User.go\<close>, and \<^verbatim>\<open>models/MortgageDetail.go\<close>.

  A panic is \<open>None\<close>. The errors of the rollback helpers, formatted texts in Go, are \<open>DbError\<close>.
\<close>

section \<open>Buying from the exchange\<close>

definition buy_ops :: "summary \<Rightarrow> transaction \<Rightarrow> transaction option \<Rightarrow> user \<Rightarrow> stock \<Rightarrow> txop list" where
  "buy_ops x tr taxTr u s =
     [save_summary x, tx_insert (insert_tx tr)] @
     (case taxTr of None \<Rightarrow> [] | Some tt \<Rightarrow> [tx_insert (insert_tx tt)]) @
     [tx_save (save_user u), tx_save (save_stock s)]"

text \<open>
  The purchase itself: memory first, then the transaction, and the old values again when it
  fails. The id of the returned transaction is the key it was inserted under.
\<close>

definition buy_commit ::
  "u32 \<Rightarrow> u32 \<Rightarrow> stock \<Rightarrow> u64 \<Rightarrow> world \<Rightarrow> (go_error + transaction) \<times> world" where
  "buy_commit i stockId s removed w =
     (let price = s_CurrentPrice s;
          tr = GetTransactionRef i stockId FromExchangeTransaction 0 removed price 0 (- (price * removed)) (now w);
          oldCash = u_Cash (usr w i);
          u1 = (usr w i)\<lparr>u_Cash := u_Cash (usr w i) + t_Total tr\<rparr>;
          s1 = s\<lparr>s_StocksInExchange := s_StocksInExchange s - removed,
                 s_StocksInMarket := s_StocksInMarket s + removed, s_UpdatedAt := now w\<rparr>;
          w1 = set_stock stockId s1 (set_user i u1 w);
          ((x, taxTr), w2) = getTaxForBiddingUser stockId removed price i w1 (db w1);
          (ok, w3) = tx_run (buy_ops x tr taxTr (usr w2 i) s1) w2
      in if ok then (Inr (tr\<lparr>t_Id := nextId w2 + (if ts_Id x = 0 then 1 else 0)\<rparr>), w3)
         else (Inl DbError,
               set_stock stockId (s1\<lparr>s_StocksInExchange := s_StocksInExchange s,
                   s_StocksInMarket := s_StocksInMarket s, s_UpdatedAt := s_UpdatedAt s\<rparr>)
                 (set_user i ((usr w3 i)\<lparr>u_Cash := oldCash\<rparr>) w3)))"

definition PerformBuyFromExchangeTransaction ::
  "u32 \<Rightarrow> u32 \<Rightarrow> u64 \<Rightarrow> world \<Rightarrow> ((go_error + transaction) \<times> world) option" where
  "PerformBuyFromExchangeTransaction i stockId stockQuantity w =
     do { bankrupt \<leftarrow> IsStockBankrupt stockId w;
          if bankrupt then Some (Inl StockBankruptError, w)
          else if stockQuantity > 30 then Some (Inl BuyLimitExceededError, w)
          else let (ue, w1) = getUserExclusively i w in
            (case ue of
               Some e \<Rightarrow> Some (Inl e, w1)
             | None \<Rightarrow>
                 do { s \<leftarrow> allStocks w1 stockId;
                      let removed = (if stockQuantity > s_StocksInExchange s then s_StocksInExchange s else stockQuantity);
                      Some (if removed = 0 then (Inl (NotEnoughStocksError 0), w1)
                            else if s_CurrentPrice s * removed > u_Cash (usr w1 i) then (Inl NotEnoughCashError, w1)
                            else buy_commit i stockId s removed w1) }) }"

section \<open>Mortgages\<close>

definition is_mortgage :: "u32 \<Rightarrow> u32 \<Rightarrow> u64 \<Rightarrow> mortgage \<Rightarrow> bool" where
  "is_mortgage i stockId price m \<longleftrightarrow> m_userId m = i \<and> m_stockId m = stockId \<and> m_mortgagePrice m = price"

definition getStocksInBank :: "u32 \<Rightarrow> u32 \<Rightarrow> u64 \<Rightarrow> world \<times> tables \<Rightarrow> (go_error + i64) \<times> world" where
  "getStocksInBank i stockId price = (\<lambda>(w, t).
     let (ok, w1) = db_ok w
     in if \<not> ok then (Inl DbError, w1)
        else (case find (is_mortgage i stockId price) (Mortgages t) of
                None \<Rightarrow> (Inl InvalidRetrievePriceError, w1)
              | Some m \<Rightarrow> (Inr (m_stocksInBank m), w1)))"

definition insert_mortgage :: "mortgage \<Rightarrow> tables \<Rightarrow> tables" where
  "insert_mortgage m t = t\<lparr>Mortgages := Mortgages t @ [m]\<rparr>"

definition update_mortgage :: "u32 \<Rightarrow> u32 \<Rightarrow> u64 \<Rightarrow> i64 \<Rightarrow> tables \<Rightarrow> tables" where
  "update_mortgage i stockId price q t = t\<lparr>Mortgages :=
     map (\<lambda>m. if is_mortgage i stockId price m then m\<lparr>m_stocksInBank := q\<rparr> else m) (Mortgages t)\<rparr>"

definition delete_mortgage :: "u32 \<Rightarrow> u32 \<Rightarrow> u64 \<Rightarrow> tables \<Rightarrow> tables" where
  "delete_mortgage i stockId price t = t\<lparr>Mortgages :=
     filter (\<lambda>m. \<not> is_mortgage i stockId price m) (Mortgages t)\<rparr>"

definition mortgageStocksAction ::
  "user \<Rightarrow> u32 \<Rightarrow> i64 \<Rightarrow> u64 \<Rightarrow> world \<times> tables \<Rightarrow> (go_error + i64) \<times> world \<times> tables" where
  "mortgageStocksAction u stockId stockQuantity mortgagePrice = (\<lambda>(w, t).
     let (so, w1) = getSingleStockCount u stockId w in
     (case so of
        Inl e \<Rightarrow> (Inl e, w1, t)
      | Inr stockOwned \<Rightarrow>
          if s_less stockOwned stockQuantity then (Inl (NotEnoughStocksError 0), w1, t)
          else let (sb, w2) = getStocksInBank (u_Id u) stockId mortgagePrice (w1, t) in
            if (case sb of Inl e \<Rightarrow> e \<noteq> InvalidRetrievePriceError | Inr _ \<Rightarrow> False) then (Inl DbError, w2, t)
            else
              let stocksInBank = (case sb of Inr q \<Rightarrow> q | Inl _ \<Rightarrow> 0);
                  (ok, w3, t3) =
                    (if stocksInBank = 0
                     then tx_save (insert_mortgage \<lparr>m_userId = u_Id u, m_stockId = stockId,
                            m_stocksInBank = stockQuantity, m_mortgagePrice = mortgagePrice\<rparr>) (w2, t)
                     else tx_save (update_mortgage (u_Id u) stockId mortgagePrice (stocksInBank + stockQuantity)) (w2, t))
              in (if ok then Inr (s_div (mortgagePrice * stockQuantity * 80) 100) else Inl DbError, w3, t3)))"

definition retrieveStocksAction ::
  "u32 \<Rightarrow> u32 \<Rightarrow> i64 \<Rightarrow> u64 \<Rightarrow> u64 \<Rightarrow> world \<times> tables \<Rightarrow> (go_error + i64) \<times> world \<times> tables" where
  "retrieveStocksAction i stockId stockQuantity userCash retrievePrice = (\<lambda>(w, t).
     let (sb, w1) = getStocksInBank i stockId retrievePrice (w, t) in
     (case sb of
        Inl e \<Rightarrow> (Inl e, w1, t)
      | Inr stocksInBank \<Rightarrow>
          if s_less userCash (stockQuantity * retrievePrice) then (Inl NotEnoughCashError, w1, t)
          else if s_less stockQuantity stocksInBank \<or> stockQuantity = stocksInBank
          then let (ok, w2, t2) =
                 tx_save (if s_less stockQuantity stocksInBank
                          then update_mortgage i stockId retrievePrice (stocksInBank - stockQuantity)
                          else delete_mortgage i stockId retrievePrice) (w1, t)
               in (if ok then Inr (s_div (- retrievePrice * stockQuantity * 90) 100) else Inl DbError, w2, t2)
          else (Inl (NotEnoughStocksError 0), w1, t)))"

text \<open>What \<^verbatim>\<open>PerformMortgageTransaction\<close> does once the action has fixed the amount.\<close>

definition mortgage_commit ::
  "u32 \<Rightarrow> u32 \<Rightarrow> i64 \<Rightarrow> u64 \<Rightarrow> i64 \<Rightarrow> world \<times> tables \<Rightarrow> (go_error + transaction) \<times> world" where
  "mortgage_commit i stockId stockQuantity price trTotal = (\<lambda>(w, t).
     let tr = GetTransactionRef i stockId MortgageTransaction 0 stockQuantity price 0 trTotal (now w);
         oldCash = u_Cash (usr w i);
         u1 = (usr w i)\<lparr>u_Cash := u_Cash (usr w i) + trTotal\<rparr>;
         (ok, w1, t1) = tx_seq [tx_insert (insert_tx tr), tx_save (save_user u1)] (set_user i u1 w, t);
         (ok2, w2) = (if ok then db_ok w1 else (False, w1))
     in if ok2 then (Inr (tr\<lparr>t_Id := nextId w\<rparr>), w2\<lparr>db := t1\<rparr>)
        else (Inl DbError, set_user i (u1\<lparr>u_Cash := oldCash\<rparr>) w2))"

definition PerformMortgageTransaction ::
  "u32 \<Rightarrow> u32 \<Rightarrow> i64 \<Rightarrow> u64 \<Rightarrow> world \<Rightarrow> ((go_error + transaction) \<times> world) option" where
  "PerformMortgageTransaction i stockId stockQuantity retrievePrice w =
     do { bankrupt \<leftarrow> IsStockBankrupt stockId w;
          if bankrupt then Some (Inl StockBankruptError, w)
          else let (ue, w1) = getUserExclusively i w in
            (case ue of
               Some e \<Rightarrow> Some (Inl e, w1)
             | None \<Rightarrow>
                 do { s \<leftarrow> allStocks w1 stockId;
                      let u = usr w1 i;
                      let price = (if s_le 0 stockQuantity then retrievePrice else s_CurrentPrice s);
                      let (r, w2, t2) =
                        (if s_le 0 stockQuantity
                         then retrieveStocksAction (u_Id u) stockId stockQuantity (u_Cash u) retrievePrice (w1, db w1)
                         else mortgageStocksAction u stockId (- stockQuantity) (s_CurrentPrice s) (w1, db w1));
                      Some (case r of
                              Inl e \<Rightarrow> (Inl e, w2)
                            | Inr trTotal \<Rightarrow> mortgage_commit i stockId stockQuantity price trTotal (w2, t2)) }) }"

end
