(* ===== verification/Short_Sell.thy ===== *)
theory Short_Sell
  imports Ledger
begin

text \<open>
  Short selling: \<^verbatim>\<open>models/ShortSell.go\<close>.

  The bank holds, per stock, the number of stocks that may still be lent; a lend row records
  stocks lent to a user until it is squared off at the end of the day. The bank is read
  through \<^verbatim>\<open>getDB\<close>, which sees the committed tables and not those of the open transaction.
  \<open>DbError\<close> stands for the error of whichever call of a transaction failed.
\<close>

section \<open>The bank\<close>

definition getAvailableLendStocks :: "u32 \<Rightarrow> world \<Rightarrow> (go_error + u32) \<times> world" where
  "getAvailableLendStocks stockId w =
     (let (ok, w1) = db_ok w
      in if \<not> ok then (Inl DbError, w1)
         else (case row ssb_StockId stockId (ShortSellBank (db w1)) of
                 None \<Rightarrow> (Inl RecordNotFound, w1)
               | Some b \<Rightarrow> (Inr (ssb_AvailableStocks b), w1)))"

definition save_bank :: "bank \<Rightarrow> tables \<Rightarrow> tables" where
  "save_bank b t = t\<lparr>ShortSellBank := upsert ssb_StockId b (ShortSellBank t)\<rparr>"

definition updateShortSellBank :: "u32 \<Rightarrow> u32 \<Rightarrow> txop" where
  "updateShortSellBank stockId stockQuantity = (\<lambda>(w, t).
     let (r, w1) = getAvailableLendStocks stockId w
     in (case r of
           Inl e \<Rightarrow> (False, w1, t)
         | Inr availableStocks \<Rightarrow>
             tx_save (save_bank \<lparr>ssb_StockId = stockId, ssb_AvailableStocks = availableStocks + stockQuantity\<rparr>)
               (w1, t)))"

section \<open>Lends\<close>

definition insert_lend :: "lend \<Rightarrow> u32 \<Rightarrow> tables \<Rightarrow> tables" where
  "insert_lend l i t = t\<lparr>ShortSellLends := ShortSellLends t @ [l\<lparr>sl_Id := i\<rparr>]\<rparr>"

definition save_lend :: "lend \<Rightarrow> tables \<Rightarrow> tables" where
  "save_lend l t = t\<lparr>ShortSellLends := upsert sl_Id l (ShortSellLends t)\<rparr>"

definition createShortSellLend :: "u32 \<Rightarrow> u32 \<Rightarrow> u32 \<Rightarrow> txop" where
  "createShortSellLend stockId userId stockQuantity =
     tx_insert (insert_lend \<lparr>sl_Id = 0, sl_StockId = stockId, sl_UserId = userId,
       sl_StockQuantity = stockQuantity, sl_IsSquaredOff = False\<rparr>)"

definition saveShortSellLendTransaction :: "transaction \<Rightarrow> txop" where
  "saveShortSellLendTransaction tr = tx_seq
     [updateShortSellBank (t_StockId tr) (- ucast (t_StockQuantity tr)),
      tx_insert (insert_tx tr),
      createShortSellLend (t_StockId tr) (t_UserId tr) (ucast (t_StockQuantity tr))]"

definition getUserShortSellStocks :: "u32 \<Rightarrow> u32 \<Rightarrow> world \<Rightarrow> (go_error + u32) \<times> world" where
  "getUserShortSellStocks stockId userId w =
     (let (ok, w1) = db_ok w
      in if \<not> ok then (Inl DbError, w1)
         else (Inr (sum_list (map sl_StockQuantity
                 (filter (\<lambda>l. \<not> sl_IsSquaredOff l \<and> sl_StockId l = stockId \<and> sl_UserId l = userId)
                   (ShortSellLends (db w1))))), w1))"

section \<open>Squaring off\<close>

fun square_off :: "lend list \<Rightarrow> world \<Rightarrow> (go_error option \<times> world) option" where
  "square_off [] w = Some (None, w)"
| "square_off (l # ls) w =
     (case allStocks w (sl_StockId l) of
        None \<Rightarrow> None
      | Some s \<Rightarrow>
          (let tr = GetTransactionRef (sl_UserId l) (sl_StockId l) ShortSellTransaction 0
                      (- ucast (sl_StockQuantity l)) (s_CurrentPrice s) 0 0 (now w);
               (ok, w1) = tx_run
                 [tx_insert (insert_tx tr),
                  tx_save (save_lend (l\<lparr>sl_IsSquaredOff := True\<rparr>)),
                  updateShortSellBank (sl_StockId l) (sl_StockQuantity l)] w
           in if ok then square_off ls w1 else Some (Some DbError, w1)))"

definition SquareOffLends :: "world \<Rightarrow> (go_error option \<times> world) option" where
  "SquareOffLends w =
     (let (ok, w1) = db_ok w
      in if \<not> ok then Some (Some DbError, w1)
         else square_off (filter (\<lambda>l. \<not> sl_IsSquaredOff l) (ShortSellLends (db w1))) w1)"

section \<open>Conservation\<close>

text \<open>
  The stocks of the bank and those lent out and not squared off. Lending moves stocks from
  the first to the second and squaring off moves them back, so the total never changes.
\<close>

definition bank_available :: "u32 \<Rightarrow> tables \<Rightarrow> u32" where
  "bank_available sid t =
     (case row ssb_StockId sid (ShortSellBank t) of None \<Rightarrow> 0 | Some b \<Rightarrow> ssb_AvailableStocks b)"

definition lent_out :: "u32 \<Rightarrow> lend list \<Rightarrow> u32" where
  "lent_out sid ls = sum_list (map sl_StockQuantity (filter (\<lambda>l. \<not> sl_IsSquaredOff l \<and> sl_StockId l = sid) ls))"

definition bank_total :: "u32 \<Rightarrow> tables \<Rightarrow> u32" where
  "bank_total sid t = bank_available sid t + lent_out sid (ShortSellLends t)"

lemma getAvailable_frame:
  assumes "getAvailableLendStocks sid w = (r, w')"
  shows "same_mem w w' \<and> db w' = db w" "r = Inr a \<Longrightarrow> \<exists>b. row ssb_StockId sid (ShortSellBank (db w)) = Some b \<and> ssb_AvailableStocks b = a"
    "outcomes w = [] \<Longrightarrow> w' = w"
    "outcomes w = [] \<Longrightarrow> row ssb_StockId sid (ShortSellBank (db w)) = Some b \<Longrightarrow> r = Inr (ssb_AvailableStocks b)"
proof -
  obtain ok w1 where c: "db_ok w = (ok, w1)" by fastforce
  have r: "w' = w1" using assms c by (auto simp: getAvailableLendStocks_def split: if_splits option.splits)
  show "same_mem w w' \<and> db w' = db w" using r db_ok_same [OF c] by simp
  then show "r = Inr a \<Longrightarrow> \<exists>b. row ssb_StockId sid (ShortSellBank (db w)) = Some b \<and> ssb_AvailableStocks b = a"
    using assms c r by (auto simp: getAvailableLendStocks_def split: if_splits option.splits)
  show "outcomes w = [] \<Longrightarrow> w' = w"
    "outcomes w = [] \<Longrightarrow> row ssb_StockId sid (ShortSellBank (db w)) = Some b \<Longrightarrow> r = Inr (ssb_AvailableStocks b)"
    using assms c r by (auto simp: getAvailableLendStocks_def)
qed

lemma quiet_updateShortSellBank [simp]: "quiet (updateShortSellBank sid q)"
proof (unfold quiet_def, intro allI impI)
  fix w t ok w' t'
  assume u: "updateShortSellBank sid q (w, t) = (ok, w', t')"
  obtain r w1 where g: "getAvailableLendStocks sid w = (r, w1)" by fastforce
  note f = getAvailable_frame(1) [OF g]
  show "same_mem w w' \<and> db w' = db w"
  proof (cases r)
    case (Inl e)
    then show ?thesis using u g f by (simp add: updateShortSellBank_def)
  next
    case (Inr a)
    then have "tx_save (save_bank \<lparr>ssb_StockId = sid, ssb_AvailableStocks = a + q\<rparr>) (w1, t) = (ok, w', t')"
      using u g by (simp add: updateShortSellBank_def)
    from quietD [OF quiet_save this] show ?thesis using f same_mem_trans by auto
  qed
qed

lemma quiet_saveShortSellLend [simp]: "quiet (saveShortSellLendTransaction tr)"
proof (unfold quiet_def, intro allI impI)
  fix w t ok w' t'
  assume "saveShortSellLendTransaction tr (w, t) = (ok, w', t')"
  from quiet_seq [OF _ this [unfolded saveShortSellLendTransaction_def]]
  show "same_mem w w' \<and> db w' = db w" by (simp add: createShortSellLend_def)
qed

lemma bank_simps [ledger_simps]:
  "ShortSellBank (insert_tx tr i t) = ShortSellBank t" "ShortSellBank (insert_lend l i t) = ShortSellBank t"
  "ShortSellBank (save_lend l t) = ShortSellBank t"
  "ShortSellLends (insert_lend l i t) = ShortSellLends t @ [l\<lparr>sl_Id := i\<rparr>]"
  "ShortSellLends (save_lend l t) = upsert sl_Id l (ShortSellLends t)"
  "ShortSellLends (insert_tx tr i t) = ShortSellLends t" "ShortSellLends (save_bank b t) = ShortSellLends t"
  "bank_available sid (save_bank b t) = (if sid = ssb_StockId b then ssb_AvailableStocks b else bank_available sid t)"
  "bank_available sid (insert_tx tr i t) = bank_available sid t"
  "bank_available sid (insert_lend l i t) = bank_available sid t"
  "bank_available sid (save_lend l t) = bank_available sid t"
  by (simp_all add: insert_tx_def insert_lend_def save_lend_def save_bank_def bank_available_def)

lemma lent_out_append [simp]: "lent_out sid (xs @ ys) = lent_out sid xs + lent_out sid ys"
  by (simp add: lent_out_def)

lemma lent_out_Cons [simp]:
  "lent_out sid (l # ls) =
   (if \<not> sl_IsSquaredOff l \<and> sl_StockId l = sid then sl_StockQuantity l else 0) + lent_out sid ls"
  by (simp add: lent_out_def)

lemma lent_out_Nil [simp]: "lent_out sid [] = 0"
  by (simp add: lent_out_def)

lemma updateShortSellBank_ok:
  assumes "updateShortSellBank sid q (w, t) = (True, w', t')"
    and "ShortSellBank t = ShortSellBank (db w)"
  shows "t' = save_bank \<lparr>ssb_StockId = sid, ssb_AvailableStocks = bank_available sid t + q\<rparr> t"
proof -
  obtain r w1 where g: "getAvailableLendStocks sid w = (r, w1)" by fastforce
  then obtain a where r: "r = Inr a" using assms(1) by (cases r) (auto simp: updateShortSellBank_def)
  then have "a = bank_available sid t"
    using getAvailable_frame(2) [OF g r] assms(2) by (auto simp: bank_available_def)
  then show ?thesis using assms(1) g r by (auto simp: updateShortSellBank_def tx_save_def Let_def split: prod.splits)
qed

text \<open>A successful lending keeps the total of every stock.\<close>

lemma saveShortSellLend_total:
  assumes run: "saveShortSellLendTransaction tr (w, t) = (True, w', t')"
    and bank: "ShortSellBank t = ShortSellBank (db w)"
  shows "bank_total sid t' = bank_total sid t"
    "sid = t_StockId tr \<Longrightarrow> bank_available sid t' = bank_available sid t - ucast (t_StockQuantity tr)"
proof -
  let ?q = "ucast (t_StockQuantity tr) :: u32"
  obtain ok1 w1 t1 where s1: "updateShortSellBank (t_StockId tr) (- ?q) (w, t) = (ok1, w1, t1)"
    by (cases "updateShortSellBank (t_StockId tr) (- ?q) (w, t)")
  have ok1: "ok1" using run s1 by (cases ok1) (simp_all add: saveShortSellLendTransaction_def)
  then have t1: "t1 = save_bank \<lparr>ssb_StockId = t_StockId tr, ssb_AvailableStocks = bank_available (t_StockId tr) t - ?q\<rparr> t"
    using updateShortSellBank_ok [of _ "- ?q"] s1 bank by auto
  obtain i j where "t' = insert_lend \<lparr>sl_Id = 0, sl_StockId = t_StockId tr, sl_UserId = t_UserId tr,
       sl_StockQuantity = ?q, sl_IsSquaredOff = False\<rparr> i (insert_tx tr j t1)"
    using run s1 ok1 by (auto simp: saveShortSellLendTransaction_def createShortSellLend_def tx_insert_def
        Let_def split: prod.splits bool.splits if_splits)
  then show "bank_total sid t' = bank_total sid t"
    "sid = t_StockId tr \<Longrightarrow> bank_available sid t' = bank_available sid t - ucast (t_StockQuantity tr)"
    using t1 by (auto simp: bank_total_def ledger_simps)
qed

text \<open>Squaring off a lend in the table, by its key.\<close>

lemma lent_out_square:
  assumes "distinct (map sl_Id ls)" "l \<in> set ls" "\<not> sl_IsSquaredOff l"
  shows "lent_out sid ls = lent_out sid (upsert sl_Id (l\<lparr>sl_IsSquaredOff := True\<rparr>) ls) +
    (if sl_StockId l = sid then sl_StockQuantity l else 0)"
proof -
  let ?l' = "l\<lparr>sl_IsSquaredOff := True\<rparr>"
  have u: "upsert sl_Id ?l' ls = map (\<lambda>y. if sl_Id y = sl_Id l then ?l' else y) ls"
    using assms(2) by (auto simp: upsert_def list_ex_iff)
  show ?thesis unfolding u using assms(1,2)
  proof (induction ls)
    case (Cons x xs)
    show ?case
    proof (cases "x = l")
      case True
      then have "map (\<lambda>y. if sl_Id y = sl_Id l then ?l' else y) xs = xs"
        using Cons.prems(1) by (intro map_idI) (auto simp: image_iff)
      then show ?thesis using True assms(3) by simp
    next
      case False
      then have "l \<in> set xs" "sl_Id x \<noteq> sl_Id l" using Cons.prems by auto
      then show ?thesis using Cons by simp
    qed
  qed simp
qed

lemma upsert_lend_distinct:
  assumes "distinct (map sl_Id ls)" "l \<in> set ls"
  shows "map sl_Id (upsert sl_Id (l\<lparr>sl_IsSquaredOff := True\<rparr>) ls) = map sl_Id ls"
  using assms(2) by (auto simp: upsert_def list_ex_iff)

text \<open>One lend squared off: the commit keeps the total of each stock.\<close>

lemma square_off_tx:
  assumes run: "tx_run [tx_insert (insert_tx tr), tx_save (save_lend (l\<lparr>sl_IsSquaredOff := True\<rparr>)),
      updateShortSellBank (sl_StockId l) (sl_StockQuantity l)] w = (True, w')"
    and ids: "distinct (map sl_Id (ShortSellLends (db w)))"
    and l: "l \<in> set (ShortSellLends (db w))" "\<not> sl_IsSquaredOff l"
  shows "bank_total sid (db w') = bank_total sid (db w)"
    "ShortSellLends (db w') = upsert sl_Id (l\<lparr>sl_IsSquaredOff := True\<rparr>) (ShortSellLends (db w))"
    "Transactions (db w') = Transactions (db w) @ [tr\<lparr>t_Id := nextId w\<rparr>]"
proof -
  let ?l' = "l\<lparr>sl_IsSquaredOff := True\<rparr>"
  obtain ok1 w1 t1 where s1: "tx_insert (insert_tx tr) (w, db w) = (ok1, w1, t1)"
    by (cases "tx_insert (insert_tx tr) (w, db w)")
  have q1: "db w1 = db w" using quietD [OF quiet_insert s1] by simp
  have k1: "ok1" using run s1 by (cases ok1) (simp_all add: tx_run_def)
  then have t1: "t1 = insert_tx tr (nextId w) (db w)"
    using s1 by (auto simp: tx_insert_def Let_def split: prod.splits if_splits)
  obtain ok2 w2 t2 where s2: "tx_save (save_lend ?l') (w1, t1) = (ok2, w2, t2)"
    by (cases "tx_save (save_lend ?l') (w1, t1)")
  have q2: "db w2 = db w" using quietD [OF quiet_save s2] q1 by simp
  have k2: "ok2" using run s1 s2 k1 by (cases ok2) (simp_all add: tx_run_def)
  then have t2: "t2 = save_lend ?l' t1" using s2 by (auto simp: tx_save_def Let_def split: prod.splits)
  obtain ok3 w3 t3 where s3: "updateShortSellBank (sl_StockId l) (sl_StockQuantity l) (w2, t2) = (ok3, w3, t3)"
    by (cases "updateShortSellBank (sl_StockId l) (sl_StockQuantity l) (w2, t2)")
  have k3: "ok3" using run s1 s2 s3 k1 k2 by (cases ok3) (simp_all add: tx_run_def)
  have t3: "t3 = save_bank \<lparr>ssb_StockId = sl_StockId l,
      ssb_AvailableStocks = bank_available (sl_StockId l) t2 + sl_StockQuantity l\<rparr> t2"
    using updateShortSellBank_ok [of _ _ w2 t2 w3 t3] s3 k3 q2 t1 t2 by (simp add: ledger_simps)
  have d: "db w' = t3"
    using run s1 s2 s3 k1 k2 k3 by (auto simp: tx_run_def Let_def split: prod.splits if_splits)
  show "ShortSellLends (db w') = upsert sl_Id ?l' (ShortSellLends (db w))"
    by (simp add: d t3 t2 t1 ledger_simps)
  then show "bank_total sid (db w') = bank_total sid (db w)"
    using lent_out_square [OF ids l, of sid] by (auto simp: bank_total_def d t3 t2 t1 ledger_simps)
  show "Transactions (db w') = Transactions (db w) @ [tr\<lparr>t_Id := nextId w\<rparr>]"
    by (simp add: d t3 t2 t1 save_bank_def save_lend_def insert_tx_def)
qed

text \<open>Lends to square off: rows of the table, each once, none squared off yet.\<close>

definition pending_lends :: "lend list \<Rightarrow> tables \<Rightarrow> bool" where
  "pending_lends ls t \<longleftrightarrow> set ls \<subseteq> set (ShortSellLends t) \<and> distinct (map sl_Id ls) \<and>
     (\<forall>l \<in> set ls. \<not> sl_IsSquaredOff l)"

lemma pending_lends_step:
  assumes "pending_lends (l # ls) t" "distinct (map sl_Id (ShortSellLends t))"
    and "ShortSellLends t' = upsert sl_Id (l\<lparr>sl_IsSquaredOff := True\<rparr>) (ShortSellLends t)"
  shows "pending_lends ls t'" "distinct (map sl_Id (ShortSellLends t'))"
    "\<And>x. x \<in> set (ShortSellLends t') \<Longrightarrow> \<not> sl_IsSquaredOff x \<Longrightarrow> x \<noteq> l \<and> x \<in> set (ShortSellLends t)"
proof -
  have l: "l \<in> set (ShortSellLends t)" and nl: "\<forall>x \<in> set ls. sl_Id x \<noteq> sl_Id l"
    using assms(1) by (auto simp: pending_lends_def) (metis imageI)
  then have u: "ShortSellLends t' = map (\<lambda>y. if sl_Id y = sl_Id l then l\<lparr>sl_IsSquaredOff := True\<rparr> else y) (ShortSellLends t)"
    unfolding assms(3) by (auto simp: upsert_def list_ex_iff)
  have "set ls \<subseteq> set (ShortSellLends t')"
  proof
    fix x assume x: "x \<in> set ls"
    then have "x \<in> set (ShortSellLends t)" "sl_Id x \<noteq> sl_Id l" using assms(1) nl by (auto simp: pending_lends_def)
    then show "x \<in> set (ShortSellLends t')" unfolding u by (force simp: image_iff)
  qed
  then show "pending_lends ls t'" using assms(1) by (auto simp: pending_lends_def)
  show "distinct (map sl_Id (ShortSellLends t'))"
    unfolding assms(3) using upsert_lend_distinct [OF assms(2) l] assms(2) by simp
  show "x \<noteq> l \<and> x \<in> set (ShortSellLends t)" if "x \<in> set (ShortSellLends t')" "\<not> sl_IsSquaredOff x" for x
  proof -
    have "l\<lparr>sl_IsSquaredOff := True\<rparr> \<noteq> x" using that(2) by auto
    then have "x \<in> set (ShortSellLends t) \<and> sl_Id x \<noteq> sl_Id l" using that(1) unfolding u by auto
    then show ?thesis by blast
  qed
qed

lemma square_off_keeps_total:
  "square_off ls w = Some (e, w') \<Longrightarrow> pending_lends ls (db w) \<Longrightarrow>
   distinct (map sl_Id (ShortSellLends (db w))) \<Longrightarrow>
   bank_total sid (db w') = bank_total sid (db w) \<and>
   (e = None \<longrightarrow> (\<forall>x \<in> set (ShortSellLends (db w')). \<not> sl_IsSquaredOff x \<longrightarrow>
      x \<in> set (ShortSellLends (db w)) \<and> x \<notin> set ls))"
proof (induction ls arbitrary: w)
  case (Cons l ls)
  obtain s where s: "allStocks w (sl_StockId l) = Some s" using Cons.prems(1) by (auto split: option.splits)
  define tr where "tr = GetTransactionRef (sl_UserId l) (sl_StockId l) ShortSellTransaction 0
                      (- ucast (sl_StockQuantity l)) (s_CurrentPrice s) 0 0 (now w)"
  define ops where "ops = [tx_insert (insert_tx tr), tx_save (save_lend (l\<lparr>sl_IsSquaredOff := True\<rparr>)),
                  updateShortSellBank (sl_StockId l) (sl_StockQuantity l)]"
  obtain ok w1 where t: "tx_run ops w = (ok, w1)" by fastforce
  have r: "(if ok then square_off ls w1 else Some (Some DbError, w1)) = Some (e, w')"
    using Cons.prems(1) s t by (simp add: tr_def ops_def Let_def)
  show ?case
  proof (cases ok)
    case False
    have "db w1 = db w" by (rule tx_run_frame(2) [OF _ t]) (simp_all add: ops_def False)
    then show ?thesis using r False by auto
  next
    case True
    have l: "l \<in> set (ShortSellLends (db w))" "\<not> sl_IsSquaredOff l"
      using Cons.prems(2) by (auto simp: pending_lends_def)
    have t': "tx_run [tx_insert (insert_tx tr), tx_save (save_lend (l\<lparr>sl_IsSquaredOff := True\<rparr>)),
        updateShortSellBank (sl_StockId l) (sl_StockQuantity l)] w = (True, w1)"
      using t True by (simp add: ops_def)
    note tx = square_off_tx [OF t' Cons.prems(3) l]
    note st = pending_lends_step [OF Cons.prems(2,3) tx(2)]
    have "square_off ls w1 = Some (e, w')" using r True by simp
    from Cons.IH [OF this st(1,2)] show ?thesis using tx(1) st(3) by auto
  qed
qed (auto simp: pending_lends_def)

lemma SquareOffLends_ok:
  assumes run: "SquareOffLends w = Some (e, w')"
    and ids: "distinct (map sl_Id (ShortSellLends (db w)))"
  shows "bank_total sid (db w') = bank_total sid (db w)"
    "e = None \<Longrightarrow> lent_out sid (ShortSellLends (db w')) = 0"
    "e = None \<Longrightarrow> bank_available sid (db w') = bank_available sid (db w) + lent_out sid (ShortSellLends (db w))"
proof -
  obtain ok w1 where c: "db_ok w = (ok, w1)" by fastforce
  have d: "db w1 = db w" using db_ok_same [OF c] by simp
  let ?ls = "filter (\<lambda>l. \<not> sl_IsSquaredOff l) (ShortSellLends (db w))"
  have p: "pending_lends ?ls (db w1)"
    using ids unfolding pending_lends_def d by (simp add: distinct_map_filter)
  have "bank_total sid (db w') = bank_total sid (db w) \<and>
    (e = None \<longrightarrow> (\<forall>x \<in> set (ShortSellLends (db w')). sl_IsSquaredOff x))"
  proof (cases ok)
    case False
    then show ?thesis using run c d by (auto simp: SquareOffLends_def)
  next
    case True
    then have "square_off ?ls w1 = Some (e, w')" using run c d by (simp add: SquareOffLends_def)
    from square_off_keeps_total [OF this p, of sid] show ?thesis using ids d by auto
  qed
  then show t: "bank_total sid (db w') = bank_total sid (db w)"
    and "e = None \<Longrightarrow> lent_out sid (ShortSellLends (db w')) = 0"
    by (auto simp: lent_out_def)
  then show "e = None \<Longrightarrow> bank_available sid (db w') = bank_available sid (db w) + lent_out sid (ShortSellLends (db w))"
    by (simp add: bank_total_def)
qed

end
