(* ===== verification/Placing.thy ===== *)
theory Placing
  imports Accounts Short_Sell Order_Objects
begin

text \<open>
  Placing and cancelling orders: \<^verbatim>\<open>PlaceAskOrder\<close>, \<^verbatim>\<open>PlaceBidOrder\<close>, \<^verbatim>\<open>CancelOrder\<close> and their
  helpers in \<^verbatim>\<open>models/User.go\<close>.

  Placing an ask moves its stocks into the user's reserved stocks, placing a bid moves its
  price into the user's reserved cash; cancelling gives back what is not fulfilled. Both
  functions return the error of an outer variable from their rollback helper, which is nil
  there: a database failure is reported as order 0 without an error.
\<close>

section \<open>Checks before placing\<close>

definition order_price_check :: "order \<Rightarrow> world \<Rightarrow> go_error option option" where
  "order_price_check x w =
     do { bankrupt \<leftarrow> map_option s_IsBankrupt (allStocks w (o_StockId x));
          if bankrupt then Some (Some StockBankruptError)
          else if o_OrderType x = Limit
          then if o_Price x \<le> 10 then Some (Some MinimumPriceThresholdError)
               else do { currentPrice \<leftarrow> map_option s_CurrentPrice (allStocks w (o_StockId x));
                         let upperLimit = u64_of_f (fmul (fl64 (6 / 5)) (f_of_u64 currentPrice));
                         let lowerLimit = u64_of_f (fmul (fl64 (4 / 5)) (f_of_u64 currentPrice));
                         Some (if o_Price x > upperLimit \<or> o_Price x < lowerLimit
                               then Some (OrderPriceOutOfWindowError currentPrice) else None) }
          else Some None }"

definition size_ok :: "u64 \<Rightarrow> bool" where
  "size_ok q \<longleftrightarrow> \<not> (q > 50 \<or> q < 1)"

definition shortsellQty :: "i64 \<Rightarrow> u64 \<Rightarrow> i64" where
  "shortsellQty numStocks q = (if s_le 0 numStocks then - (numStocks - q) else q)"

text \<open>Check2 of \<^verbatim>\<open>PlaceAskOrder\<close>: what is sold short must be in the bank and within the limit of 20.\<close>

definition short_sell_check :: "order \<Rightarrow> i64 \<Rightarrow> world \<Rightarrow> go_error option \<times> world" where
  "short_sell_check x short w =
     (if \<not> s_less 0 short then (None, w)
      else let (av, w1) = getAvailableLendStocks (o_StockId x) w in
        (case av of
           Inl e \<Rightarrow> (Some e, w1)
         | Inr availableStocks \<Rightarrow>
             if s_less (ucast availableStocks) short then (Some (NotEnoughStocksError (ucast availableStocks)), w1)
             else let (ls, w2) = getUserShortSellStocks (o_StockId x) (o_UserId x) w1 in
               (case ls of
                  Inl e \<Rightarrow> (Some e, w2)
                | Inr lentStocks \<Rightarrow>
                    if lentStocks + ucast short > 20
                    then (Some (NotEnoughStocksError (20 - ucast lentStocks)), w2)
                    else (None, w2))))"

section \<open>Placing an ask\<close>

definition ask_order_ops :: "u32 \<Rightarrow> ref \<Rightarrow> u64 \<Rightarrow> i64 \<Rightarrow> u64 \<Rightarrow> world \<Rightarrow> txop list" where
  "ask_order_ops i r orderFee short currentPrice w =
     (let x = askObj w r; q = o_StockQuantity x; s = o_StockId x in
      [createAsk r,
       SubtractUserCash i orderFee,
       tx_insert (insert_tx (GetTransactionRef i s OrderFeeTransaction 0 0 0 0 (- orderFee) (now w)))] @
      (if s_less 0 short
       then [saveShortSellLendTransaction (GetTransactionRef i s ShortSellTransaction 0 short currentPrice 0 0 (now w))]
       else []) @
      [\<lambda>(w', t). savePlaceOrderTransaction (o_Id (askObj w' r))
         (GetTransactionRef i s PlaceOrderTransaction q (- q) 0 0 0 (now w)) True (w', t)])"

text \<open>The transaction of \<^verbatim>\<open>PlaceAskOrder\<close>, with its rollback helper.\<close>

definition PlaceAsk_commit ::
  "u32 \<Rightarrow> ref \<Rightarrow> u64 \<Rightarrow> i64 \<Rightarrow> u64 \<Rightarrow> world \<Rightarrow> (u32 \<times> go_error option) \<times> world" where
  "PlaceAsk_commit i r orderFee short currentPrice w =
     (let oldCash = u_Cash (usr w i);
          (ok, w1) = tx_run (ask_order_ops i r orderFee short currentPrice w) w
      in if ok then ((o_Id (askObj w1 r), None), w1)
         else ((0, None), set_user i ((usr w1 i)\<lparr>u_Cash := oldCash\<rparr>) w1))"

definition PlaceAsk_funds :: "u32 \<Rightarrow> ref \<Rightarrow> i64 \<Rightarrow> world \<Rightarrow> ((u32 \<times> go_error option) \<times> world) option" where
  "PlaceAsk_funds i r short w =
     (let x = askObj w r in
      do { orderPrice \<leftarrow> getOrderFeePrice (o_Price x) (o_StockId x) (o_OrderType x) w;
           let orderFee = getOrderFee (o_StockQuantity x) orderPrice;
           let cashLeft = u_Cash (usr w i) - orderFee;
           if s_less cashLeft 0 then Some ((0, Some NotEnoughCashError), w)
           else do { s \<leftarrow> allStocks w (o_StockId x);
                     Some (PlaceAsk_commit i r orderFee short (s_CurrentPrice s) w) } })"

definition PlaceAskOrder :: "u32 \<Rightarrow> ref \<Rightarrow> world \<Rightarrow> ((u32 \<times> go_error option) \<times> world) option" where
  "PlaceAskOrder i r w =
     (let x = askObj w r in
      do { pe \<leftarrow> order_price_check x w;
           (case pe of
              Some e \<Rightarrow> Some ((0, Some e), w)
            | None \<Rightarrow>
                (let (ue, w1) = getUserExclusively i w in
                 if ue \<noteq> None then Some ((0, ue), w1)
                 else if \<not> size_ok (o_StockQuantity x) then Some ((0, Some OrderStockLimitExceeded), w1)
                 else let (ns, w2) = getSingleStockCount (usr w1 i) (o_StockId x) w1 in
                   (case ns of
                      Inl e \<Rightarrow> Some ((0, Some e), w2)
                    | Inr numStocks \<Rightarrow>
                        (let short = shortsellQty numStocks (o_StockQuantity x);
                             (se, w3) = short_sell_check x short w2
                         in if se \<noteq> None then Some ((0, se), w3) else PlaceAsk_funds i r short w3)))) })"

section \<open>Placing a bid\<close>

definition bid_order_ops :: "u32 \<Rightarrow> ref \<Rightarrow> u64 \<Rightarrow> u64 \<Rightarrow> world \<Rightarrow> txop list" where
  "bid_order_ops i r orderFee reservedCash w =
     (let s = o_StockId (bidObj w r) in
      [createBid r,
       SubtractUserCash i orderFee,
       AddUserReservedCash i reservedCash,
       tx_insert (insert_tx (GetTransactionRef i s OrderFeeTransaction 0 0 0 0 (- orderFee) (now w))),
       SubtractUserCash i reservedCash,
       \<lambda>(w', t). savePlaceOrderTransaction (o_Id (bidObj w' r))
         (GetTransactionRef i s PlaceOrderTransaction 0 0 0 reservedCash (- reservedCash) (now w)) False (w', t)])"

definition PlaceBid_commit :: "u32 \<Rightarrow> ref \<Rightarrow> u64 \<Rightarrow> u64 \<Rightarrow> world \<Rightarrow> (u32 \<times> go_error option) \<times> world" where
  "PlaceBid_commit i r orderFee reservedCash w =
     (let oldCash = u_Cash (usr w i); oldReservedCash = u_ReservedCash (usr w i);
          (ok, w1) = tx_run (bid_order_ops i r orderFee reservedCash w) w
      in if ok then ((o_Id (bidObj w1 r), None), w1)
         else ((0, None), set_user i ((usr w1 i)\<lparr>u_Cash := oldCash, u_ReservedCash := oldReservedCash\<rparr>) w1))"

definition PlaceBidOrder :: "u32 \<Rightarrow> ref \<Rightarrow> world \<Rightarrow> ((u32 \<times> go_error option) \<times> world) option" where
  "PlaceBidOrder i r w =
     (let x = bidObj w r in
      do { pe \<leftarrow> order_price_check x w;
           (case pe of
              Some e \<Rightarrow> Some ((0, Some e), w)
            | None \<Rightarrow>
                (let (ue, w1) = getUserExclusively i w in
                 if ue \<noteq> None then Some ((0, ue), w1)
                 else if \<not> size_ok (o_StockQuantity x) then Some ((0, Some OrderStockLimitExceeded), w1)
                 else do { orderPrice \<leftarrow> getOrderFeePrice (o_Price x) (o_StockId x) (o_OrderType x) w1;
                           let orderFee = getOrderFee (o_StockQuantity x) orderPrice;
                           let reservedCash = o_StockQuantity x * orderPrice;
                           let cashLeft = u_Cash (usr w1 i) - (o_StockQuantity x * orderPrice + orderFee);
                           if s_less cashLeft 0 then Some ((0, Some NotEnoughCashError), w1)
                           else Some (PlaceBid_commit i r orderFee reservedCash w1) })) })"

section \<open>Cancelling\<close>

text \<open>
  The part of a reserve that belongs to a part of the order. Go's conversion of the quotient
  of an order of size 0, a NaN or an infinity, to \<^verbatim>\<open>int64\<close> gives the smallest integer on amd64.
\<close>

definition reserve_share :: "i64 \<Rightarrow> u64 \<Rightarrow> u64 \<Rightarrow> i64" where
  "reserve_share reserved part whole =
     (if whole = 0 then push_bit 63 1
      else i64_of_f (fdiv (fmul (f_of_i64 reserved) (f_of_u64 part)) (f_of_u64 whole)))"

definition saveAskCancelOrderTransaction :: "ref \<Rightarrow> u32 \<Rightarrow> txop" where
  "saveAskCancelOrderTransaction r i = (\<lambda>(w, t).
     let x = askObj w r in
     tx_insert (insert_tx (GetTransactionRef (u_Id (usr w i)) (o_StockId x) CancelOrderTransaction
       (- unfulfilled x) (unfulfilled x) 0 0 0 (now w))) (w, t))"

definition saveBidCancelOrderTransaction ::
  "ref \<Rightarrow> u32 \<Rightarrow> world \<times> tables \<Rightarrow> go_error option \<times> world \<times> tables" where
  "saveBidCancelOrderTransaction r i = (\<lambda>(w, t).
     let x = bidObj w r; (d, w1) = getPlaceOrderTransactionDetails (o_Id x) False w in
     (case d of
        Inl e \<Rightarrow> (Some e, w1, t)
      | Inr (reserved, _) \<Rightarrow>
          (let reservedCash = reserve_share reserved (unfulfilled x) (o_StockQuantity x);
               u = (usr w1 i)\<lparr>u_Cash := u_Cash (usr w1 i) + reservedCash,
                              u_ReservedCash := u_ReservedCash (usr w1 i) - reservedCash\<rparr>;
               tr = GetTransactionRef (u_Id u) (o_StockId x) CancelOrderTransaction 0 0 0
                      (- reservedCash) reservedCash (now w1);
               (ok, w2, t2) = tx_seq [tx_save (save_user u), tx_insert (insert_tx tr)] (set_user i u w1, t)
           in (if ok then None else Some DbError, w2, t2))))"

definition commit_tx :: "world \<times> tables \<Rightarrow> bool \<times> world" where
  "commit_tx = (\<lambda>(w, t). let (ok, w1) = db_ok w in (ok, if ok then w1\<lparr>db := t\<rparr> else w1))"

definition CancelAsk :: "u32 \<Rightarrow> u32 \<Rightarrow> world \<Rightarrow> (ref option \<times> go_error option) \<times> world" where
  "CancelAsk i orderId w =
     (let (r, w1) = getAsk orderId w in
      if o_UserId (askObj w1 r) \<noteq> i then ((None, Some InvalidOrderIDError), w1)
      else let (e, w2, t2) = Ask_Close r (w1, db w1) in
        if e \<noteq> None then ((None, e), w2)
        else let (ok, w3, t3) = saveAskCancelOrderTransaction r i (w2, t2) in
          if \<not> ok then ((None, Some DbError), w3)
          else let (ok, w4) = commit_tx (w3, t3) in
            if ok then ((Some r, None), w4) else ((None, Some DbError), w4))"

definition CancelBid :: "u32 \<Rightarrow> u32 \<Rightarrow> world \<Rightarrow> (ref option \<times> go_error option) \<times> world" where
  "CancelBid i orderId w =
     (let (r, w1) = getBid orderId w in
      if o_UserId (bidObj w1 r) \<noteq> i then ((None, Some InvalidOrderIDError), w1)
      else let (e, w2, t2) = Bid_Close r (w1, db w1) in
        if e \<noteq> None then ((None, e), w2)
        else
          let restore = (\<lambda>w'. set_user i ((usr w' i)\<lparr>u_Cash := u_Cash (usr w2 i),
                                                     u_ReservedCash := u_ReservedCash (usr w2 i)\<rparr>) w');
              (e3, w3, t3) = saveBidCancelOrderTransaction r i (w2, t2) in
          if e3 \<noteq> None then ((None, e3), restore w3)
          else let (ok, w4) = commit_tx (w3, t3) in
            if ok then ((Some r, None), w4) else ((None, Some DbError), restore w4))"

definition CancelOrder ::
  "u32 \<Rightarrow> u32 \<Rightarrow> bool \<Rightarrow> world \<Rightarrow> (ref option \<times> ref option \<times> go_error option) \<times> world" where
  "CancelOrder i orderId isAsk w =
     (let (ue, w1) = getUserExclusively i w in
      if ue \<noteq> None then ((None, None, ue), w1)
      else if isAsk then let ((r, e), w2) = CancelAsk i orderId w1 in ((r, None, e), w2)
      else let ((r, e), w2) = CancelBid i orderId w1 in ((None, r, e), w2))"

end
