(* ===== verification/Order_Fill.thy ===== *)
theory Order_Fill
  imports Tax Stocks Placing Order_Book
begin

text \<open>
  \<^verbatim>\<open>PerformOrderFillTransaction\<close> of \<^verbatim>\<open>models/User.go\<close>: the function that the order book calls
  to let an ask and a bid trade.

  It changes the two users and the two orders in memory, writes everything in one database
  transaction, and restores memory when any call fails. When the bidder cannot pay, the bid is
  closed and what is left of its reserve goes back. A panic, and a lock that never comes, are
  \<open>None\<close>.
\<close>

section \<open>The new values in memory\<close>

definition fill_asking_user :: "u64 \<Rightarrow> u64 \<Rightarrow> user \<Rightarrow> user" where
  "fill_asking_user price qty u = u\<lparr>u_Cash := u_Cash u + qty * price\<rparr>"

definition cash_left :: "u64 \<Rightarrow> u64 \<Rightarrow> i64 \<Rightarrow> user \<Rightarrow> i64" where
  "cash_left price qty reserved u = u_Cash u - price * qty + reserved"

definition fill_bidding_user :: "u64 \<Rightarrow> u64 \<Rightarrow> i64 \<Rightarrow> user \<Rightarrow> user" where
  "fill_bidding_user price qty reserved u =
     u\<lparr>u_Cash := cash_left price qty reserved u,
       u_ReservedCash := u64_of_f (max 0 (f_of_i64 (u_ReservedCash u - reserved)))\<rparr>"

definition fill_one :: "u64 \<Rightarrow> order \<Rightarrow> order" where
  "fill_one qty x =
     x\<lparr>o_StockQuantityFulfilled := o_StockQuantityFulfilled x + qty,
       o_IsClosed := (o_StockQuantity x = o_StockQuantityFulfilled x + qty)\<rparr>"

definition fill_update :: "ref \<Rightarrow> ref \<Rightarrow> u64 \<Rightarrow> u64 \<Rightarrow> i64 \<Rightarrow> world \<Rightarrow> world" where
  "fill_update ar br price qty reserved w =
     (let au = o_UserId (askObj w ar); bu = o_UserId (bidObj w br)
      in set_bid br (fill_one qty (bidObj w br))
          (set_ask ar (fill_one qty (askObj w ar))
            (set_user bu (fill_bidding_user price qty reserved (usr w bu))
              (set_user au (fill_asking_user price qty (usr w au)) w))))"

text \<open>\<^verbatim>\<open>revertToOldState\<close>: the changed fields get their values in the old state \<open>w0\<close> again.\<close>

definition revert_order :: "order \<Rightarrow> order \<Rightarrow> order" where
  "revert_order old x =
     x\<lparr>o_StockQuantityFulfilled := o_StockQuantityFulfilled old, o_IsClosed := o_IsClosed old\<rparr>"

definition fill_revert :: "ref \<Rightarrow> ref \<Rightarrow> world \<Rightarrow> world \<Rightarrow> world" where
  "fill_revert ar br w0 w =
     (let au = o_UserId (askObj w0 ar); bu = o_UserId (bidObj w0 br)
      in set_bid br (revert_order (bidObj w0 br) (bidObj w br))
          (set_ask ar (revert_order (askObj w0 ar) (askObj w ar))
            (set_user bu ((usr w bu)\<lparr>u_Cash := u_Cash (usr w0 bu), u_ReservedCash := u_ReservedCash (usr w0 bu)\<rparr>)
              (set_user au ((usr w au)\<lparr>u_Cash := u_Cash (usr w0 au)\<rparr>) w))))"

section \<open>The bidder cannot pay\<close>

type_synonym fill_result = "AskOrderFillStatus \<times> BidOrderFillStatus \<times> transaction option"

definition fill_no_cash :: "ref \<Rightarrow> ref \<Rightarrow> world \<Rightarrow> world \<Rightarrow> fill_result \<times> world" where
  "fill_no_cash ar br w0 w =
     (let undone = (\<lambda>w'. ((AskUndone, BidUndone, None), fill_revert ar br w0 w'));
          w1 = fill_revert ar br w0 w;
          (e, w2, t2) = Bid_Close br (w1, db w1) in
      if e \<noteq> None then undone w2
      else let (e3, w3, t3) = saveBidCancelOrderTransaction br (o_UserId (bidObj w0 br)) (w2, t2) in
        if e3 \<noteq> None then undone w3
        else let (ok, w4) = commit_tx (w3, t3) in
          if ok then ((AskUndone, BidDone, None), w4) else undone w4)"

section \<open>The trade\<close>

text \<open>
  The writes of the transaction in their order, up to the commit: the summaries with the tax,
  the transactions, users, orders and the \<^verbatim>\<open>OrderFill\<close> row. The result carries the ask
  transaction with its key.
\<close>

definition fill_rows ::
  "ref \<Rightarrow> ref \<Rightarrow> transaction \<Rightarrow> transaction \<Rightarrow> transaction option \<Rightarrow> transaction option \<Rightarrow> u32 \<Rightarrow> world \<Rightarrow> txop list" where
  "fill_rows ar br askTr bidTr askTax bidTax askTrId w =
     (let a = askObj w ar; b = bidObj w br;
          tax_rows = (\<lambda>tt. case tt of None \<Rightarrow> [] | Some x \<Rightarrow> [tx_insert (insert_tx x)])
      in [tx_insert (insert_tx askTr), tx_insert (insert_tx bidTr)] @ tax_rows askTax @ tax_rows bidTax @
         [tx_save (save_user (usr w (o_UserId a))), tx_save (save_user (usr w (o_UserId b))),
          tx_save (save_ask a), tx_save (save_bid b),
          tx_save (\<lambda>t. t\<lparr>OrderFills := OrderFills t @
            [\<lparr>of_TransactionId = askTrId, of_BidId = o_Id b, of_AskId = o_Id a\<rparr>]\<rparr>)])"

definition fill_transaction ::
  "ref \<Rightarrow> ref \<Rightarrow> u64 \<Rightarrow> u64 \<Rightarrow> transaction \<Rightarrow> transaction \<Rightarrow> world \<Rightarrow> transaction option \<times> world" where
  "fill_transaction ar br price qty askTr bidTr w =
     (let a = askObj w ar; b = bidObj w br;
          ((xa, askTax), w1) = getTaxForAskingUser (o_StockId a) qty price (o_UserId a) w (db w);
          (ok1, w2, t2) = save_summary xa (w1, db w) in
      if \<not> ok1 then (None, w2)
      else let ((xb, bidTax), w3) = getTaxForBiddingUser (o_StockId b) qty price (o_UserId b) w2 t2;
               (ok3, w4, t4) = save_summary xb (w3, t2) in
        if \<not> ok3 then (None, w4)
        else let (ok5, w5, t5) = tx_seq (fill_rows ar br askTr bidTr askTax bidTax (nextId w4) w4) (w4, t4) in
          if \<not> ok5 then (None, w5)
          else let (ok6, w6) = commit_tx (w5, t5) in
            (if ok6 then Some (askTr\<lparr>t_Id := nextId w4\<rparr>) else None, w6))"

text \<open>After the commit: volume and price of the stock, and the statuses. The error of the price
  update is suppressed. The returned transaction carries the traded quantity, negated.\<close>

definition fill_finish :: "ref \<Rightarrow> ref \<Rightarrow> u64 \<Rightarrow> u64 \<Rightarrow> transaction \<Rightarrow> world \<Rightarrow> (fill_result \<times> world) option" where
  "fill_finish ar br price qty askTr w =
     (let s = o_StockId (askObj w ar) in
      do { w1 \<leftarrow> UpdateStockVolume s qty w;
           let w2 = snd (UpdateStockPrice s price qty w1);
           Some ((if o_IsClosed (askObj w2 ar) then AskDone else AskUndone,
                  if o_IsClosed (bidObj w2 br) then BidDone else BidUndone,
                  Some (askTr\<lparr>t_StockQuantity := - qty\<rparr>)), w2) })"

definition fill_open_orders :: "ref \<Rightarrow> ref \<Rightarrow> u64 \<Rightarrow> u64 \<Rightarrow> world \<Rightarrow> (fill_result \<times> world) option" where
  "fill_open_orders ar br price qty w =
     (let a = askObj w ar; b = bidObj w br;
          (d, w1) = getPlaceOrderTransactionDetails (o_Id b) False w in
      (case d of
         Inl _ \<Rightarrow> Some ((AskUndone, BidUndone, None), w1)
       | Inr (reservedForOrder, _) \<Rightarrow>
           (let reserved = reserve_share reservedForOrder qty (o_StockQuantity b);
                askTr = GetTransactionRef (o_UserId a) (o_StockId a) OrderFillTransaction
                          (- qty) 0 price 0 (price * qty) (now w1);
                bidTr = GetTransactionRef (o_UserId b) (o_StockId b) OrderFillTransaction
                          0 qty price (- reserved) (- (price * qty) + reserved) (now w1);
                w2 = fill_update ar br price qty reserved w1 in
            if s_less (cash_left price qty reserved (usr w1 (o_UserId b))) 0
            then Some (fill_no_cash ar br w1 w2)
            else let (tr, w3) = fill_transaction ar br price qty askTr bidTr w2 in
              (case tr of
                 None \<Rightarrow> Some ((AskUndone, BidUndone, None), fill_revert ar br w1 w3)
               | Some askTr' \<Rightarrow> fill_finish ar br price qty askTr' w3))))"

definition PerformOrderFillTransaction :: FillOrder where
  "PerformOrderFillTransaction ar br stockTradePrice stockTradeQty w =
     do { (ue, w1) \<leftarrow> getUserPairExclusive (o_UserId (askObj w ar)) (o_UserId (bidObj w br)) w;
          let askStatus = (if o_IsClosed (askObj w1 ar) then AskAlreadyClosed else AskUndone);
          let bidStatus = (if o_IsClosed (bidObj w1 br) then BidAlreadyClosed else BidUndone);
          (if ue \<noteq> None then Some ((AskUndone, BidUndone, None), w1)
           else if askStatus = AskAlreadyClosed \<or> bidStatus = BidAlreadyClosed
           then Some ((askStatus, bidStatus, None), w1)
           else fill_open_orders ar br stockTradePrice stockTradeQty w1) }"

end
