(* ===== verification/Services.thy ===== *)
theory Services
  imports Engine Exchange Order_Fill
begin

text \<open>
  The requests of players: \<^verbatim>\<open>grpcapi/actionservice/OrderActionService.go\<close>,
  \<^verbatim>\<open>StockActionService.go\<close> and \<^verbatim>\<open>MortgageActionService.go\<close>. A request is checked against the state
  of the game and of the player, passed to the \<^verbatim>\<open>models\<close> package, and its error is turned into
  the status code of the response. The text of the response is left out.

  A placed order is passed to the matching engine by a goroutine of its own, so it waits in
  \<open>sv_asks\<close> (\<open>sv_bids\<close>) until that goroutine runs.
\<close>

section \<open>State\<close>

record server =
  sv_engine :: engine
  sv_asks :: "ref list"
  sv_bids :: "ref list"
  sv_world :: world

datatype status =
  OK
| MarketClosedError
| UserNotPhoneVerfiedError
| UserBlockedError
| StockQuantityLimitExceeded
| SNotEnoughStocksError
| SNotEnoughCashError
| SStockBankruptError
| SInternalServerError
| InvalidOrderId
| SBuyLimitExceededError
| SInvalidRetrievePriceError

text \<open>
  The checks every such request starts with. The phone number and the block are read from the
  user in memory, which a session implies; the code panics for a user that is not there.
\<close>

definition request_check :: "u32 \<Rightarrow> world \<Rightarrow> status option option" where
  "request_check userId w =
     (if \<not> isMarketOpen w then Some (Some MarketClosedError)
      else do { verified \<leftarrow> IsUserPhoneVerified userId w;
                if \<not> verified then Some (Some UserNotPhoneVerfiedError)
                else do { blocked \<leftarrow> IsUserBlocked userId w;
                          Some (if blocked then Some UserBlockedError else None) } })"

section \<open>Orders\<close>

record order_request =
  rq_IsAsk :: bool
  rq_StockId :: u32
  rq_OrderType :: OrderType
  rq_Price :: u64
  rq_StockQuantity :: u64

definition order_of_request :: "u32 \<Rightarrow> order_request \<Rightarrow> order" where
  "order_of_request userId rq =
     zero_order\<lparr>o_UserId := userId, o_StockId := rq_StockId rq, o_OrderType := rq_OrderType rq,
       o_Price := rq_Price rq, o_StockQuantity := rq_StockQuantity rq\<rparr>"

definition place_status :: "go_error option \<Rightarrow> status" where
  "place_status err =
     (case err of
        None \<Rightarrow> OK
      | Some OrderStockLimitExceeded \<Rightarrow> StockQuantityLimitExceeded
      | Some (OrderPriceOutOfWindowError _) \<Rightarrow> StockQuantityLimitExceeded
      | Some (NotEnoughStocksError _) \<Rightarrow> SNotEnoughStocksError
      | Some NotEnoughCashError \<Rightarrow> SNotEnoughCashError
      | Some StockBankruptError \<Rightarrow> SStockBankruptError
      | Some _ \<Rightarrow> SInternalServerError)"

definition PlaceOrder :: "u32 \<Rightarrow> order_request \<Rightarrow> server \<Rightarrow> ((status \<times> u32) \<times> server) option" where
  "PlaceOrder userId rq sv =
     (let w = sv_world sv in
      do { c \<leftarrow> request_check userId w;
           (case c of
              Some st \<Rightarrow> Some ((st, 0), sv)
            | None \<Rightarrow>
                if rq_IsAsk rq
                then let (r, w1) = new_ask (order_of_request userId rq) w in
                  do { ((orderId, err), w2) \<leftarrow> PlaceAskOrder userId r w1;
                       Some ((place_status err, if err = None then orderId else 0),
                         sv\<lparr>sv_world := w2, sv_asks := (if err = None then sv_asks sv @ [r] else sv_asks sv)\<rparr>) }
                else let (r, w1) = new_bid (order_of_request userId rq) w in
                  do { ((orderId, err), w2) \<leftarrow> PlaceBidOrder userId r w1;
                       Some ((place_status err, if err = None then orderId else 0),
                         sv\<lparr>sv_world := w2, sv_bids := (if err = None then sv_bids sv @ [r] else sv_bids sv)\<rparr>) }) })"

text \<open>The goroutine of a placed order; which one runs next is up to the scheduler.\<close>

definition add_placed_ask :: "nat \<Rightarrow> server \<Rightarrow> server option" where
  "add_placed_ask i sv =
     do { (e, w) \<leftarrow> engine_AddAskOrder (sv_asks sv ! i) (sv_engine sv) (sv_world sv);
          Some (sv\<lparr>sv_engine := e, sv_world := w, sv_asks := take i (sv_asks sv) @ drop (Suc i) (sv_asks sv)\<rparr>) }"

definition add_placed_bid :: "nat \<Rightarrow> server \<Rightarrow> server option" where
  "add_placed_bid i sv =
     do { (e, w) \<leftarrow> engine_AddBidOrder (sv_bids sv ! i) (sv_engine sv) (sv_world sv);
          Some (sv\<lparr>sv_engine := e, sv_world := w, sv_bids := take i (sv_bids sv) @ drop (Suc i) (sv_bids sv)\<rparr>) }"

definition cancel_status :: "go_error option \<Rightarrow> status" where
  "cancel_status err =
     (case err of
        None \<Rightarrow> OK
      | Some InvalidOrderIDError \<Rightarrow> InvalidOrderId
      | Some (AlreadyClosedError _) \<Rightarrow> InvalidOrderId
      | Some _ \<Rightarrow> SInternalServerError)"

definition CancelOrder_request :: "u32 \<Rightarrow> u32 \<Rightarrow> bool \<Rightarrow> server \<Rightarrow> (status \<times> server) option" where
  "CancelOrder_request userId orderId isAsk sv =
     (let w = sv_world sv in
      do { c \<leftarrow> request_check userId w;
           (case c of
              Some st \<Rightarrow> Some (st, sv)
            | None \<Rightarrow>
                (let ((ask, bid, err), w1) = CancelOrder userId orderId isAsk w in
                 if err \<noteq> None then Some (cancel_status err, sv\<lparr>sv_world := w1\<rparr>)
                 else do { e \<leftarrow> (if isAsk then do { r \<leftarrow> ask; engine_CancelAskOrder r w1 (sv_engine sv) }
                                 else do { r \<leftarrow> bid; engine_CancelBidOrder r w1 (sv_engine sv) });
                           Some (OK, sv\<lparr>sv_world := w1, sv_engine := e\<rparr>) })) })"

section \<open>Buying from the exchange and mortgages\<close>

definition buy_status :: "go_error \<Rightarrow> status" where
  "buy_status err =
     (case err of
        BuyLimitExceededError \<Rightarrow> SBuyLimitExceededError
      | NotEnoughCashError \<Rightarrow> SNotEnoughCashError
      | NotEnoughStocksError _ \<Rightarrow> SNotEnoughStocksError
      | StockBankruptError \<Rightarrow> SStockBankruptError
      | _ \<Rightarrow> SInternalServerError)"

definition BuyStocksFromExchange ::
  "u32 \<Rightarrow> u32 \<Rightarrow> u64 \<Rightarrow> world \<Rightarrow> ((status \<times> transaction option) \<times> world) option" where
  "BuyStocksFromExchange userId stockId stockQty w =
     do { c \<leftarrow> request_check userId w;
          (case c of
             Some st \<Rightarrow> Some ((st, None), w)
           | None \<Rightarrow>
               do { (r, w1) \<leftarrow> PerformBuyFromExchangeTransaction userId stockId stockQty w;
                    Some (case r of Inl err \<Rightarrow> (buy_status err, None) | Inr tr \<Rightarrow> (OK, Some tr), w1) }) }"

definition mortgage_status :: "go_error \<Rightarrow> status" where
  "mortgage_status err =
     (case err of
        NotEnoughStocksError _ \<Rightarrow> SNotEnoughStocksError
      | StockBankruptError \<Rightarrow> SStockBankruptError
      | _ \<Rightarrow> SInternalServerError)"

definition retrieve_status :: "go_error \<Rightarrow> status" where
  "retrieve_status err =
     (case err of
        NotEnoughStocksError _ \<Rightarrow> SNotEnoughStocksError
      | NotEnoughCashError \<Rightarrow> SNotEnoughCashError
      | InvalidRetrievePriceError \<Rightarrow> SInvalidRetrievePriceError
      | StockBankruptError \<Rightarrow> SStockBankruptError
      | _ \<Rightarrow> SInternalServerError)"

definition MortgageStocks ::
  "u32 \<Rightarrow> u32 \<Rightarrow> u64 \<Rightarrow> world \<Rightarrow> ((status \<times> transaction option) \<times> world) option" where
  "MortgageStocks userId stockId stockQty w =
     do { c \<leftarrow> request_check userId w;
          (case c of
             Some st \<Rightarrow> Some ((st, None), w)
           | None \<Rightarrow>
               do { (r, w1) \<leftarrow> PerformMortgageTransaction userId stockId (- stockQty) 0 w;
                    Some (case r of Inl err \<Rightarrow> (mortgage_status err, None) | Inr tr \<Rightarrow> (OK, Some tr), w1) }) }"

definition RetrieveMortgageStocks ::
  "u32 \<Rightarrow> u32 \<Rightarrow> u64 \<Rightarrow> u64 \<Rightarrow> world \<Rightarrow> ((status \<times> transaction option) \<times> world) option" where
  "RetrieveMortgageStocks userId stockId stockQty retrievePrice w =
     do { c \<leftarrow> request_check userId w;
          (case c of
             Some st \<Rightarrow> Some ((st, None), w)
           | None \<Rightarrow>
               do { (r, w1) \<leftarrow> PerformMortgageTransaction userId stockId stockQty retrievePrice w;
                    Some (case r of Inl err \<Rightarrow> (retrieve_status err, None) | Inr tr \<Rightarrow> (OK, Some tr), w1) }) }"

end
