(* ===== verification/Accounting.thy ===== *)
theory Accounting
  imports Accounts
begin

text \<open>
  The accounting of the program: a user's cash and the user's transactions tell the same
  story. Every change of cash is recorded as a transaction whose \<^verbatim>\<open>total\<close> is that change, so
  the difference between the cash in a user's row and the sum of the totals of the user's
  transactions never changes; and the object in memory stays equal to the row. This is what
  \<open>keeps_accounts\<close> says of a step, whatever calls to the database fail on the way. The
  operations that trade are shown to be such steps in the theories of their components.

  The user 0 is left out: it is the id of the zero object that a failed load leaves behind.
\<close>

definition synced :: "world \<Rightarrow> u32 \<Rightarrow> bool" where
  "synced w j \<longleftrightarrow> users w j \<noteq> None \<and> row u_Id j (Users (db w)) = users w j"

definition ledger_gap :: "u32 \<Rightarrow> tables \<Rightarrow> u64" where
  "ledger_gap j t =
     (case row u_Id j (Users t) of None \<Rightarrow> 0 | Some u \<Rightarrow> u_Cash u) - sum_tx t_Total (\<lambda>x. t_UserId x = j) t"

definition keyed :: "world \<Rightarrow> bool" where
  "keyed w \<longleftrightarrow> (\<forall>j u. users w j = Some u \<longrightarrow> u_Id u = j \<or> u_Id u = 0)"

definition keeps_accounts :: "world \<Rightarrow> world \<Rightarrow> bool" where
  "keeps_accounts w w' \<longleftrightarrow> (keyed w \<longrightarrow> keyed w' \<and>
     (\<forall>j. j \<noteq> 0 \<longrightarrow> synced w j \<longrightarrow> synced w' j \<and> ledger_gap j (db w') = ledger_gap j (db w)))"

lemma keeps_accounts_refl [simp]: "keeps_accounts w w"
  by (simp add: keeps_accounts_def)

lemma keeps_accounts_trans: "keeps_accounts a b \<Longrightarrow> keeps_accounts b c \<Longrightarrow> keeps_accounts a c"
  by (simp add: keeps_accounts_def)

lemma synced_row:
  assumes "synced w j"
  obtains u where "users w j = Some u" "row u_Id j (Users (db w)) = Some u" "u_Id u = j"
  using assms row_key by (fastforce simp: synced_def)

text \<open>A step that leaves users, user rows and transactions alone.\<close>

lemma keeps_accounts_same:
  assumes "users w' = users w" "Users (db w') = Users (db w)" "Transactions (db w') = Transactions (db w)"
  shows "keeps_accounts w w'"
  using assms by (simp add: keeps_accounts_def keyed_def synced_def ledger_gap_def sum_tx_def)

lemma keeps_accounts_mem: "same_mem w w' \<Longrightarrow> db w' = db w \<Longrightarrow> keeps_accounts w w'"
  by (rule keeps_accounts_same) (simp_all add: same_mem_def)

text \<open>Reaching a user.\<close>

lemma keeps_accounts_get:
  assumes "getUserExclusively i w = (e, w')"
  shows "keeps_accounts w w'"
proof -
  note f = getUserExclusively_frame [OF assms]
  have d: "db w' = db w" using f(1) by (simp add: same_but_users_def)
  have zr: "users w' i = Some u \<Longrightarrow> users w i = None \<Longrightarrow> u_Id u = i \<or> u_Id u = 0" for u
    using assms by (auto simp: getUserExclusively_def Let_def ledger_simps zero_user_def
        split: prod.splits if_splits option.splits dest: row_key)
  have "keyed w'" if "keyed w"
    unfolding keyed_def
  proof (intro allI impI)
    fix j u assume u: "users w' j = Some u"
    show "u_Id u = j \<or> u_Id u = 0"
    proof (cases "users w j")
      case None
      then show ?thesis using u zr f(5) [of j] by (cases "j = i") auto
    next
      case (Some u')
      then have "u' = u" using u f(1) by (simp add: same_but_users_def)
      then show ?thesis using Some that by (simp add: keyed_def)
    qed
  qed
  moreover have "synced w' j" if "synced w j" for j
    using that f(1) d by (auto simp: synced_def same_but_users_def)
  ultimately show ?thesis by (simp add: keeps_accounts_def d)
qed

lemma keeps_accounts_pair:
  assumes "getUserPairExclusive i j w = Some (e, w')"
  shows "keeps_accounts w w'"
proof -
  obtain f s where fs: "(if i < j then (i, j) else (j, i)) = (f, s)" by fastforce
  obtain e1 w1 where g1: "getUserExclusively f w = (e1, w1)" by fastforce
  obtain e2 w2 where g2: "getUserExclusively s w1 = (e2, w2)" by fastforce
  have "w' = w1 \<or> w' = w2"
    using assms fs g1 g2 by (auto simp: getUserPairExclusive_def Let_def split: if_splits)
  then show ?thesis using keeps_accounts_get [OF g1] keeps_accounts_get [OF g2] keeps_accounts_trans by blast
qed

text \<open>
  A step that changes the cash and reserve of users and writes them with the transactions
  \<open>trs\<close>. \<open>us\<close> are the ids whose objects were saved.
\<close>

definition total_of :: "u32 \<Rightarrow> transaction list \<Rightarrow> i64" where
  "total_of j trs = sum_list (map t_Total (filter (\<lambda>x. t_UserId x = j) trs))"

lemma total_of_simps [simp]:
  "total_of j [] = 0" "total_of j (x # xs) = (if t_UserId x = j then t_Total x else 0) + total_of j xs"
  "total_of j (xs @ ys) = total_of j xs + total_of j ys"
  by (simp_all add: total_of_def)

lemma keeps_accountsI:
  assumes us: "\<And>i. i \<in> us \<Longrightarrow> \<exists>u u'. users w i = Some u \<and> users w' i = Some u' \<and> u_Id u' = u_Id u \<and>
      (u_Id u = i \<longrightarrow> i \<noteq> 0 \<longrightarrow> u_Cash u' = u_Cash u + total_of i trs)"
    and other: "\<And>j. j \<notin> us \<Longrightarrow> users w' j = users w j"
    and saved: "\<And>j. j \<in> us \<Longrightarrow> keyed w \<Longrightarrow> synced w j \<Longrightarrow> j \<noteq> 0 \<Longrightarrow> row u_Id j (Users (db w')) = users w' j"
    and kept: "\<And>j. j \<notin> us \<Longrightarrow> keyed w \<Longrightarrow> synced w j \<Longrightarrow> j \<noteq> 0 \<Longrightarrow>
      row u_Id j (Users (db w')) = row u_Id j (Users (db w))"
    and trs: "adds_tx trs (db w) (db w')" "\<And>j. j \<notin> us \<Longrightarrow> j \<noteq> 0 \<Longrightarrow> total_of j trs = 0"
  shows "keeps_accounts w w'"
  unfolding keeps_accounts_def
proof (intro impI conjI allI)
  assume k: "keyed w"
  show "keyed w'" unfolding keyed_def
  proof (intro allI impI)
    fix j u assume u: "users w' j = Some u"
    show "u_Id u = j \<or> u_Id u = 0"
    proof (cases "j \<in> us")
      case True
      then obtain v where "users w j = Some v" "u_Id u = u_Id v" using us [OF True] u by auto
      then show ?thesis using k by (auto simp: keyed_def)
    qed (use k u other in \<open>auto simp: keyed_def\<close>)
  qed
  fix j assume j: "j \<noteq> (0::u32)" and s: "synced w j"
  obtain u where r: "users w j = Some u" "row u_Id j (Users (db w)) = Some u" "u_Id u = j" by (rule synced_row [OF s])
  have sum: "sum_tx t_Total (\<lambda>x. t_UserId x = j) (db w') = sum_tx t_Total (\<lambda>x. t_UserId x = j) (db w) + total_of j trs"
    using sum_tx_adds [OF trs(1), of t_Total "\<lambda>x. t_UserId x = j"] by (simp add: total_of_def)
  have "synced w' j \<and> ledger_gap j (db w') = ledger_gap j (db w)"
  proof (cases "j \<in> us")
    case True
    then obtain u' where u': "users w' j = Some u'" "u_Cash u' = u_Cash u + total_of j trs"
      using us [OF True] r(1,3) j by auto
    have row': "row u_Id j (Users (db w')) = Some u'" using saved [OF True k s j] u'(1) by simp
    then show ?thesis using u' r(2) sum by (simp add: synced_def ledger_gap_def)
  next
    case False
    then show ?thesis
      using other [OF False] s sum trs(2) [OF False j] kept [OF False k s j] by (simp add: synced_def ledger_gap_def)
  qed
  then show "synced w' j" and "ledger_gap j (db w') = ledger_gap j (db w)" by simp_all
qed

text \<open>The two shapes in use: one user saved, and two.\<close>

lemma total_of_none: "(\<And>x. x \<in> set trs \<Longrightarrow> t_UserId x \<noteq> j) \<Longrightarrow> total_of j trs = 0"
  by (induction trs) auto

lemma row_saved:
  assumes "keyed w" "synced w j" "j \<noteq> 0" "users w i = Some u" "u_Id u' = u_Id u"
  shows "row u_Id j (upsert u_Id u' us) = (if i = j then Some u' else row u_Id j us)"
proof -
  obtain v where "users w j = Some v" "u_Id v = j" by (rule synced_row [OF assms(2)])
  moreover have "u_Id u = i \<or> u_Id u = 0" using assms(1,4) by (auto simp: keyed_def)
  ultimately show ?thesis using assms(3-5) by auto
qed

lemma keeps_accounts_one:
  assumes u: "users w i = Some u" "users w' = (users w)(i \<mapsto> u')" "u_Id u' = u_Id u"
    and cash: "u_Id u = i \<Longrightarrow> i \<noteq> 0 \<Longrightarrow> u_Cash u' = u_Cash u + total_of i trs"
    and rows: "\<And>j. row u_Id j (Users (db w')) = row u_Id j (upsert u_Id u' (Users (db w)))"
    and trs: "adds_tx trs (db w) (db w')" "\<And>x. x \<in> set trs \<Longrightarrow> t_UserId x = i \<or> t_UserId x = 0"
  shows "keeps_accounts w w'"
proof (rule keeps_accountsI [where us = "{i}" and trs = trs])
  show "\<And>j. j \<notin> {i} \<Longrightarrow> j \<noteq> 0 \<Longrightarrow> total_of j trs = 0" using trs(2) by (intro total_of_none) fastforce
qed (use u cash trs(1) row_saved [OF _ _ _ u(1,3)] in \<open>auto simp: rows\<close>)

lemma keeps_accounts_two:
  assumes ne: "i \<noteq> k"
    and u: "users w i = Some u" "u_Id u' = u_Id u" and v: "users w k = Some v" "u_Id v' = u_Id v"
    and w': "users w' = (users w)(i \<mapsto> u', k \<mapsto> v')"
    and cash: "u_Id u = i \<Longrightarrow> i \<noteq> 0 \<Longrightarrow> u_Cash u' = u_Cash u + total_of i trs"
      "u_Id v = k \<Longrightarrow> k \<noteq> 0 \<Longrightarrow> u_Cash v' = u_Cash v + total_of k trs"
    and rows: "Users (db w') = upsert u_Id v' (upsert u_Id u' (Users (db w)))"
    and trs: "adds_tx trs (db w) (db w')" "\<And>x. x \<in> set trs \<Longrightarrow> t_UserId x = i \<or> t_UserId x = k \<or> t_UserId x = 0"
  shows "keeps_accounts w w'"
proof (rule keeps_accountsI [where us = "{i, k}" and trs = trs])
  show "\<And>j. j \<notin> {i, k} \<Longrightarrow> j \<noteq> 0 \<Longrightarrow> total_of j trs = 0" using trs(2) by (intro total_of_none) fastforce
qed (use ne u v w' cash trs(1) row_saved [OF _ _ _ u(1,2)] row_saved [OF _ _ _ v(1,2)] in
    \<open>auto simp: rows\<close>)

text \<open>A failed step that restored the users.\<close>

lemma keeps_accounts_undone:
  "users w' = users w \<Longrightarrow> db w' = db w \<Longrightarrow> keeps_accounts w w'"
  by (rule keeps_accounts_same) simp_all

section \<open>Users in memory or in the database\<close>

definition loaded :: "world \<Rightarrow> u32 \<Rightarrow> user option" where
  "loaded w j = (case users w j of Some u \<Rightarrow> Some u | None \<Rightarrow> row u_Id j (Users (db w)))"

lemma loaded_get:
  assumes "getUserExclusively i w = (None, w1)"
  shows "users w1 i = loaded w i" "loaded w1 j = loaded w j" "loaded w i \<noteq> None"
proof -
  note f = getUserExclusively_frame [OF assms]
  show 1: "users w1 i = loaded w i"
    using f(1,4) by (cases "users w i") (auto simp: loaded_def same_but_users_def)
  then show "loaded w i \<noteq> None" using f(2) by simp
  show "loaded w1 j = loaded w j"
  proof (cases "j = i")
    case True
    then show ?thesis using 1 f(2) by (auto simp: loaded_def split: option.splits)
  next
    case False
    then show ?thesis using f(1,5) by (simp add: loaded_def same_but_users_def cong: option.case_cong)
  qed
qed

end
