(* ===== verification/Cancel_Proofs.thy ===== *)
theory Cancel_Proofs
  imports Placing Accounting
begin

text \<open>
  Closing and cancelling orders: what \<^verbatim>\<open>Close\<close> and the cancel transactions change, and that
  cancelling keeps the accounts and gives back what was reserved.
\<close>

section \<open>Closing an order\<close>

lemma same_close: "\<exists>k u. f = f(r := (f r)\<lparr>o_IsClosed := k, o_UpdatedAt := u\<rparr>)"
proof -
  have "(f r)\<lparr>o_IsClosed := o_IsClosed (f r), o_UpdatedAt := o_UpdatedAt (f r)\<rparr> = f r"
    by (cases "f r") simp
  then have "f = f(r := (f r)\<lparr>o_IsClosed := o_IsClosed (f r), o_UpdatedAt := o_UpdatedAt (f r)\<rparr>)" by simp
  then show ?thesis by blast
qed

text \<open>Everything but the orders and the table of orders.\<close>

lemma Bid_Close_frame:
  assumes run: "Bid_Close r (w, t) = (e, w', t')"
  shows "users w' = users w" "askObj w' = askObj w" "allStocks w' = allStocks w" "db w' = db w" "now w' = now w"
    "\<exists>k u. bidObj w' = (bidObj w)(r := (bidObj w r)\<lparr>o_IsClosed := k, o_UpdatedAt := u\<rparr>)"
    "e = None \<Longrightarrow> \<not> o_IsClosed (bidObj w r)"
    "e = None \<Longrightarrow> bidObj w' = (bidObj w)(r := (bidObj w r)\<lparr>o_IsClosed := True, o_UpdatedAt := now w\<rparr>)"
    "e = None \<Longrightarrow> t' = save_bid (bidObj w' r) t" "e \<noteq> None \<Longrightarrow> t' = t"
proof (atomize (full), goal_cases)
  case 1
  show ?case
  proof (cases "o_IsClosed (bidObj w r)")
    case True
    then have "e = Some (AlreadyClosedError (o_Id (bidObj w r)))" "w' = w" "t' = t"
      using run by (auto simp: Bid_Close_def)
    then show ?thesis using same_close [of "bidObj w" r] by simp
  next
    case False
    let ?x = "(bidObj w r)\<lparr>o_IsClosed := True, o_UpdatedAt := now w\<rparr>"
    obtain ok w1 where c: "db_ok (set_bid r ?x w) = (ok, w1)" by fastforce
    have m: "users w1 = users w" "askObj w1 = askObj w" "allStocks w1 = allStocks w" "db w1 = db w" "now w1 = now w"
      "bidObj w1 = (bidObj w)(r := ?x)"
      using db_ok_same [OF c] by (simp_all add: same_mem_def ledger_simps)
    have r: "(e, w', t') = (if \<not> ok then (Some DbError, w1, t)
        else (None, w1\<lparr>bidsMap := (bidsMap w1)(o_Id (bidObj w r) := None)\<rparr>, save_bid ?x t))"
      using run c False by (simp add: Bid_Close_def Let_def)
    have ex: "\<exists>k u. (bidObj w)(r := ?x) = (bidObj w)(r := (bidObj w r)\<lparr>o_IsClosed := k, o_UpdatedAt := u\<rparr>)"
      by blast
    show ?thesis
    proof (cases ok)
      case True
      then have "e = None" "w' = w1\<lparr>bidsMap := (bidsMap w1)(o_Id (bidObj w r) := None)\<rparr>" "t' = save_bid ?x t"
        using r by simp_all
      then show ?thesis using m False ex by simp
    next
      case no: False
      then have "e = Some DbError" "w' = w1" "t' = t" using r by simp_all
      then show ?thesis using m False ex by simp
    qed
  qed
qed

lemma Ask_Close_frame:
  assumes run: "Ask_Close r (w, t) = (e, w', t')"
  shows "users w' = users w" "bidObj w' = bidObj w" "allStocks w' = allStocks w" "db w' = db w" "now w' = now w"
    "\<exists>k u. askObj w' = (askObj w)(r := (askObj w r)\<lparr>o_IsClosed := k, o_UpdatedAt := u\<rparr>)"
    "e = None \<Longrightarrow> \<not> o_IsClosed (askObj w r)"
    "e = None \<Longrightarrow> askObj w' = (askObj w)(r := (askObj w r)\<lparr>o_IsClosed := True, o_UpdatedAt := now w\<rparr>)"
    "e = None \<Longrightarrow> t' = save_ask (askObj w' r) t" "e \<noteq> None \<Longrightarrow> t' = t"
proof (atomize (full), goal_cases)
  case 1
  show ?case
  proof (cases "o_IsClosed (askObj w r)")
    case True
    then have "e = Some (AlreadyClosedError (o_Id (askObj w r)))" "w' = w" "t' = t"
      using run by (auto simp: Ask_Close_def)
    then show ?thesis using same_close [of "askObj w" r] by simp
  next
    case False
    let ?x = "(askObj w r)\<lparr>o_IsClosed := True, o_UpdatedAt := now w\<rparr>"
    obtain ok w1 where c: "db_ok (set_ask r ?x w) = (ok, w1)" by fastforce
    have m: "users w1 = users w" "bidObj w1 = bidObj w" "allStocks w1 = allStocks w" "db w1 = db w" "now w1 = now w"
      "askObj w1 = (askObj w)(r := ?x)"
      using db_ok_same [OF c] by (simp_all add: same_mem_def ledger_simps)
    have r: "(e, w', t') = (if \<not> ok then (Some DbError, w1, t)
        else (None, w1\<lparr>asksMap := (asksMap w1)(o_Id (askObj w r) := None)\<rparr>, save_ask ?x t))"
      using run c False by (simp add: Ask_Close_def Let_def)
    have ex: "\<exists>k u. (askObj w)(r := ?x) = (askObj w)(r := (askObj w r)\<lparr>o_IsClosed := k, o_UpdatedAt := u\<rparr>)"
      by blast
    show ?thesis
    proof (cases ok)
      case True
      then have "e = None" "w' = w1\<lparr>asksMap := (asksMap w1)(o_Id (askObj w r) := None)\<rparr>" "t' = save_ask ?x t"
        using r by simp_all
      then show ?thesis using m False ex by simp
    next
      case no: False
      then have "e = Some DbError" "w' = w1" "t' = t" using r by simp_all
      then show ?thesis using m False ex by simp
    qed
  qed
qed

section \<open>Giving the reserve back\<close>

definition refund_user :: "i64 \<Rightarrow> user \<Rightarrow> user" where
  "refund_user m u = u\<lparr>u_Cash := u_Cash u + m, u_ReservedCash := u_ReservedCash u - m\<rparr>"

definition refund_tx :: "u32 \<Rightarrow> u32 \<Rightarrow> i64 \<Rightarrow> string \<Rightarrow> transaction" where
  "refund_tx uid sid m t = GetTransactionRef uid sid CancelOrderTransaction 0 0 0 (- m) m t"

lemma commit_tx_frame:
  assumes "commit_tx (w, t) = (ok, w')"
  shows "same_mem w w'" "db w' = (if ok then t else db w)"
proof -
  obtain ok1 w1 where c: "db_ok w = (ok1, w1)" by fastforce
  then show "same_mem w w'" "db w' = (if ok then t else db w)"
    using assms db_ok_same [OF c] by (auto simp: commit_tx_def)
qed


lemma deposit_frame:
  assumes "getPlaceOrderTransactionDetails oid isAsk w = (d, w')"
  shows "same_mem w w'" "db w' = db w"
    "d = Inr (a, b) \<Longrightarrow> \<exists>tr rest. deposit_rows oid isAsk (db w) = tr # rest \<and> a = - t_Total tr"
proof -
  obtain ok w1 where c: "db_ok w = (ok, w1)" by fastforce
  have "w' = w1" using assms c
    by (auto simp: getPlaceOrderTransactionDetails_def split: if_splits list.splits)
  then show "same_mem w w'" "db w' = db w" using db_ok_same [OF c] by simp_all
  show "d = Inr (a, b) \<Longrightarrow> \<exists>tr rest. deposit_rows oid isAsk (db w) = tr # rest \<and> a = - t_Total tr"
    using assms c db_ok_same [OF c]
    by (auto simp: getPlaceOrderTransactionDetails_def split: if_splits list.splits)
qed

lemma saveBidCancel_frame:
  assumes run: "saveBidCancelOrderTransaction r i (w, t) = (e, w', t')"
  shows "askObj w' = askObj w" "bidObj w' = bidObj w" "allStocks w' = allStocks w" "db w' = db w" "now w' = now w"
    "users w' = users w \<or> (\<exists>m. users w' = (users w)(i \<mapsto> refund_user m (usr w i)))"
    "e = None \<Longrightarrow> \<exists>tr rest m. deposit_rows (o_Id (bidObj w r)) False (db w) = tr # rest \<and>
       m = reserve_share (- t_Total tr) (unfulfilled (bidObj w r)) (o_StockQuantity (bidObj w r)) \<and>
       users w' = (users w)(i \<mapsto> refund_user m (usr w i)) \<and>
       adds_tx [refund_tx (u_Id (usr w i)) (o_StockId (bidObj w r)) m (now w)] t t' \<and>
       Users t' = upsert u_Id (refund_user m (usr w i)) (Users t) \<and> Bids t' = Bids t"
proof (atomize (full), goal_cases)
  case 1
  let ?x = "bidObj w r"
  obtain d w1 where g: "getPlaceOrderTransactionDetails (o_Id ?x) False w = (d, w1)" by fastforce
  note f = deposit_frame [OF g]
  have f1: "askObj w1 = askObj w" "bidObj w1 = bidObj w" "allStocks w1 = allStocks w" "db w1 = db w" "now w1 = now w"
    "users w1 = users w" "usr w1 i = usr w i"
    using f by (simp_all add: same_mem_def usr_def)
  show ?case
  proof (cases d)
    case (Inl x)
    then have "e = Some x" "w' = w1" using run g by (simp_all add: saveBidCancelOrderTransaction_def)
    then show ?thesis using f1 by simp
  next
    case (Inr p)
    obtain a b where p: "p = (a, b)" by fastforce
    define m where "m = reserve_share a (unfulfilled ?x) (o_StockQuantity ?x)"
    let ?u = "refund_user m (usr w i)" and ?tr = "refund_tx (u_Id (usr w i)) (o_StockId ?x) m (now w)"
    let ?ops = "[tx_save (save_user ?u), tx_insert (insert_tx ?tr)]"
    obtain ok w2 t2 where s: "tx_seq ?ops (set_user i ?u w1, t) = (ok, w2, t2)"
      by (cases "tx_seq ?ops (set_user i ?u w1, t)")
    have r: "e = (if ok then None else Some DbError)" "w' = w2" "t' = t2"
      using run g Inr p s f1
      by (simp_all add: saveBidCancelOrderTransaction_def m_def refund_user_def refund_tx_def Let_def
          del: tx_seq.simps)
    have q: "same_mem (set_user i ?u w1) w2 \<and> db w2 = db (set_user i ?u w1)"
      by (rule quiet_seq [OF _ s]) simp
    have w2: "askObj w2 = askObj w" "bidObj w2 = bidObj w" "allStocks w2 = allStocks w" "db w2 = db w" "now w2 = now w"
      "users w2 = (users w)(i \<mapsto> ?u)"
      using q f1 by (simp_all add: same_mem_def ledger_simps)
    have d: "\<exists>tr rest. deposit_rows (o_Id ?x) False (db w) = tr # rest \<and> a = - t_Total tr"
      using f(3) [of a b] Inr p by simp
    have ok: "adds_tx [?tr] t t2 \<and> Users t2 = upsert u_Id ?u (Users t) \<and> Bids t2 = Bids t" if ok
    proof -
      have "t2 = insert_tx ?tr (nextId w3) (save_user ?u t)" if
        "tx_save (save_user ?u) (set_user i ?u w1, t) = (True, w3, t3)" "tx_insert (insert_tx ?tr) (w3, t3) = (True, w2, t2)" for w3 t3
        using tx_save_True [OF that(1)] tx_insert_True [OF that(2)] by simp
      then obtain n where "t2 = insert_tx ?tr n (save_user ?u t)"
        using s \<open>ok\<close> by (auto simp: tx_seq_Cons_True simp del: tx_seq.simps(2))
      then show ?thesis by (auto simp: adds_tx_def insert_tx_def save_user_def)
    qed
    show ?thesis using w2 r d ok unfolding m_def [symmetric] by (auto simp: m_def)
  qed
qed

end
