(* ===== verification/Steps.thy ===== *)
theory Steps
  imports Cancel_Proofs Tax
begin

text \<open>
  What the operations of a database transaction do to one user's account. A transaction is a
  list of operations; each either leaves the accounts alone, or changes the user object, saves
  it or adds rows to the ledger. \<open>acct_step\<close> says what an operation that went through has
  done, and composes along the list; \<open>funds_step\<close> says what it leaves alone in any case.
\<close>

section \<open>Creating orders\<close>

lemma createBid_frame:
  assumes run: "createBid r (w, t) = (ok, w', t')"
  shows "users w' = users w" "askObj w' = askObj w" "allStocks w' = allStocks w" "db w' = db w" "now w' = now w"
    "\<exists>i c u. bidObj w' = (bidObj w)(r := (bidObj w r)\<lparr>o_CreatedAt := c, o_UpdatedAt := u, o_Id := i\<rparr>)"
    "ok \<Longrightarrow> t' = save_bid (bidObj w' r) t \<and> o_Id (bidObj w' r) = nextId w \<and> nextId w' = nextId w + 1"
proof -
  let ?x = "(bidObj w r)\<lparr>o_CreatedAt := now w, o_UpdatedAt := now w\<rparr>"
  obtain k w1 where c: "db_ok (set_bid r ?x w) = (k, w1)" by fastforce
  have m: "users w1 = users w" "askObj w1 = askObj w" "allStocks w1 = allStocks w" "db w1 = db w" "now w1 = now w"
    "bidObj w1 = (bidObj w)(r := ?x)" "nextId w1 = nextId w"
    using db_ok_same [OF c] by (simp_all add: same_mem_def ledger_simps)
  let ?x' = "?x\<lparr>o_Id := nextId w1\<rparr>"
  have r: "(ok, w', t') = (if \<not> k then (False, w1, t)
     else (True, (set_bid r ?x' w1)\<lparr>bidsMap := (bidsMap w1)(nextId w1 \<mapsto> r), nextId := nextId w1 + 1\<rparr>, save_bid ?x' t))"
    using run c by (cases k) (simp_all add: createBid_def Let_def)
  have "users w' = users w \<and> askObj w' = askObj w \<and> allStocks w' = allStocks w \<and> db w' = db w \<and> now w' = now w \<and>
    bidObj w' = (bidObj w)(r := (bidObj w r)\<lparr>o_CreatedAt := now w, o_UpdatedAt := now w,
       o_Id := (if k then nextId w else o_Id (bidObj w r))\<rparr>) \<and>
    (ok \<longrightarrow> t' = save_bid (bidObj w' r) t \<and> o_Id (bidObj w' r) = nextId w \<and> nextId w' = nextId w + 1)"
  proof (cases k)
    case True
    then have "ok" "w' = (set_bid r ?x' w1)\<lparr>bidsMap := (bidsMap w1)(nextId w1 \<mapsto> r), nextId := nextId w1 + 1\<rparr>"
      "t' = save_bid ?x' t" using r by simp_all
    then show ?thesis using True m by (simp add: ledger_simps)
  next
    case False
    then have "\<not> ok" "w' = w1" using r by simp_all
    moreover have "(bidObj w r)\<lparr>o_CreatedAt := now w, o_UpdatedAt := now w, o_Id := o_Id (bidObj w r)\<rparr> =
        (bidObj w r)\<lparr>o_CreatedAt := now w, o_UpdatedAt := now w\<rparr>" by (cases "bidObj w r") simp
    ultimately show ?thesis using False m by simp
  qed
  then show "users w' = users w" "askObj w' = askObj w" "allStocks w' = allStocks w" "db w' = db w" "now w' = now w"
    "\<exists>i c u. bidObj w' = (bidObj w)(r := (bidObj w r)\<lparr>o_CreatedAt := c, o_UpdatedAt := u, o_Id := i\<rparr>)"
    "ok \<Longrightarrow> t' = save_bid (bidObj w' r) t \<and> o_Id (bidObj w' r) = nextId w \<and> nextId w' = nextId w + 1"
    by blast+
qed

lemma createAsk_frame:
  assumes run: "createAsk r (w, t) = (ok, w', t')"
  shows "users w' = users w" "bidObj w' = bidObj w" "allStocks w' = allStocks w" "db w' = db w" "now w' = now w"
    "\<exists>i c u. askObj w' = (askObj w)(r := (askObj w r)\<lparr>o_CreatedAt := c, o_UpdatedAt := u, o_Id := i\<rparr>)"
    "ok \<Longrightarrow> t' = save_ask (askObj w' r) t \<and> o_Id (askObj w' r) = nextId w \<and> nextId w' = nextId w + 1"
proof -
  let ?x = "(askObj w r)\<lparr>o_CreatedAt := now w, o_UpdatedAt := now w\<rparr>"
  obtain k w1 where c: "db_ok (set_ask r ?x w) = (k, w1)" by fastforce
  have m: "users w1 = users w" "bidObj w1 = bidObj w" "allStocks w1 = allStocks w" "db w1 = db w" "now w1 = now w"
    "askObj w1 = (askObj w)(r := ?x)" "nextId w1 = nextId w"
    using db_ok_same [OF c] by (simp_all add: same_mem_def ledger_simps)
  let ?x' = "?x\<lparr>o_Id := nextId w1\<rparr>"
  have r: "(ok, w', t') = (if \<not> k then (False, w1, t)
     else (True, (set_ask r ?x' w1)\<lparr>asksMap := (asksMap w1)(nextId w1 \<mapsto> r), nextId := nextId w1 + 1\<rparr>, save_ask ?x' t))"
    using run c by (cases k) (simp_all add: createAsk_def Let_def)
  have "users w' = users w \<and> bidObj w' = bidObj w \<and> allStocks w' = allStocks w \<and> db w' = db w \<and> now w' = now w \<and>
    askObj w' = (askObj w)(r := (askObj w r)\<lparr>o_CreatedAt := now w, o_UpdatedAt := now w,
       o_Id := (if k then nextId w else o_Id (askObj w r))\<rparr>) \<and>
    (ok \<longrightarrow> t' = save_ask (askObj w' r) t \<and> o_Id (askObj w' r) = nextId w \<and> nextId w' = nextId w + 1)"
  proof (cases k)
    case True
    then have "ok" "w' = (set_ask r ?x' w1)\<lparr>asksMap := (asksMap w1)(nextId w1 \<mapsto> r), nextId := nextId w1 + 1\<rparr>"
      "t' = save_ask ?x' t" using r by simp_all
    then show ?thesis using True m by (simp add: ledger_simps)
  next
    case False
    then have "\<not> ok" "w' = w1" using r by simp_all
    moreover have "(askObj w r)\<lparr>o_CreatedAt := now w, o_UpdatedAt := now w, o_Id := o_Id (askObj w r)\<rparr> =
        (askObj w r)\<lparr>o_CreatedAt := now w, o_UpdatedAt := now w\<rparr>" by (cases "askObj w r") simp
    ultimately show ?thesis using False m by simp
  qed
  then show "users w' = users w" "bidObj w' = bidObj w" "allStocks w' = allStocks w" "db w' = db w" "now w' = now w"
    "\<exists>i c u. askObj w' = (askObj w)(r := (askObj w r)\<lparr>o_CreatedAt := c, o_UpdatedAt := u, o_Id := i\<rparr>)"
    "ok \<Longrightarrow> t' = save_ask (askObj w' r) t \<and> o_Id (askObj w' r) = nextId w \<and> nextId w' = nextId w + 1"
    by blast+
qed

section \<open>What any operation leaves alone\<close>

definition funds_step :: "u32 \<Rightarrow> txop \<Rightarrow> bool" where
  "funds_step i op \<longleftrightarrow> (\<forall>w t ok w' t' u. op (w, t) = (ok, w', t') \<longrightarrow> users w i = Some u \<longrightarrow>
     (\<exists>c rc. users w' = (users w)(i \<mapsto> u\<lparr>u_Cash := c, u_ReservedCash := rc\<rparr>)) \<and> db w' = db w \<and>
     allStocks w' = allStocks w \<and> now w' = now w)"

lemma funds_same:
  fixes u :: user
  assumes "f i = Some u"
  shows "\<exists>c rc. f = f(i \<mapsto> u\<lparr>u_Cash := c, u_ReservedCash := rc\<rparr>)"
proof -
  have "u\<lparr>u_Cash := u_Cash u, u_ReservedCash := u_ReservedCash u\<rparr> = u" by (cases u) simp
  then have "f = f(i \<mapsto> u\<lparr>u_Cash := u_Cash u, u_ReservedCash := u_ReservedCash u\<rparr>)" using assms by auto
  then show ?thesis by blast
qed

lemma funds_step_frame:
  assumes "\<And>w t ok w' t'. op (w, t) = (ok, w', t') \<Longrightarrow> users w' = users w \<and> db w' = db w \<and> allStocks w' = allStocks w \<and> now w' = now w"
  shows "funds_step i op"
  unfolding funds_step_def
proof (intro allI impI)
  fix w t ok w' t' u assume r: "op (w, t) = (ok, w', t')" and u: "users w i = Some u"
  show "(\<exists>c rc. users w' = (users w)(i \<mapsto> u\<lparr>u_Cash := c, u_ReservedCash := rc\<rparr>)) \<and> db w' = db w \<and>
      allStocks w' = allStocks w \<and> now w' = now w"
    using assms [OF r] funds_same [of "users w" i u, OF u] by simp
qed

lemma funds_quiet [simp]: "quiet op \<Longrightarrow> funds_step i op"
  by (rule funds_step_frame) (use quietD in \<open>fastforce simp: same_mem_def\<close>)

lemma funds_create [simp]: "funds_step i (createAsk r)" "funds_step i (createBid r)"
proof -
  show "funds_step i (createAsk r)"
  proof (rule funds_step_frame)
    fix w t ok w' t' assume r: "createAsk r (w, t) = (ok, w', t')"
    show "users w' = users w \<and> db w' = db w \<and> allStocks w' = allStocks w \<and> now w' = now w"
      using createAsk_frame(1,3-5) [OF r] by simp
  qed
  show "funds_step i (createBid r)"
  proof (rule funds_step_frame)
    fix w t ok w' t' assume r: "createBid r (w, t) = (ok, w', t')"
    show "users w' = users w \<and> db w' = db w \<and> allStocks w' = allStocks w \<and> now w' = now w"
      using createBid_frame(1,3-5) [OF r] by simp
  qed
qed

definition cash_op :: "(user \<Rightarrow> user) \<Rightarrow> bool" where
  "cash_op f \<longleftrightarrow> (\<forall>u. \<exists>c rc. f u = u\<lparr>u_Cash := c, u_ReservedCash := rc\<rparr>)"

text \<open>An operation that changes the user object and saves it.\<close>

definition save_changed :: "u32 \<Rightarrow> (user \<Rightarrow> user) \<Rightarrow> txop" where
  "save_changed i f = (\<lambda>(w, t). tx_save (save_user (f (usr w i))) (set_user i (f (usr w i)) w, t))"

lemma SubtractUserCash_changed: "SubtractUserCash i fee = save_changed i (\<lambda>u. u\<lparr>u_Cash := u_Cash u - fee\<rparr>)"
  by (simp add: SubtractUserCash_def save_changed_def Let_def)

lemma AddUserReservedCash_changed:
  "AddUserReservedCash i m = save_changed i (\<lambda>u. u\<lparr>u_ReservedCash := u_ReservedCash u + m\<rparr>)"
  by (simp add: AddUserReservedCash_def save_changed_def Let_def)

lemma save_changed_run:
  assumes "save_changed i f (w, t) = (ok, w', t')" "users w i = Some u"
  shows "users w' = (users w)(i \<mapsto> f u)" "db w' = db w" "allStocks w' = allStocks w" "now w' = now w"
    "ok \<Longrightarrow> t' = save_user (f u) t"
proof -
  have s: "tx_save (save_user (f u)) (set_user i (f u) w, t) = (ok, w', t')"
    using assms by (simp add: save_changed_def)
  show "users w' = (users w)(i \<mapsto> f u)" "db w' = db w" "allStocks w' = allStocks w" "now w' = now w"
    using quietD [OF quiet_save s] by (simp_all add: same_mem_def ledger_simps)
  show "ok \<Longrightarrow> t' = save_user (f u) t" using s tx_save_True by (cases ok) auto
qed

lemma funds_changed: "cash_op f \<Longrightarrow> funds_step i (save_changed i f)"
  unfolding funds_step_def cash_op_def using save_changed_run(1-4) by metis

lemma cash_op_cash [simp]:
  "cash_op (\<lambda>u. u\<lparr>u_Cash := g u\<rparr>)" "cash_op (\<lambda>u. u\<lparr>u_ReservedCash := g u\<rparr>)"
proof -
  have "u\<lparr>u_Cash := c\<rparr> = u\<lparr>u_Cash := c, u_ReservedCash := u_ReservedCash u\<rparr>"
    "u\<lparr>u_ReservedCash := c\<rparr> = u\<lparr>u_Cash := u_Cash u, u_ReservedCash := c\<rparr>" for u :: user and c
    by (cases u, simp)+
  then show "cash_op (\<lambda>u. u\<lparr>u_Cash := g u\<rparr>)" "cash_op (\<lambda>u. u\<lparr>u_ReservedCash := g u\<rparr>)"
    unfolding cash_op_def by blast+
qed

lemma funds_cash [simp]: "funds_step i (SubtractUserCash i fee)" "funds_step i (AddUserReservedCash i m)"
  by (simp_all add: SubtractUserCash_changed AddUserReservedCash_changed funds_changed)

lemma funds_seq:
  "list_all (funds_step i) ops \<Longrightarrow> tx_seq ops (w, t) = (ok, w', t') \<Longrightarrow> users w i = Some u \<Longrightarrow>
   (\<exists>c rc. users w' = (users w)(i \<mapsto> u\<lparr>u_Cash := c, u_ReservedCash := rc\<rparr>)) \<and> db w' = db w \<and>
     allStocks w' = allStocks w \<and> now w' = now w"
proof (induction ops arbitrary: w t u)
  case Nil
  then have "w' = w" by simp
  then show ?case using funds_same [of "users w" i u, OF Nil.prems(3)] by blast
next
  case (Cons op ops)
  obtain ok1 w1 t1 where s1: "op (w, t) = (ok1, w1, t1)" by (cases "op (w, t)")
  have "funds_step i op" using Cons.prems(1) by simp
  then obtain c rc where e1: "users w1 = (users w)(i \<mapsto> u\<lparr>u_Cash := c, u_ReservedCash := rc\<rparr>)" "db w1 = db w"
    "allStocks w1 = allStocks w" "now w1 = now w" using Cons.prems(3) s1 unfolding funds_step_def by blast
  show ?case
  proof (cases ok1)
    case False
    then have "w' = w1" using Cons.prems(2) s1 by simp
    then show ?thesis using e1 by blast
  next
    case True
    have "(\<exists>c' rc'. users w' = (users w1)(i \<mapsto> u\<lparr>u_Cash := c, u_ReservedCash := rc\<rparr>\<lparr>u_Cash := c', u_ReservedCash := rc'\<rparr>)) \<and>
        db w' = db w1 \<and> allStocks w' = allStocks w1 \<and> now w' = now w1"
      using Cons.prems s1 True e1(1) by (intro Cons.IH) auto
    then obtain c' rc' where "users w' = (users w)(i \<mapsto> u\<lparr>u_Cash := c', u_ReservedCash := rc'\<rparr>)"
      "db w' = db w" "allStocks w' = allStocks w" "now w' = now w" using e1 by auto
    then show ?thesis by blast
  qed
qed

lemma funds_run:
  assumes "list_all (funds_step i) ops" "tx_run ops w = (ok, w')" "users w i = Some u"
  shows "\<exists>c rc. users w' = (users w)(i \<mapsto> u\<lparr>u_Cash := c, u_ReservedCash := rc\<rparr>)" "\<not> ok \<Longrightarrow> db w' = db w"
    "allStocks w' = allStocks w" "now w' = now w"
proof -
  obtain ok1 w1 t1 where s: "tx_seq ops (w, db w) = (ok1, w1, t1)" by (cases "tx_seq ops (w, db w)")
  note f = funds_seq [OF assms(1) s assms(3)]
  obtain ok2 w2 where c: "db_ok w1 = (ok2, w2)" by fastforce
  have "users w' = users w1 \<and> (\<not> ok \<longrightarrow> db w' = db w1) \<and> allStocks w' = allStocks w1 \<and> now w' = now w1"
    using assms(2) s c db_ok_same [OF c] by (cases ok1; cases ok2) (auto simp: tx_run_def same_mem_def)
  then show "\<exists>c rc. users w' = (users w)(i \<mapsto> u\<lparr>u_Cash := c, u_ReservedCash := rc\<rparr>)" "\<not> ok \<Longrightarrow> db w' = db w"
    "allStocks w' = allStocks w" "now w' = now w" using f by auto
qed

text \<open>Operations that leave the reserved cash alone.\<close>

definition keeps_reserve :: "u32 \<Rightarrow> txop \<Rightarrow> bool" where
  "keeps_reserve i op \<longleftrightarrow> (\<forall>w t ok w' t' u. op (w, t) = (ok, w', t') \<longrightarrow> users w i = Some u \<longrightarrow>
     (\<exists>u'. users w' i = Some u' \<and> u_ReservedCash u' = u_ReservedCash u))"

lemma reserve_quiet [simp]: "quiet op \<Longrightarrow> keeps_reserve i op"
  unfolding keeps_reserve_def using quietD by (fastforce simp: same_mem_def)

lemma reserve_create [simp]: "keeps_reserve i (createAsk r)"
  unfolding keeps_reserve_def using createAsk_frame(1) by metis

lemma reserve_subtract [simp]: "keeps_reserve i (SubtractUserCash i fee)"
  unfolding keeps_reserve_def SubtractUserCash_changed using save_changed_run(1) by fastforce

lemma reserve_seq:
  "list_all (keeps_reserve i) ops \<Longrightarrow> tx_seq ops (w, t) = (ok, w', t') \<Longrightarrow> users w i = Some u \<Longrightarrow>
   \<exists>u'. users w' i = Some u' \<and> u_ReservedCash u' = u_ReservedCash u"
proof (induction ops arbitrary: w t u)
  case (Cons op ops)
  obtain ok1 w1 t1 where s1: "op (w, t) = (ok1, w1, t1)" by (cases "op (w, t)")
  have "keeps_reserve i op" using Cons.prems(1) by simp
  then obtain u1 where u1: "users w1 i = Some u1" "u_ReservedCash u1 = u_ReservedCash u"
    using Cons.prems(3) s1 unfolding keeps_reserve_def by blast
  show ?case
  proof (cases ok1)
    case True
    then show ?thesis using Cons.IH [of w1 t1 u1] Cons.prems s1 u1 by auto
  qed (use Cons.prems s1 u1 in auto)
qed auto

lemma reserve_run:
  assumes "list_all (keeps_reserve i) ops" "tx_run ops w = (ok, w')" "users w i = Some u"
  shows "\<exists>u'. users w' i = Some u' \<and> u_ReservedCash u' = u_ReservedCash u"
proof -
  obtain ok1 w1 t1 where s: "tx_seq ops (w, db w) = (ok1, w1, t1)" by (cases "tx_seq ops (w, db w)")
  obtain ok2 w2 where c: "db_ok w1 = (ok2, w2)" by fastforce
  have "users w' = users w1" using assms(2) s c db_ok_same [OF c] by (cases ok1; cases ok2) (auto simp: tx_run_def same_mem_def)
  then show ?thesis using reserve_seq [OF assms(1) s assms(3)] by simp
qed

section \<open>What an operation that went through has done\<close>

definition acct_step :: "u32 \<Rightarrow> user \<Rightarrow> user \<Rightarrow> transaction list \<Rightarrow> bool \<Rightarrow> txop \<Rightarrow> bool" where
  "acct_step i u u' trs saved op \<longleftrightarrow> u_Id u' = u_Id u \<and> (\<not> saved \<longrightarrow> u' = u) \<and>
     (\<forall>w t w' t'. op (w, t) = (True, w', t') \<longrightarrow> users w i = Some u \<longrightarrow>
       users w' = (users w)(i \<mapsto> u') \<and> adds_tx trs t t' \<and>
       (\<forall>j. row u_Id j (Users t') = (if saved \<and> j = u_Id u then Some u' else row u_Id j (Users t))))"

lemma acct_stepD:
  assumes "acct_step i u u' trs saved op" "op (w, t) = (True, w', t')" "users w i = Some u"
  shows "users w' = (users w)(i \<mapsto> u')" "adds_tx trs t t'"
    "row u_Id j (Users t') = (if saved \<and> j = u_Id u then Some u' else row u_Id j (Users t))"
  using assms unfolding acct_step_def by blast+

lemma acct_plain:
  assumes "\<And>w t w' t'. op (w, t) = (True, w', t') \<Longrightarrow> users w' = users w \<and> Users t' = Users t \<and> adds_tx trs t t'"
  shows "acct_step i u u trs False op"
  using assms unfolding acct_step_def by (auto simp: fun_upd_idem)

lemma acct_create [simp]: "acct_step i u u [] False (createAsk r)" "acct_step i u u [] False (createBid r)"
proof -
  show "acct_step i u u [] False (createAsk r)"
  proof (rule acct_plain)
    fix w t w' t' assume r: "createAsk r (w, t) = (True, w', t')"
    show "users w' = users w \<and> Users t' = Users t \<and> adds_tx [] t t'"
      using createAsk_frame(1,7) [OF r] by (simp add: save_ask_def adds_tx_def)
  qed
  show "acct_step i u u [] False (createBid r)"
  proof (rule acct_plain)
    fix w t w' t' assume r: "createBid r (w, t) = (True, w', t')"
    show "users w' = users w \<and> Users t' = Users t \<and> adds_tx [] t t'"
      using createBid_frame(1,7) [OF r] by (simp add: save_bid_def adds_tx_def)
  qed
qed

lemma acct_changed:
  assumes "cash_op f"
  shows "acct_step i u (f u) [] True (save_changed i f)"
proof -
  have id: "u_Id (f u) = u_Id u" using assms by (auto simp: cash_op_def dest: spec [of _ u])
  show ?thesis unfolding acct_step_def
  proof (intro conjI allI impI)
    fix w t w' t' assume r: "save_changed i f (w, t) = (True, w', t')" and u: "users w i = Some u"
    note d = save_changed_run [OF r u]
    show "users w' = (users w)(i \<mapsto> f u)" by (rule d(1))
    show "adds_tx [] t t'" "\<And>j. row u_Id j (Users t') = (if True \<and> j = u_Id u then Some (f u) else row u_Id j (Users t))"
      using d(5) id by (simp_all add: save_user_def adds_tx_def)
  qed (simp_all add: id)
qed

lemma acct_save_user: "acct_step i u u [] True (tx_save (save_user u))"
  unfolding acct_step_def
proof (intro conjI allI impI)
  fix w t w' t' assume r: "tx_save (save_user u) (w, t) = (True, w', t')" and u: "users w i = Some u"
  have t': "t' = save_user u t" by (rule tx_save_True [OF r])
  show "users w' = (users w)(i \<mapsto> u)" using quietD [OF quiet_save r] u by (auto simp: same_mem_def)
  show "adds_tx [] t t'" "\<And>j. row u_Id j (Users t') = (if True \<and> j = u_Id u then Some u else row u_Id j (Users t))"
    by (simp_all add: t' save_user_def adds_tx_def)
qed simp_all

lemma acct_insert [simp]: "acct_step i u u [tr] False (tx_insert (insert_tx tr))"
proof (rule acct_plain)
  fix w t w' t' assume r: "tx_insert (insert_tx tr) (w, t) = (True, w', t')"
  show "users w' = users w \<and> Users t' = Users t \<and> adds_tx [tr] t t'"
    using quietD [OF quiet_insert r] tx_insert_True [OF r] adds_tx_insert by (simp add: same_mem_def insert_tx_def)
qed

lemma acct_other_table:
  assumes "quiet op" "\<And>w t w' t'. op (w, t) = (True, w', t') \<Longrightarrow> Users t' = Users t \<and> Transactions t' = Transactions t"
  shows "acct_step i u u [] False op"
proof (rule acct_plain)
  fix w t w' t' assume r: "op (w, t) = (True, w', t')"
  show "users w' = users w \<and> Users t' = Users t \<and> adds_tx [] t t'"
    using quietD [OF assms(1) r] assms(2) [OF r] adds_tx_same by (simp add: same_mem_def)
qed

lemma acct_Nil [simp]: "acct_step i u u [] False (tx_seq [])"
  by (rule acct_plain) (simp add: adds_tx_def)

lemma acct_Cons:
  assumes 1: "acct_step i u u1 trs s1 op" and 2: "acct_step i u1 u2 trs2 s2 (tx_seq ops)"
  shows "acct_step i u u2 (trs @ trs2) (s1 \<or> s2) (tx_seq (op # ops))"
  unfolding acct_step_def
proof (intro conjI allI impI)
  show "u_Id u2 = u_Id u" "\<not> (s1 \<or> s2) \<Longrightarrow> u2 = u" using 1 2 by (auto simp: acct_step_def)
  fix w t w' t' assume r: "tx_seq (op # ops) (w, t) = (True, w', t')" and u: "users w i = Some u"
  obtain w1 t1 where r1: "op (w, t) = (True, w1, t1)" and r2: "tx_seq ops (w1, t1) = (True, w', t')"
    using r unfolding tx_seq_Cons_True by blast
  note d1 = acct_stepD [OF 1 r1 u]
  have u1: "users w1 i = Some u1" using d1(1) by simp
  note d2 = acct_stepD [OF 2 r2 u1]
  show "users w' = (users w)(i \<mapsto> u2)" using d1(1) d2(1) by simp
  show "adds_tx (trs @ trs2) t t'" by (rule adds_tx_trans [OF d1(2) d2(2)])
  have "u_Id u1 = u_Id u" "\<not> s2 \<longrightarrow> u2 = u1" using 1 2 by (auto simp: acct_step_def)
  then show "row u_Id j (Users t') = (if (s1 \<or> s2) \<and> j = u_Id u then Some u2 else row u_Id j (Users t))" for j
    using d1(3) [of j] d2(3) [of j] by auto
qed

text \<open>A committed transaction that changed one user keeps the accounts if its rows account for the change.\<close>

lemma acct_run:
  assumes "acct_step i u u' trs saved (tx_seq ops)" "tx_run ops w = (True, w')" "users w i = Some u"
  shows "users w' = (users w)(i \<mapsto> u')" "adds_tx trs (db w) (db w')"
    "row u_Id j (Users (db w')) = (if saved \<and> j = u_Id u then Some u' else row u_Id j (Users (db w)))"
proof -
  obtain w1 t1 where s0: "tx_seq ops (w, db w) = (True, w1, t1)" "db w' = t1" "same_mem w1 w'"
    by (rule tx_run_TrueE [OF assms(2)])
  then have s: "tx_seq ops (w, db w) = (True, w1, t1)" "db w' = t1" "users w' = users w1" by (simp_all add: same_mem_def)
  show "users w' = (users w)(i \<mapsto> u')" "adds_tx trs (db w) (db w')"
    "row u_Id j (Users (db w')) = (if saved \<and> j = u_Id u then Some u' else row u_Id j (Users (db w)))"
    using acct_stepD [OF assms(1) s(1) assms(3)] s by simp_all
qed

lemma acct_keeps:
  assumes r: "users w' = (users w)(i \<mapsto> u')" "adds_tx trs (db w) (db w')"
      "\<And>j. row u_Id j (Users (db w')) = (if j = u_Id u then Some u' else row u_Id j (Users (db w)))"
    and u: "users w i = Some u" "u_Id u' = u_Id u"
    and trs: "\<And>x. x \<in> set trs \<Longrightarrow> t_UserId x = i \<or> t_UserId x = 0"
    and cash: "u_Id u = i \<Longrightarrow> i \<noteq> 0 \<Longrightarrow> u_Cash u' = u_Cash u + total_of i trs"
  shows "keeps_accounts w w'"
  by (rule keeps_accounts_one [OF u(1) r(1) u(2) cash _ r(2) trs]) (use r(3) u(2) in auto)

end
