(* ===== verification/Placing_Proofs.thy ===== *)
theory Placing_Proofs
  imports Steps
begin

text \<open>
  Placing orders: an order that is placed takes its fee and its reserve out of the user's
  funds, a failing database leaves the funds as they were, and both keep the accounts. The
  share of the reserve that a trade or a cancellation releases is exact.
\<close>

section \<open>The operations of the transactions\<close>

lemma acct_subtract: "acct_step i u (u\<lparr>u_Cash := u_Cash u - fee\<rparr>) [] True (SubtractUserCash i fee)"
  unfolding SubtractUserCash_changed by (rule acct_changed) simp

lemma acct_reserve: "acct_step i u (u\<lparr>u_ReservedCash := u_ReservedCash u + m\<rparr>) [] True (AddUserReservedCash i m)"
  unfolding AddUserReservedCash_changed by (rule acct_changed) simp

text \<open>The operation that records the deposit reads the id of the order that was just created.\<close>

definition place_op :: "(world \<Rightarrow> u32) \<Rightarrow> transaction \<Rightarrow> bool \<Rightarrow> txop" where
  "place_op g tr isAsk = (\<lambda>(w, t). savePlaceOrderTransaction (g w) tr isAsk (w, t))"

lemma quiet_place_op [simp]: "quiet (place_op g tr isAsk)"
  unfolding quiet_def place_op_def using quietD [OF quiet_savePlaceOrder] by auto

lemma place_op_True:
  assumes "place_op g tr isAsk (w, t) = (True, w', t')"
  shows "t' = (insert_tx tr (nextId w) t)\<lparr>OrderDeposits := OrderDeposits t @
    [makeOrderDepositTransactionRef (nextId w) (g w) isAsk (now w)]\<rparr>"
proof -
  let ?f = "\<lambda>t. t\<lparr>OrderDeposits := OrderDeposits t @ [makeOrderDepositTransactionRef (nextId w) (g w) isAsk (now w)]\<rparr>"
  have "tx_seq [tx_insert (insert_tx tr), tx_save ?f] (w, t) = (True, w', t')"
    using assms by (simp add: place_op_def savePlaceOrderTransaction_def)
  then obtain w1 t1 where 1: "tx_insert (insert_tx tr) (w, t) = (True, w1, t1)" and 2: "tx_seq [tx_save ?f] (w1, t1) = (True, w', t')"
    unfolding tx_seq_Cons_True by blast
  from 2 obtain w2 t2 where 3: "tx_save ?f (w1, t1) = (True, w2, t2)" and 4: "tx_seq [] (w2, t2) = (True, w', t')"
    unfolding tx_seq_Cons_True by blast
  show ?thesis using tx_insert_True [OF 1] tx_save_True [OF 3] 4 by (simp add: insert_tx_def)
qed

lemma acct_place [simp]: "acct_step i u u [tr] False (place_op g tr isAsk)"
proof (rule acct_plain)
  fix w t w' t' assume r: "place_op g tr isAsk (w, t) = (True, w', t')"
  show "users w' = users w \<and> Users t' = Users t \<and> adds_tx [tr] t t'"
    using quietD [OF quiet_place_op r] place_op_True [OF r] by (simp add: same_mem_def insert_tx_def adds_tx_def)
qed

lemma lend_op_True:
  assumes "saveShortSellLendTransaction tr (w, t) = (True, w', t')"
  shows "Users t' = Users t \<and> adds_tx [tr] t t'"
proof -
  have b: "updateShortSellBank s q (w, t) = (True, w', t') \<Longrightarrow> Users t' = Users t \<and> Transactions t' = Transactions t"
    for s q w t w' t'
    by (auto simp: updateShortSellBank_def save_bank_def dest!: tx_save_True split: prod.splits sum.splits)
  obtain w1 t1 where 1: "updateShortSellBank (t_StockId tr) (- ucast (t_StockQuantity tr)) (w, t) = (True, w1, t1)"
    and r1: "tx_seq [tx_insert (insert_tx tr), createShortSellLend (t_StockId tr) (t_UserId tr) (ucast (t_StockQuantity tr))] (w1, t1) = (True, w', t')"
    using assms unfolding saveShortSellLendTransaction_def tx_seq_Cons_True by blast
  obtain w2 t2 where 2: "tx_insert (insert_tx tr) (w1, t1) = (True, w2, t2)"
    and r2: "tx_seq [createShortSellLend (t_StockId tr) (t_UserId tr) (ucast (t_StockQuantity tr))] (w2, t2) = (True, w', t')"
    using r1 unfolding tx_seq_Cons_True by blast
  obtain w3 t3 where 3: "createShortSellLend (t_StockId tr) (t_UserId tr) (ucast (t_StockQuantity tr)) (w2, t2) = (True, w3, t3)"
    and r3: "tx_seq [] (w3, t3) = (True, w', t')"
    using r2 unfolding tx_seq_Cons_True by blast
  show ?thesis using b [OF 1] tx_insert_True [OF 2] tx_insert_True [OF 3 [unfolded createShortSellLend_def]] r3
    by (auto simp: insert_tx_def insert_lend_def adds_tx_def)
qed

lemma acct_lend [simp]: "acct_step i u u [tr] False (saveShortSellLendTransaction tr)"
proof (rule acct_plain)
  fix w t w' t' assume r: "saveShortSellLendTransaction tr (w, t) = (True, w', t')"
  show "users w' = users w \<and> Users t' = Users t \<and> adds_tx [tr] t t'"
    using quietD [OF quiet_saveShortSellLend r] lend_op_True [OF r] by (simp add: same_mem_def)
qed

section \<open>Placing a bid\<close>

definition placed_user :: "u64 \<Rightarrow> u64 \<Rightarrow> user \<Rightarrow> user" where
  "placed_user fee reserved u = u\<lparr>u_Cash := u_Cash u - fee - reserved, u_ReservedCash := u_ReservedCash u + reserved\<rparr>"

definition fee_tx :: "u32 \<Rightarrow> u32 \<Rightarrow> u64 \<Rightarrow> string \<Rightarrow> transaction" where
  "fee_tx i s fee t = GetTransactionRef i s OrderFeeTransaction 0 0 0 0 (- fee) t"

definition bid_place_tx :: "u32 \<Rightarrow> u32 \<Rightarrow> u64 \<Rightarrow> string \<Rightarrow> transaction" where
  "bid_place_tx i s reserved t = GetTransactionRef i s PlaceOrderTransaction 0 0 0 reserved (- reserved) t"

lemma bid_order_ops_eq:
  "bid_order_ops i r fee reserved w =
     [createBid r, SubtractUserCash i fee, AddUserReservedCash i reserved,
      tx_insert (insert_tx (fee_tx i (o_StockId (bidObj w r)) fee (now w))), SubtractUserCash i reserved,
      place_op (\<lambda>w'. o_Id (bidObj w' r)) (bid_place_tx i (o_StockId (bidObj w r)) reserved (now w)) False]"
  by (simp add: bid_order_ops_def Let_def place_op_def fee_tx_def bid_place_tx_def)

lemma funds_bid_order_ops: "list_all (funds_step i) (bid_order_ops i r fee reserved w)"
  by (simp add: bid_order_ops_eq)

lemma acct_bid_order_ops:
  "acct_step i u (placed_user fee reserved u)
     [fee_tx i (o_StockId (bidObj w r)) fee (now w), bid_place_tx i (o_StockId (bidObj w r)) reserved (now w)]
     True (tx_seq (bid_order_ops i r fee reserved w))"
proof -
  note s = acct_Cons [OF acct_create(2) acct_Cons [OF acct_subtract acct_Cons [OF acct_reserve
    acct_Cons [OF acct_insert acct_Cons [OF acct_subtract acct_Cons [OF acct_place acct_Nil]]]]]]
  have "placed_user fee reserved u =
      (let u1 = u\<lparr>u_Cash := u_Cash u - fee\<rparr>; u2 = u1\<lparr>u_ReservedCash := u_ReservedCash u1 + reserved\<rparr>
       in u2\<lparr>u_Cash := u_Cash u2 - reserved\<rparr>)"
    by (cases u) (simp add: placed_user_def)
  then show ?thesis unfolding bid_order_ops_eq Let_def using s by simp
qed

lemma PlaceBid_commit_ok:
  assumes run: "PlaceBid_commit i r fee reserved w = ((oid, e), w')" and u: "users w i = Some u"
  obtains (Failed) "oid = 0" "e = None" "users w' = users w" "db w' = db w" "allStocks w' = allStocks w"
  | (Placed) "tx_run (bid_order_ops i r fee reserved w) w = (True, w')" "oid = o_Id (bidObj w' r)" "e = None"
      "users w' = (users w)(i \<mapsto> placed_user fee reserved u)"
      "adds_tx [fee_tx i (o_StockId (bidObj w r)) fee (now w), bid_place_tx i (o_StockId (bidObj w r)) reserved (now w)]
         (db w) (db w')"
      "\<And>j. row u_Id j (Users (db w')) = (if j = u_Id u then Some (placed_user fee reserved u) else row u_Id j (Users (db w)))"
      "allStocks w' = allStocks w"
proof -
  obtain ok w1 where t: "tx_run (bid_order_ops i r fee reserved w) w = (ok, w1)" by fastforce
  note f = funds_run [OF funds_bid_order_ops t u]
  show ?thesis
  proof (cases ok)
    case True
    then have w1: "w' = w1" "oid = o_Id (bidObj w' r)" "e = None" using run t by (auto simp: PlaceBid_commit_def Let_def)
    have t': "tx_run (bid_order_ops i r fee reserved w) w = (True, w')" using t True w1(1) by simp
    show ?thesis using acct_run [OF acct_bid_order_ops t' u] f(3) w1 t' by (intro Placed) auto
  next
    case False
    obtain c rc where us: "users w1 = (users w)(i \<mapsto> u\<lparr>u_Cash := c, u_ReservedCash := rc\<rparr>)" using f(1) by blast
    have "(usr w1 i)\<lparr>u_Cash := u_Cash u, u_ReservedCash := u_ReservedCash u\<rparr> = u" using us by (cases u) (simp add: usr_def)
    then have "oid = 0" "e = None" "w' = set_user i u w1"
      using run t False u by (auto simp: PlaceBid_commit_def Let_def)
    then show ?thesis using f(2,3) us u False by (intro Failed) (auto simp: ledger_simps)
  qed
qed

lemma PlaceBid_commit_accounts:
  assumes run: "PlaceBid_commit i r fee reserved w = ((oid, e), w')" and u: "users w i = Some u"
  shows "keeps_accounts w w'"
proof (rule PlaceBid_commit_ok [OF run u])
  assume "users w' = users w" "db w' = db w"
  then show ?thesis by (rule keeps_accounts_undone)
next
  assume r: "users w' = (users w)(i \<mapsto> placed_user fee reserved u)"
      "adds_tx [fee_tx i (o_StockId (bidObj w r)) fee (now w), bid_place_tx i (o_StockId (bidObj w r)) reserved (now w)]
         (db w) (db w')"
      "\<And>j. row u_Id j (Users (db w')) = (if j = u_Id u then Some (placed_user fee reserved u) else row u_Id j (Users (db w)))"
  show ?thesis by (rule acct_keeps [OF r u]) (auto simp: placed_user_def fee_tx_def bid_place_tx_def ledger_simps)
qed

text \<open>A bid is rejected before anything is written, or committed.\<close>

lemma PlaceBidOrder_cases:
  assumes run: "PlaceBidOrder i r w = Some ((oid, e), w')"
  obtains (Rejected) "e \<noteq> None" "oid = 0" "same_but_users w w'" "keeps_accounts w w'"
  | (Committed) w1 u price where "getUserExclusively i w = (None, w1)" "users w1 i = Some u"
      "size_ok (o_StockQuantity (bidObj w r))"
      "getOrderFeePrice (o_Price (bidObj w r)) (o_StockId (bidObj w r)) (o_OrderType (bidObj w r)) w1 = Some price"
      "\<not> s_less (u_Cash u - (o_StockQuantity (bidObj w r) * price + getOrderFee (o_StockQuantity (bidObj w r)) price)) 0"
      "PlaceBid_commit i r (getOrderFee (o_StockQuantity (bidObj w r)) price) (o_StockQuantity (bidObj w r) * price) w1 =
         ((oid, e), w')" "order_price_check (bidObj w r) w = Some None"
proof -
  let ?x = "bidObj w r"
  obtain pe where pe: "order_price_check ?x w = Some pe" using run by (auto simp: PlaceBidOrder_def Let_def bind_eq_Some_conv)
  obtain ue w1 where g: "getUserExclusively i w = (ue, w1)" by fastforce
  note f = getUserExclusively_frame(1,2) [OF g] and k = keeps_accounts_get [OF g]
  have o: "bidObj w1 = bidObj w" using f(1) by (simp add: same_but_users_def)
  obtain u where u: "users w1 i = Some u" using f(2) by auto
  show ?thesis
  proof (cases "pe \<noteq> None \<or> ue \<noteq> None \<or> \<not> size_ok (o_StockQuantity ?x)")
    case True
    then have "e \<noteq> None \<and> oid = 0 \<and> (w' = w \<or> w' = w1)"
      using run pe g by (cases pe) (auto simp: PlaceBidOrder_def Let_def split: if_splits)
    then show ?thesis using f k by (intro Rejected) auto
  next
    case False
    then obtain price where p: "getOrderFeePrice (o_Price ?x) (o_StockId ?x) (o_OrderType ?x) w1 = Some price"
      using run pe g by (auto simp: PlaceBidOrder_def Let_def bind_eq_Some_conv)
    let ?fee = "getOrderFee (o_StockQuantity ?x) price"
    show ?thesis
    proof (cases "s_less (u_Cash u - (o_StockQuantity ?x * price + ?fee)) 0")
      case True
      then have "e \<noteq> None \<and> oid = 0 \<and> w' = w1" using run pe g False p u by (auto simp: PlaceBidOrder_def Let_def)
      then show ?thesis using f k by (intro Rejected) auto
    next
      case no: False
      then have "PlaceBid_commit i r ?fee (o_StockQuantity ?x * price) w1 = ((oid, e), w')"
        using run pe g False p u by (auto simp: PlaceBidOrder_def Let_def)
      then show ?thesis using g u p no False pe by (intro Committed) auto
    qed
  qed
qed

lemma PlaceBidOrder_accounts:
  assumes run: "PlaceBidOrder i r w = Some ((oid, e), w')"
  shows "keeps_accounts w w'"
proof (rule PlaceBidOrder_cases [OF run])
  fix w1 u price assume g: "getUserExclusively i w = (None, w1)" and u: "users w1 i = Some u"
    and c: "PlaceBid_commit i r (getOrderFee (o_StockQuantity (bidObj w r)) price) (o_StockQuantity (bidObj w r) * price) w1 =
         ((oid, e), w')"
  show ?thesis using keeps_accounts_get [OF g] PlaceBid_commit_accounts [OF c u] keeps_accounts_trans by blast
qed

section \<open>Placing an ask\<close>

definition ask_place_tx :: "u32 \<Rightarrow> u32 \<Rightarrow> u64 \<Rightarrow> string \<Rightarrow> transaction" where
  "ask_place_tx i s q t = GetTransactionRef i s PlaceOrderTransaction q (- q) 0 0 0 t"

definition ask_lend_tx :: "u32 \<Rightarrow> u32 \<Rightarrow> i64 \<Rightarrow> u64 \<Rightarrow> string \<Rightarrow> transaction" where
  "ask_lend_tx i s short price t = GetTransactionRef i s ShortSellTransaction 0 short price 0 0 t"

definition ask_rows :: "u32 \<Rightarrow> order \<Rightarrow> u64 \<Rightarrow> i64 \<Rightarrow> u64 \<Rightarrow> string \<Rightarrow> transaction list" where
  "ask_rows i x fee short price t =
     fee_tx i (o_StockId x) fee t #
     (if s_less 0 short then [ask_lend_tx i (o_StockId x) short price t] else []) @
     [ask_place_tx i (o_StockId x) (o_StockQuantity x) t]"

lemma ask_order_ops_eq:
  "ask_order_ops i r fee short price w =
     [createAsk r, SubtractUserCash i fee,
      tx_insert (insert_tx (fee_tx i (o_StockId (askObj w r)) fee (now w)))] @
     (if s_less 0 short
      then [saveShortSellLendTransaction (ask_lend_tx i (o_StockId (askObj w r)) short price (now w))] else []) @
     [place_op (\<lambda>w'. o_Id (askObj w' r)) (ask_place_tx i (o_StockId (askObj w r)) (o_StockQuantity (askObj w r)) (now w)) True]"
  by (simp add: ask_order_ops_def Let_def place_op_def fee_tx_def ask_lend_tx_def ask_place_tx_def)

lemma funds_ask_order_ops: "list_all (funds_step i) (ask_order_ops i r fee short price w)"
  by (simp add: ask_order_ops_eq)

lemma reserve_ask_order_ops: "list_all (keeps_reserve i) (ask_order_ops i r fee short price w)"
  by (simp add: ask_order_ops_eq)

lemma acct_ask_order_ops:
  "acct_step i u (u\<lparr>u_Cash := u_Cash u - fee\<rparr>) (ask_rows i (askObj w r) fee short price (now w)) True
     (tx_seq (ask_order_ops i r fee short price w))"
proof (cases "s_less 0 short")
  case True
  show ?thesis
    using acct_Cons [OF acct_create(1) acct_Cons [OF acct_subtract acct_Cons [OF acct_insert
      acct_Cons [OF acct_lend acct_Cons [OF acct_place acct_Nil]]]]] True
    by (simp add: ask_order_ops_eq ask_rows_def)
next
  case False
  show ?thesis
    using acct_Cons [OF acct_create(1) acct_Cons [OF acct_subtract acct_Cons [OF acct_insert
      acct_Cons [OF acct_place acct_Nil]]]] False
    by (simp add: ask_order_ops_eq ask_rows_def)
qed

lemma PlaceAsk_commit_ok:
  assumes run: "PlaceAsk_commit i r fee short price w = ((oid, e), w')" and u: "users w i = Some u"
  obtains (Failed) "oid = 0" "e = None" "users w' = users w" "db w' = db w"
  | (Placed) "oid = o_Id (askObj w' r)" "e = None"
      "users w' = (users w)(i \<mapsto> u\<lparr>u_Cash := u_Cash u - fee\<rparr>)"
      "adds_tx (ask_rows i (askObj w r) fee short price (now w)) (db w) (db w')"
      "\<And>j. row u_Id j (Users (db w')) = (if j = u_Id u then Some (u\<lparr>u_Cash := u_Cash u - fee\<rparr>) else row u_Id j (Users (db w)))"
proof -
  obtain ok w1 where t: "tx_run (ask_order_ops i r fee short price w) w = (ok, w1)" by fastforce
  note f = funds_run [OF funds_ask_order_ops t u]
  show ?thesis
  proof (cases ok)
    case True
    then have w1: "w' = w1" "oid = o_Id (askObj w' r)" "e = None" using run t by (auto simp: PlaceAsk_commit_def Let_def)
    have t': "tx_run (ask_order_ops i r fee short price w) w = (True, w')" using t True w1(1) by simp
    show ?thesis using acct_run [OF acct_ask_order_ops t' u] w1 by (intro Placed) auto
  next
    case False
    obtain c rc where us: "users w1 = (users w)(i \<mapsto> u\<lparr>u_Cash := c, u_ReservedCash := rc\<rparr>)" using f(1) by blast
    have "rc = u_ReservedCash u" using reserve_run [OF reserve_ask_order_ops t u] us by auto
    then have "(usr w1 i)\<lparr>u_Cash := u_Cash u\<rparr> = u" using us by (cases u) (simp add: usr_def)
    then have "oid = 0" "e = None" "w' = set_user i u w1"
      using run t False u by (auto simp: PlaceAsk_commit_def Let_def)
    then show ?thesis using f(2) us u False by (intro Failed) (auto simp: ledger_simps)
  qed
qed

lemma PlaceAsk_commit_accounts:
  assumes run: "PlaceAsk_commit i r fee short price w = ((oid, e), w')" and u: "users w i = Some u"
  shows "keeps_accounts w w'"
proof (rule PlaceAsk_commit_ok [OF run u])
  assume "users w' = users w" "db w' = db w"
  then show ?thesis by (rule keeps_accounts_undone)
next
  assume r: "users w' = (users w)(i \<mapsto> u\<lparr>u_Cash := u_Cash u - fee\<rparr>)"
      "adds_tx (ask_rows i (askObj w r) fee short price (now w)) (db w) (db w')"
      "\<And>j. row u_Id j (Users (db w')) = (if j = u_Id u then Some (u\<lparr>u_Cash := u_Cash u - fee\<rparr>) else row u_Id j (Users (db w)))"
  show ?thesis
    by (rule acct_keeps [OF r u])
      (auto simp: ask_rows_def fee_tx_def ask_lend_tx_def ask_place_tx_def ledger_simps split: if_splits)
qed

text \<open>The questions asked before the transaction touch nothing.\<close>

lemma getSingleStockCount_mem: "getSingleStockCount u s w = (x, w') \<Longrightarrow> same_mem w w' \<and> db w' = db w"
  by (auto simp: getSingleStockCount_def Let_def dest: db_ok_same split: prod.splits if_splits)

lemma getUserShortSell_mem: "getUserShortSellStocks s i w = (x, w') \<Longrightarrow> same_mem w w' \<and> db w' = db w"
  by (auto simp: getUserShortSellStocks_def Let_def dest: db_ok_same split: prod.splits if_splits)

lemma short_sell_check_mem:
  assumes "short_sell_check x short w = (e, w')"
  shows "same_mem w w' \<and> db w' = db w"
proof (cases "s_less 0 short")
  case True
  obtain av w1 where 1: "getAvailableLendStocks (o_StockId x) w = (av, w1)" by fastforce
  obtain ls w2 where 2: "getUserShortSellStocks (o_StockId x) (o_UserId x) w1 = (ls, w2)" by fastforce
  have "w' = w1 \<or> w' = w2" using assms True 1 2
    by (auto simp: short_sell_check_def Let_def split: sum.splits if_splits)
  then show ?thesis using getAvailable_frame(1) [OF 1] getUserShortSell_mem [OF 2] same_mem_trans by auto
qed (use assms in \<open>simp add: short_sell_check_def\<close>)

lemma PlaceAskOrder_cases:
  assumes run: "PlaceAskOrder i r w = Some ((oid, e), w')"
  obtains (Rejected) w1 where "e \<noteq> None" "oid = 0" "keeps_accounts w w'" "same_but_users w w1" "same_mem w1 w'"
  | (Committed) w1 w2 u fee short price where "getUserExclusively i w = (None, w1)" "same_mem w1 w2" "db w2 = db w1"
      "users w2 i = Some u" "size_ok (o_StockQuantity (askObj w r))" "\<not> s_less (u_Cash u - fee) 0"
      "PlaceAsk_commit i r fee short price w2 = ((oid, e), w')" "order_price_check (askObj w r) w = Some None"
proof -
  let ?x = "askObj w r"
  obtain pe where pe: "order_price_check ?x w = Some pe" using run by (auto simp: PlaceAskOrder_def Let_def bind_eq_Some_conv)
  obtain ue w1 where g: "getUserExclusively i w = (ue, w1)" by fastforce
  note f = getUserExclusively_frame(1,2) [OF g] and k = keeps_accounts_get [OF g]
  obtain u where u: "users w1 i = Some u" using f(2) by auto
  obtain ns w2 where n: "getSingleStockCount u (o_StockId ?x) w1 = (ns, w2)" by fastforce
  note nm = getSingleStockCount_mem [OF n]
  show ?thesis
  proof (cases "pe \<noteq> None \<or> ue \<noteq> None \<or> \<not> size_ok (o_StockQuantity ?x) \<or> (\<exists>x. ns = Inl x)")
    case True
    then have r: "e \<noteq> None" "oid = 0" and "w' = w \<or> w' = w1 \<or> w' = w2"
      using run pe g n u by (cases pe; auto simp: PlaceAskOrder_def Let_def split: if_splits)+
    then consider "w' = w" | "w' = w1" | "w' = w2" by blast
    then show ?thesis
    proof cases
      case 1
      then show ?thesis using Rejected [OF r _ same_but_users_refl] by simp
    next
      case 2
      then show ?thesis using Rejected [OF r] k f(1) by simp
    next
      case 3
      have "keeps_accounts w w2" using k nm keeps_accounts_mem keeps_accounts_trans by blast
      then show ?thesis using Rejected [OF r _ f(1)] nm 3 by simp
    qed
  next
    case False
    then obtain num where num: "ns = Inr num" by (cases ns) auto
    let ?short = "shortsellQty num (o_StockQuantity ?x)"
    obtain se w3 where s: "short_sell_check ?x ?short w2 = (se, w3)" by fastforce
    have sm: "same_mem w1 w3" "db w3 = db w1" using short_sell_check_mem [OF s] nm same_mem_trans by auto
    have u3: "users w3 i = Some u" "askObj w3 r = ?x" using sm(1) u f(1) by (simp_all add: same_mem_def same_but_users_def)
    have k3: "keeps_accounts w w3" using k keeps_accounts_mem [OF sm] keeps_accounts_trans by blast
    show ?thesis
    proof (cases se)
      case (Some x)
      then have "e \<noteq> None \<and> oid = 0 \<and> w' = w3"
        using run pe g n u num s False by (auto simp: PlaceAskOrder_def Let_def split: if_splits)
      then show ?thesis using k3 f(1) sm(1) by (intro Rejected) auto
    next
      case None
      then have r3: "PlaceAsk_funds i r ?short w3 = Some ((oid, e), w')"
        using run pe g n u num s False by (auto simp: PlaceAskOrder_def Let_def split: if_splits)
      then obtain op where op: "getOrderFeePrice (o_Price ?x) (o_StockId ?x) (o_OrderType ?x) w3 = Some op"
        using u3 by (auto simp: PlaceAsk_funds_def Let_def bind_eq_Some_conv)
      let ?fee = "getOrderFee (o_StockQuantity ?x) op"
      show ?thesis
      proof (cases "s_less (u_Cash u - ?fee) 0")
        case True
        then have "e \<noteq> None \<and> oid = 0 \<and> w' = w3" using r3 op u3 by (auto simp: PlaceAsk_funds_def Let_def)
        then show ?thesis using k3 f(1) sm(1) by (intro Rejected) auto
      next
        case no: False
        then have "\<exists>p. PlaceAsk_commit i r ?fee ?short p w3 = ((oid, e), w')"
          using r3 op u3 by (auto simp: PlaceAsk_funds_def Let_def bind_eq_Some_conv)
        then obtain p where "PlaceAsk_commit i r ?fee ?short p w3 = ((oid, e), w')" by blast
        then show ?thesis using g sm u3 no False pe by (intro Committed [of w1 w3 u ?fee ?short p]) auto
      qed
    qed
  qed
qed

lemma PlaceAskOrder_accounts:
  assumes run: "PlaceAskOrder i r w = Some ((oid, e), w')"
  shows "keeps_accounts w w'"
proof (rule PlaceAskOrder_cases [OF run])
  fix w1 w2 u fee short price assume g: "getUserExclusively i w = (None, w1)" and m: "same_mem w1 w2" "db w2 = db w1"
    and u: "users w2 i = Some u" and c: "PlaceAsk_commit i r fee short price w2 = ((oid, e), w')"
  show ?thesis
    using keeps_accounts_get [OF g] keeps_accounts_mem [OF m] PlaceAsk_commit_accounts [OF c u] keeps_accounts_trans by blast
qed

section \<open>The share of a reserve\<close>

text \<open>
  A bid of \<open>whole\<close> shares at \<open>price\<close> reserves \<open>price * whole\<close>. The share of \<open>part\<close> shares is
  then exactly \<open>price * part\<close>, as long as the numbers stay below \<open>2 ^ 53\<close>.
\<close>

lemma of_int_div_exact: "1 \<le> k \<Longrightarrow> (of_int (p * k * q) :: rat) / of_int k = of_int (p * q)" for k :: int
  by simp

lemma reserve_share_exact:
  assumes r: "sint reserved = price * uint whole" and p: "uint part \<le> uint whole" "0 < uint whole" "0 \<le> price"
    and b: "price * uint whole * uint whole < 2 ^ 53"
  shows "reserve_share reserved part whole = word_of_int (price * uint part)"
proof -
  let ?W = "uint whole" and ?P = "uint part" and ?R = "price * uint whole"
  have W: "1 \<le> ?W" "?P \<le> ?W" using p(1,2) by simp_all
  have le: "price * ?W \<le> price * ?W * ?W" using W(1) p(3) mult_left_mono [of 1 ?W "price * ?W"] by simp
  have nn: "0 \<le> ?R" "0 \<le> price * ?P" "0 \<le> ?R * ?P" using p(3) by simp_all
  have RP: "?R * ?P \<le> ?R * ?W" using W(2) W(1) p(3) by (intro mult_left_mono) auto
  have Wb: "?W < 2 ^ 53" if "price \<noteq> 0"
  proof -
    have "1 * ?W \<le> price * ?W" using that W(1) p(3) by (intro mult_right_mono) auto
    then show ?thesis using le b by linarith
  qed
  show ?thesis
  proof (cases "price = 0")
    case True
    then have "f_of_i64 reserved = 0" using r by (simp add: f_of_i64_def)
    then show ?thesis using True p(2) by (auto simp: reserve_share_def fmul_def fdiv_def i64_of_f_def f_trunc_def)
  next
    case False
    have Pb: "?P < 2 ^ 53" using Wb [OF False] W(2) by linarith
    have fr: "f_of_i64 reserved = of_int ?R" unfolding f_of_i64_def r
      by (rule fl64_of_int) (use le b nn in auto)
    have fp: "f_of_u64 part = of_int ?P" using f_of_u64_exact [of part] Pb by simp
    have fw: "f_of_u64 whole = of_int ?W" using f_of_u64_exact [of whole] Wb [OF False] by simp
    have m: "fmul (of_int ?R) (of_int ?P) = of_int (?R * ?P)"
      unfolding fmul_def of_int_mult [symmetric] by (rule fl64_of_int) (use RP b nn in auto)
    have q: "(of_int (?R * ?P) :: rat) / of_int ?W = of_int (price * ?P)" by (rule of_int_div_exact [OF W(1)])
    have "price * ?P \<le> price * ?W" using W(2) W(1) p(3) by (intro mult_left_mono) auto
    then have "fdiv (of_int (?R * ?P)) (of_int ?W) = of_int (price * ?P)"
      unfolding fdiv_def q by (intro fl64_of_int) (use le b nn in auto)
    then have "i64_of_f (fdiv (fmul (f_of_i64 reserved) (f_of_u64 part)) (f_of_u64 whole)) = word_of_int (price * ?P)"
      unfolding fr fp fw m by (simp only: i64_of_f_def f_trunc_of_int)
    moreover have "whole \<noteq> 0" using p(2) by auto
    ultimately show ?thesis by (simp add: reserve_share_def)
  qed
qed

section \<open>Cancelling\<close>

lemma getBid_frame:
  assumes "getBid oid w = (r, w')"
  shows "users w' = users w" "db w' = db w" "allStocks w' = allStocks w"
    "bidsMap w oid = Some r' \<Longrightarrow> r = r' \<and> w' = w"
proof -
  have "users w' = users w \<and> db w' = db w \<and> allStocks w' = allStocks w \<and> (\<forall>r'. bidsMap w oid = Some r' \<longrightarrow> r = r' \<and> w' = w)"
  proof (cases "bidsMap w oid")
    case None
    obtain ok w1 where c: "db_ok w = (ok, w1)" by fastforce
    then show ?thesis using assms None db_ok_same [OF c]
      by (auto simp: getBid_def new_bid_def Let_def same_mem_def ledger_simps)
  qed (use assms in \<open>simp add: getBid_def\<close>)
  then show "users w' = users w" "db w' = db w" "allStocks w' = allStocks w"
    "bidsMap w oid = Some r' \<Longrightarrow> r = r' \<and> w' = w" by blast+
qed

lemma getAsk_frame:
  assumes "getAsk oid w = (r, w')"
  shows "users w' = users w" "db w' = db w" "allStocks w' = allStocks w"
    "asksMap w oid = Some r' \<Longrightarrow> r = r' \<and> w' = w"
proof -
  have "users w' = users w \<and> db w' = db w \<and> allStocks w' = allStocks w \<and> (\<forall>r'. asksMap w oid = Some r' \<longrightarrow> r = r' \<and> w' = w)"
  proof (cases "asksMap w oid")
    case None
    obtain ok w1 where c: "db_ok w = (ok, w1)" by fastforce
    then show ?thesis using assms None db_ok_same [OF c]
      by (auto simp: getAsk_def new_ask_def Let_def same_mem_def ledger_simps)
  qed (use assms in \<open>simp add: getAsk_def\<close>)
  then show "users w' = users w" "db w' = db w" "allStocks w' = allStocks w"
    "asksMap w oid = Some r' \<Longrightarrow> r = r' \<and> w' = w" by blast+
qed

text \<open>What a cancelled bid leaves: nothing changed, or the refund.\<close>

lemma CancelBid_outcome:
  assumes run: "CancelBid i oid w = ((res, e), w')" and u: "users w i = Some u"
  obtains (Failed) "e \<noteq> None" "res = None" "users w' = users w" "db w' = db w"
  | (Cancelled) r w1 tr rest m t where "e = None" "res = Some r" "getBid oid w = (r, w1)" "o_UserId (bidObj w1 r) = i"
      "\<not> o_IsClosed (bidObj w1 r)"
      "deposit_rows (o_Id (bidObj w1 r)) False (db w) = tr # rest"
      "m = reserve_share (- t_Total tr) (unfulfilled (bidObj w1 r)) (o_StockQuantity (bidObj w1 r))"
      "users w' = (users w)(i \<mapsto> refund_user m u)"
      "adds_tx [refund_tx (u_Id u) (o_StockId (bidObj w1 r)) m t] (db w) (db w')"
      "Users (db w') = upsert u_Id (refund_user m u) (Users (db w))"
      "row o_Id (o_Id (bidObj w1 r)) (Bids (db w')) = Some ((bidObj w1 r)\<lparr>o_IsClosed := True, o_UpdatedAt := now w1\<rparr>)"
proof -
  obtain r w1 where g: "getBid oid w = (r, w1)" by fastforce
  note gf = getBid_frame [OF g]
  let ?x = "bidObj w1 r"
  show ?thesis
  proof (cases "o_UserId ?x = i")
    case False
    then have "e \<noteq> None" "res = None" "w' = w1" using run g by (auto simp: CancelBid_def)
    then show ?thesis using gf by (intro Failed) auto
  next
    case own: True
    obtain ce w2 t2 where c: "Bid_Close r (w1, db w1) = (ce, w2, t2)" by (cases "Bid_Close r (w1, db w1)")
    note cf = Bid_Close_frame [OF c]
    show ?thesis
    proof (cases ce)
      case (Some x)
      then have "e \<noteq> None" "res = None" "w' = w2" using run g own c by (auto simp: CancelBid_def)
      then show ?thesis using gf cf by (intro Failed) auto
    next
      case None
      note cn = cf(7-9) [OF None]
      have x2: "bidObj w2 r = ?x\<lparr>o_IsClosed := True, o_UpdatedAt := now w1\<rparr>" using cn(2) by simp
      have u2: "users w2 i = Some u" "usr w2 i = u" using cf(1) gf(1) u by (simp_all add: usr_def)
      obtain e3 w3 t3 where s: "saveBidCancelOrderTransaction r i (w2, t2) = (e3, w3, t3)"
        by (cases "saveBidCancelOrderTransaction r i (w2, t2)")
      note sf = saveBidCancel_frame [OF s]
      define restore where "restore = (\<lambda>w'. set_user i ((usr w' i)\<lparr>u_Cash := u_Cash u, u_ReservedCash := u_ReservedCash u\<rparr>) w')"
      have res: "users (restore w5) = users w" if "users w5 = users w3" for w5
      proof -
        have "users w3 = users w2 \<or> (\<exists>m. users w3 = (users w2)(i \<mapsto> refund_user m u))" using sf(6) u2 by simp
        then have "users w5 = users w \<or> (\<exists>m. users w5 = (users w)(i \<mapsto> refund_user m u))"
          using that cf(1) gf(1) by simp
        then have "\<exists>c rc. users w5 = (users w)(i \<mapsto> u\<lparr>u_Cash := c, u_ReservedCash := rc\<rparr>)"
          unfolding refund_user_def using funds_same [of "users w" i u, OF u] by metis
        then obtain c rc where "users w5 = (users w)(i \<mapsto> u\<lparr>u_Cash := c, u_ReservedCash := rc\<rparr>)" by blast
        then show ?thesis using u by (cases u) (auto simp: restore_def ledger_simps usr_def)
      qed
      obtain ok w4 where k: "commit_tx (w3, t3) = (ok, w4)" by fastforce
      note kf = commit_tx_frame [OF k]
      have d3: "db w3 = db w" using sf(4) cf(4) gf(2) by simp
      show ?thesis
      proof (cases "e3 \<noteq> None \<or> \<not> ok")
        case True
        have "e \<noteq> None" "res = None" "w' = restore w3 \<or> w' = restore w4 \<and> \<not> ok"
          using run g own c None s k True u2(2) by (auto simp: CancelBid_def restore_def Let_def split: if_splits)
        then show ?thesis using res [of w3] res [of w4] kf d3
          by (intro Failed) (auto simp: restore_def ledger_simps same_mem_def)
      next
        case False
        then have ok: "e3 = None" "ok" by auto
        have r: "e = None" "res = Some r" "w' = w4" using run g own c None s k ok by (auto simp: CancelBid_def Let_def)
        obtain tr rest m where m: "deposit_rows (o_Id (bidObj w2 r)) False (db w2) = tr # rest"
          "m = reserve_share (- t_Total tr) (unfulfilled (bidObj w2 r)) (o_StockQuantity (bidObj w2 r))"
          "users w3 = (users w2)(i \<mapsto> refund_user m (usr w2 i))"
          "adds_tx [refund_tx (u_Id (usr w2 i)) (o_StockId (bidObj w2 r)) m (now w2)] t2 t3"
          "Users t3 = upsert u_Id (refund_user m (usr w2 i)) (Users t2)" "Bids t3 = Bids t2"
          using sf(7) [OF ok(1)] by blast
        have t2: "t2 = save_bid (?x\<lparr>o_IsClosed := True, o_UpdatedAt := now w1\<rparr>) (db w)" using cn(3) x2 gf(2) by simp
        have w4: "users w4 = users w3" "db w4 = t3" using kf ok by (simp_all add: same_mem_def)
        show ?thesis
        proof (rule Cancelled [OF r(1,2) g own cn(1)])
          show "deposit_rows (o_Id ?x) False (db w) = tr # rest"
            "m = reserve_share (- t_Total tr) (unfulfilled ?x) (o_StockQuantity ?x)"
            using m(1,2) x2 cf(4) gf(2) by (simp_all add: unfulfilled_def)
          show "users w' = (users w)(i \<mapsto> refund_user m u)" using r(3) w4(1) m(3) cf(1) gf(1) u2 by simp
          show "adds_tx [refund_tx (u_Id u) (o_StockId ?x) m (now w2)] (db w) (db w')"
            using m(4) r(3) w4(2) u2 x2 by (simp add: t2 adds_tx_def save_bid_def)
          show "Users (db w') = upsert u_Id (refund_user m u) (Users (db w))"
            using m(5) r(3) w4(2) u2 by (simp add: t2 save_bid_def)
          show "row o_Id (o_Id ?x) (Bids (db w')) = Some (?x\<lparr>o_IsClosed := True, o_UpdatedAt := now w1\<rparr>)"
            using m(6) r(3) w4(2) by (simp add: t2 save_bid_def)
        qed
      qed
    qed
  qed
qed

end
