(* ===== verification/Cancelling.thy ===== *)
theory Cancelling
  imports Placing_Proofs
begin

text \<open>
  Cancelling keeps the accounts, and a bid that is placed and then cancelled costs the fee
  and nothing else.
\<close>

section \<open>The accounts\<close>

lemma keeps_accounts_zero:
  assumes "users w' = users w" "Users (db w') = Users (db w)" "adds_tx trs (db w) (db w')"
    and "\<And>x. x \<in> set trs \<Longrightarrow> t_Total x = 0"
  shows "keeps_accounts w w'"
proof (rule keeps_accountsI [where us = "{}" and trs = trs])
  show "total_of j trs = 0" for j using assms(4) by (induction trs) auto
qed (use assms in auto)

lemma CancelBid_accounts:
  assumes run: "CancelBid i oid w = ((res, e), w')" and u: "users w i = Some u"
  shows "keeps_accounts w w'"
proof (rule CancelBid_outcome [OF run u])
  assume "users w' = users w" "db w' = db w"
  then show ?thesis by (rule keeps_accounts_undone)
next
  fix r w1 m t
  assume d: "users w' = (users w)(i \<mapsto> refund_user m u)"
    "adds_tx [refund_tx (u_Id u) (o_StockId (bidObj w1 r)) m t] (db w) (db w')"
    "Users (db w') = upsert u_Id (refund_user m u) (Users (db w))"
  show ?thesis
  proof (cases "keyed w")
    case False
    then show ?thesis by (simp add: keeps_accounts_def)
  next
    case True
    then have "u_Id u = i \<or> u_Id u = 0" using u by (auto simp: keyed_def)
    then show ?thesis
      by (intro keeps_accounts_one [OF u d(1) _ _ _ d(2)]) (auto simp: d(3) refund_user_def refund_tx_def ledger_simps)
  qed
qed

lemma CancelAsk_outcome:
  assumes run: "CancelAsk i oid w = ((res, e), w')" and u: "users w i = Some u"
  obtains (Failed) "e \<noteq> None" "res = None" "users w' = users w" "db w' = db w"
  | (Cancelled) r w1 t where "e = None" "res = Some r" "getAsk oid w = (r, w1)" "o_UserId (askObj w1 r) = i"
      "\<not> o_IsClosed (askObj w1 r)" "users w' = users w" "Users (db w') = Users (db w)"
      "adds_tx [GetTransactionRef (u_Id u) (o_StockId (askObj w1 r)) CancelOrderTransaction
         (- unfulfilled (askObj w1 r)) (unfulfilled (askObj w1 r)) 0 0 0 t] (db w) (db w')"
      "row o_Id (o_Id (askObj w1 r)) (Asks (db w')) = Some ((askObj w1 r)\<lparr>o_IsClosed := True, o_UpdatedAt := now w1\<rparr>)"
proof -
  obtain r w1 where g: "getAsk oid w = (r, w1)" by fastforce
  note gf = getAsk_frame [OF g]
  let ?x = "askObj w1 r"
  show ?thesis
  proof (cases "o_UserId ?x = i")
    case False
    then have "e \<noteq> None" "res = None" "w' = w1" using run g by (auto simp: CancelAsk_def)
    then show ?thesis using gf by (intro Failed) auto
  next
    case own: True
    obtain ce w2 t2 where c: "Ask_Close r (w1, db w1) = (ce, w2, t2)" by (cases "Ask_Close r (w1, db w1)")
    note cf = Ask_Close_frame [OF c]
    show ?thesis
    proof (cases ce)
      case (Some x)
      then have "e \<noteq> None" "res = None" "w' = w2" using run g own c by (auto simp: CancelAsk_def)
      then show ?thesis using gf cf by (intro Failed) auto
    next
      case None
      note cn = cf(7-9) [OF None]
      have x2: "askObj w2 r = ?x\<lparr>o_IsClosed := True, o_UpdatedAt := now w1\<rparr>" using cn(2) by simp
      have u2: "usr w2 i = u" using cf(1) gf(1) u by (simp add: usr_def)
      let ?tr = "GetTransactionRef (u_Id u) (o_StockId ?x) CancelOrderTransaction (- unfulfilled ?x) (unfulfilled ?x) 0 0 0 (now w2)"
      have op: "saveAskCancelOrderTransaction r i (w2, t2) = tx_insert (insert_tx ?tr) (w2, t2)"
        using x2 u2 by (simp add: saveAskCancelOrderTransaction_def unfulfilled_def)
      obtain ok w3 t3 where s: "tx_insert (insert_tx ?tr) (w2, t2) = (ok, w3, t3)"
        by (cases "tx_insert (insert_tx ?tr) (w2, t2)")
      note sf = quietD [OF quiet_insert s]
      obtain ok2 w4 where k: "commit_tx (w3, t3) = (ok2, w4)" by fastforce
      note kf = commit_tx_frame [OF k]
      have d3: "users w3 = users w" "db w3 = db w" "users w4 = users w"
        using sf cf(1,4) gf(1,2) kf(1) by (simp_all add: same_mem_def)
      show ?thesis
      proof (cases "ok \<and> ok2")
        case False
        then have "e \<noteq> None" "res = None" "w' = w3 \<or> w' = w4 \<and> \<not> ok2"
          using run g own c None s k op by (auto simp: CancelAsk_def split: if_splits)
        then show ?thesis using d3 kf by (intro Failed) auto
      next
        case True
        have r: "e = None" "res = Some r" "w' = w4" using run g own c None s k op True by (auto simp: CancelAsk_def)
        have t2: "t2 = save_ask (?x\<lparr>o_IsClosed := True, o_UpdatedAt := now w1\<rparr>) (db w)" using cn(3) x2 gf(2) by simp
        have "t3 = insert_tx ?tr (nextId w2) t2" using s True tx_insert_True by auto
        then have d: "db w' = insert_tx ?tr (nextId w2) t2" using r(3) kf(2) True by simp
        show ?thesis
        proof (rule Cancelled [OF r(1,2) g own cn(1)])
          show "users w' = users w" using r(3) d3 by simp
          show "Users (db w') = Users (db w)" using d by (simp add: t2 insert_tx_def save_ask_def)
          show "adds_tx [?tr] (db w) (db w')" using d by (simp add: t2 insert_tx_def save_ask_def adds_tx_def)
          show "row o_Id (o_Id ?x) (Asks (db w')) = Some (?x\<lparr>o_IsClosed := True, o_UpdatedAt := now w1\<rparr>)"
            using d by (simp add: t2 insert_tx_def save_ask_def)
        qed
      qed
    qed
  qed
qed

lemma CancelAsk_accounts:
  assumes run: "CancelAsk i oid w = ((res, e), w')" and u: "users w i = Some u"
  shows "keeps_accounts w w'"
proof (rule CancelAsk_outcome [OF run u])
  assume "users w' = users w" "db w' = db w"
  then show ?thesis by (rule keeps_accounts_undone)
next
  fix r w1 t
  assume d: "users w' = users w" "Users (db w') = Users (db w)"
      "adds_tx [GetTransactionRef (u_Id u) (o_StockId (askObj w1 r)) CancelOrderTransaction
         (- unfulfilled (askObj w1 r)) (unfulfilled (askObj w1 r)) 0 0 0 t] (db w) (db w')"
  show ?thesis by (rule keeps_accounts_zero [OF d]) (simp add: ledger_simps)
qed

lemma CancelOrder_accounts:
  assumes run: "CancelOrder i oid isAsk w = (res, w')"
  shows "keeps_accounts w w'"
proof -
  obtain ue w1 where g: "getUserExclusively i w = (ue, w1)" by fastforce
  obtain u where u: "users w1 i = Some u" using getUserExclusively_frame(2) [OF g] by auto
  obtain ra ea wa where a: "CancelAsk i oid w1 = ((ra, ea), wa)" by (metis prod.collapse)
  obtain rb eb wb where b: "CancelBid i oid w1 = ((rb, eb), wb)" by (metis prod.collapse)
  have "w' = w1 \<or> w' = wa \<or> w' = wb" using run g a b by (auto simp: CancelOrder_def split: if_splits)
  then show ?thesis
    using keeps_accounts_get [OF g] CancelAsk_accounts [OF a u] CancelBid_accounts [OF b u] keeps_accounts_trans by blast
qed

section \<open>The deposit of a bid\<close>

text \<open>No row carries the keys the database gives out next.\<close>

definition fresh_keys :: "world \<Rightarrow> bool" where
  "fresh_keys w \<longleftrightarrow>
     (\<forall>x \<in> set (Transactions (db w)). t_Id x \<noteq> nextId w + 1 + 1) \<and>
     (\<forall>x \<in> set (OrderDeposits (db w)). od_OrderId x \<noteq> nextId w)"

text \<open>The tables after a bid was placed, as far as the deposit is concerned.\<close>

lemma save_changed_more:
  assumes "save_changed i f (w, t) = (True, w', t')"
  shows "bidObj w' = bidObj w" "bidsMap w' = bidsMap w" "nextId w' = nextId w" "Transactions t' = Transactions t"
    "OrderDeposits t' = OrderDeposits t" "Bids t' = Bids t"
proof -
  have s: "tx_save (save_user (f (usr w i))) (set_user i (f (usr w i)) w, t) = (True, w', t')"
    using assms by (simp add: save_changed_def)
  show "bidObj w' = bidObj w" "bidsMap w' = bidsMap w"
    using quietD [OF quiet_save s] by (simp_all add: same_mem_def ledger_simps)
  show "nextId w' = nextId w" using s by (auto simp: tx_save_def Let_def ledger_simps dest: db_ok_same split: prod.splits)
  show "Transactions t' = Transactions t" "OrderDeposits t' = OrderDeposits t" "Bids t' = Bids t"
    using tx_save_True [OF s] by (simp_all add: save_user_def)
qed

lemma insert_more:
  assumes "tx_insert (insert_tx tr) (w, t) = (True, w', t')"
  shows "bidObj w' = bidObj w" "bidsMap w' = bidsMap w" "nextId w' = nextId w + 1"
    "Transactions t' = Transactions t @ [tr\<lparr>t_Id := nextId w\<rparr>]" "OrderDeposits t' = OrderDeposits t" "Bids t' = Bids t"
proof -
  show "bidObj w' = bidObj w" "bidsMap w' = bidsMap w" using quietD [OF quiet_insert assms] by (simp_all add: same_mem_def)
  show "nextId w' = nextId w + 1" using assms
    by (auto simp: tx_insert_def Let_def dest: db_ok_same split: prod.splits if_splits)
  show "Transactions t' = Transactions t @ [tr\<lparr>t_Id := nextId w\<rparr>]" "OrderDeposits t' = OrderDeposits t" "Bids t' = Bids t"
    using tx_insert_True [OF assms] by (simp_all add: insert_tx_def)
qed

lemma createBid_more:
  assumes "createBid r (w, t) = (True, w', t')"
  shows "bidObj w' = (bidObj w)(r := (bidObj w r)\<lparr>o_CreatedAt := now w, o_UpdatedAt := now w, o_Id := nextId w\<rparr>)"
    "bidsMap w' (nextId w) = Some r" "nextId w' = nextId w + 1" "Transactions t' = Transactions t"
    "OrderDeposits t' = OrderDeposits t" "row o_Id (nextId w) (Bids t') = Some (bidObj w' r)"
proof -
  let ?x = "(bidObj w r)\<lparr>o_CreatedAt := now w, o_UpdatedAt := now w\<rparr>"
  obtain k w1 where c: "db_ok (set_bid r ?x w) = (k, w1)" by fastforce
  have m: "bidObj w1 = (bidObj w)(r := ?x)" "nextId w1 = nextId w"
    using db_ok_same [OF c] by (simp_all add: same_mem_def ledger_simps)
  let ?x' = "?x\<lparr>o_Id := nextId w1\<rparr>"
  have "k" "w' = (set_bid r ?x' w1)\<lparr>bidsMap := (bidsMap w1)(nextId w1 \<mapsto> r), nextId := nextId w1 + 1\<rparr>" "t' = save_bid ?x' t"
    using assms c by (cases k; simp add: createBid_def Let_def)+
  then show "bidObj w' = (bidObj w)(r := (bidObj w r)\<lparr>o_CreatedAt := now w, o_UpdatedAt := now w, o_Id := nextId w\<rparr>)"
    "bidsMap w' (nextId w) = Some r" "nextId w' = nextId w + 1" "Transactions t' = Transactions t"
    "OrderDeposits t' = OrderDeposits t" "row o_Id (nextId w) (Bids t') = Some (bidObj w' r)"
    using m by (simp_all add: ledger_simps save_bid_def)
qed

lemma place_more:
  assumes "place_op g tr isAsk (w, t) = (True, w', t')"
  shows "bidObj w' = bidObj w" "bidsMap w' = bidsMap w" "Transactions t' = Transactions t @ [tr\<lparr>t_Id := nextId w\<rparr>]"
    "OrderDeposits t' = OrderDeposits t @ [makeOrderDepositTransactionRef (nextId w) (g w) isAsk (now w)]" "Bids t' = Bids t"
  using quietD [OF quiet_place_op assms] place_op_True [OF assms] by (simp_all add: same_mem_def insert_tx_def)

lemma concat_if: "concat (map (\<lambda>x. if P x then f x else []) xs) = concat (map f (filter P xs))"
  by (induction xs) auto

lemma concat_single: "concat (map (\<lambda>x. if P x then [x] else []) xs) = filter P xs"
  by (induction xs) auto

lemma deposit_rows_filter:
  "deposit_rows oid isAsk t =
     concat (map (\<lambda>od. filter (\<lambda>tr. t_Id tr = od_TransactionId od) (Transactions t))
       (filter (\<lambda>od. od_OrderId od = oid \<and> od_IsAsk od = isAsk) (OrderDeposits t)))"
  unfolding deposit_rows_def concat_single by (rule concat_if)

text \<open>The new deposit is the only one of the new order.\<close>

lemma deposit_rows_new:
  assumes T: "Transactions t' = Transactions t @ [x, tr\<lparr>t_Id := k\<rparr>]" and D: "OrderDeposits t' = OrderDeposits t @ [makeOrderDepositTransactionRef k oid isAsk c]"
    and f: "\<forall>x \<in> set (Transactions t). t_Id x \<noteq> k" "\<forall>x \<in> set (OrderDeposits t). od_OrderId x \<noteq> oid" "t_Id x \<noteq> k"
  shows "deposit_rows oid isAsk t' = [tr\<lparr>t_Id := k\<rparr>]"
proof -
  have 1: "filter (\<lambda>tr. t_Id tr = k) (Transactions t) = []" using f(1) by (simp add: filter_empty_conv)
  have 2: "filter (\<lambda>od. od_OrderId od = oid \<and> od_IsAsk od = isAsk) (OrderDeposits t) = []" using f(2) by (simp add: filter_empty_conv)
  show ?thesis unfolding deposit_rows_filter T D makeOrderDepositTransactionRef_def filter_append 2 using 1 f(3) by simp
qed

lemma bid_order_done:
  assumes run: "tx_run (bid_order_ops i r fee reserved w) w = (True, w')"
  shows "bidObj w' = (bidObj w)(r := (bidObj w r)\<lparr>o_CreatedAt := now w, o_UpdatedAt := now w, o_Id := nextId w\<rparr>)"
    "bidsMap w' (nextId w) = Some r" "row o_Id (nextId w) (Bids (db w')) = Some (bidObj w' r)"
    "fresh_keys w \<Longrightarrow> deposit_rows (nextId w) False (db w') =
       [(bid_place_tx i (o_StockId (bidObj w r)) reserved (now w))\<lparr>t_Id := nextId w + 1 + 1\<rparr>]"
proof (atomize (full), goal_cases)
  case 1
  let ?fee = "fee_tx i (o_StockId (bidObj w r)) fee (now w)" and ?place = "bid_place_tx i (o_StockId (bidObj w r)) reserved (now w)"
  obtain w6 t6 where s: "tx_seq (bid_order_ops i r fee reserved w) (w, db w) = (True, w6, t6)" and d: "db w' = t6"
    and m: "same_mem w6 w'" by (rule tx_run_TrueE [OF run])
  have m6: "bidObj w' = bidObj w6" "bidsMap w' = bidsMap w6" using m by (simp_all add: same_mem_def)
  note s0 = s [unfolded bid_order_ops_eq]
  obtain w1 t1 where r1: "createBid r (w, db w) = (True, w1, t1)"
    and s1: "tx_seq [SubtractUserCash i fee, AddUserReservedCash i reserved, tx_insert (insert_tx ?fee), SubtractUserCash i reserved, place_op (\<lambda>w'. o_Id (bidObj w' r)) ?place False] (w1, t1) = (True, w6, t6)"
    by (rule tx_seq_ConsE [OF s0])
  obtain w2 t2 where r2: "SubtractUserCash i fee (w1, t1) = (True, w2, t2)"
    and s2: "tx_seq [AddUserReservedCash i reserved, tx_insert (insert_tx ?fee), SubtractUserCash i reserved, place_op (\<lambda>w'. o_Id (bidObj w' r)) ?place False] (w2, t2) = (True, w6, t6)"
    by (rule tx_seq_ConsE [OF s1])
  obtain w3 t3 where r3: "AddUserReservedCash i reserved (w2, t2) = (True, w3, t3)"
    and s3: "tx_seq [tx_insert (insert_tx ?fee), SubtractUserCash i reserved, place_op (\<lambda>w'. o_Id (bidObj w' r)) ?place False] (w3, t3) = (True, w6, t6)"
    by (rule tx_seq_ConsE [OF s2])
  obtain w4 t4 where r4: "tx_insert (insert_tx ?fee) (w3, t3) = (True, w4, t4)"
    and s4: "tx_seq [SubtractUserCash i reserved, place_op (\<lambda>w'. o_Id (bidObj w' r)) ?place False] (w4, t4) = (True, w6, t6)"
    by (rule tx_seq_ConsE [OF s3])
  obtain w5 t5 where r5: "SubtractUserCash i reserved (w4, t4) = (True, w5, t5)"
    and s5: "tx_seq [place_op (\<lambda>w'. o_Id (bidObj w' r)) ?place False] (w5, t5) = (True, w6, t6)"
    by (rule tx_seq_ConsE [OF s4])
  obtain v6 q6 where r6: "place_op (\<lambda>w'. o_Id (bidObj w' r)) ?place False (w5, t5) = (True, v6, q6)"
    and s6: "tx_seq [] (v6, q6) = (True, w6, t6)"
    by (rule tx_seq_ConsE [OF s5])
  have r6: "place_op (\<lambda>w'. o_Id (bidObj w' r)) ?place False (w5, t5) = (True, w6, t6)" using r6 s6 by simp
  note c1 = createBid_more [OF r1]
  note c2 = save_changed_more [OF r2 [unfolded SubtractUserCash_changed]]
  note c3 = save_changed_more [OF r3 [unfolded AddUserReservedCash_changed]]
  note c4 = insert_more [OF r4]
  note c5 = save_changed_more [OF r5 [unfolded SubtractUserCash_changed]]
  note c6 = place_more [OF r6]
  let ?x = "(bidObj w r)\<lparr>o_CreatedAt := now w, o_UpdatedAt := now w, o_Id := nextId w\<rparr>"
  have b6: "bidObj w6 = (bidObj w)(r := ?x)" and b5: "o_Id (bidObj w5 r) = nextId w"
    using c1(1) c2(1) c3(1) c4(1) c5(1) c6(1) by simp_all
  have n5: "nextId w5 = nextId w + 1 + 1" and n3: "nextId w3 = nextId w + 1"
    using c1(3) c2(3) c3(3) c4(3) c5(3) by simp_all
  have T: "Transactions t6 = Transactions (db w) @ [?fee\<lparr>t_Id := nextId w + 1\<rparr>, ?place\<lparr>t_Id := nextId w + 1 + 1\<rparr>]"
    using c1(4) c2(4) c3(4) c4(4) c5(4) c6(3) n5 n3 by simp
  have D: "OrderDeposits t6 = OrderDeposits (db w) @ [makeOrderDepositTransactionRef (nextId w + 1 + 1) (nextId w) False (now w5)]"
    using c1(5) c2(5) c3(5) c4(5) c5(5) c6(4) n5 b5 by simp
  have "row o_Id (nextId w) (Bids t6) = Some (bidObj w6 r)"
    using c1(6) c2(6) c3(6) c4(6) c5(6) c6(5) b6 c1(1) by simp
  moreover have "bidsMap w6 (nextId w) = Some r" using c1(2) c2(2) c3(2) c4(2) c5(2) c6(2) by simp
  moreover have "deposit_rows (nextId w) False t6 = [?place\<lparr>t_Id := nextId w + 1 + 1\<rparr>]" if "fresh_keys w"
  proof (rule deposit_rows_new [OF T D])
    show "\<forall>x \<in> set (Transactions (db w)). t_Id x \<noteq> nextId w + 1 + 1" "\<forall>x \<in> set (OrderDeposits (db w)). od_OrderId x \<noteq> nextId w"
      using that unfolding fresh_keys_def by blast+
    show "t_Id (?fee\<lparr>t_Id := nextId w + 1\<rparr>) \<noteq> nextId w + 1 + 1" by simp
  qed
  ultimately show ?case using m6 b6 d by simp
qed

section \<open>Placing and cancelling\<close>

lemma reliable_createBid [simp]: "reliable (createBid r)"
  by (auto simp: reliable_def createBid_def Let_def db_ok_def set_bid_def)

lemma reliable_changed: "reliable (save_changed i f)"
  by (simp add: reliable_def save_changed_def set_user_def)

lemma reliable_cash [simp]: "reliable (SubtractUserCash i fee)" "reliable (AddUserReservedCash i m)"
  by (simp_all add: SubtractUserCash_changed AddUserReservedCash_changed reliable_changed)

lemma reliable_place_op [simp]: "reliable (place_op g tr isAsk)"
  unfolding reliable_def place_op_def savePlaceOrderTransaction_def prod.case
  by (intro allI impI reliable_seq) simp_all

lemma PlaceBidOrder_live:
  assumes "outcomes w = []" and u: "users w i = Some u" and pc: "order_price_check (bidObj w r) w = Some None"
    and sz: "size_ok (o_StockQuantity (bidObj w r))"
    and p: "getOrderFeePrice (o_Price (bidObj w r)) (o_StockId (bidObj w r)) (o_OrderType (bidObj w r)) w = Some price"
    and cash: "\<not> s_less (u_Cash u - (o_StockQuantity (bidObj w r) * price + getOrderFee (o_StockQuantity (bidObj w r)) price)) 0"
  obtains w' where "PlaceBidOrder i r w = Some ((nextId w, None), w')" "outcomes w' = []"
    "tx_run (bid_order_ops i r (getOrderFee (o_StockQuantity (bidObj w r)) price) (o_StockQuantity (bidObj w r) * price) w) w = (True, w')"
proof -
  let ?q = "o_StockQuantity (bidObj w r)"
  let ?ops = "bid_order_ops i r (getOrderFee ?q price) (?q * price) w"
  have "list_all reliable ?ops" by (simp add: bid_order_ops_eq)
  from reliable_run [OF this assms(1)] obtain w' where t: "tx_run ?ops w = (True, w')" "outcomes w' = []" by blast
  have "getUserExclusively i w = (None, w)" using u by (simp add: getUserExclusively_def)
  then have "PlaceBidOrder i r w = Some (PlaceBid_commit i r (getOrderFee ?q price) (?q * price) w)"
    using u pc sz p cash by (simp add: PlaceBidOrder_def Let_def)
  then have "PlaceBidOrder i r w = Some ((o_Id (bidObj w' r), None), w')" using t by (simp add: PlaceBid_commit_def)
  then show ?thesis using that t bid_order_done(1) [OF t(1)] by simp
qed

lemma Bid_Close_nil:
  "outcomes w = [] \<Longrightarrow> \<not> o_IsClosed (bidObj w r) \<Longrightarrow> \<exists>w' t'. Bid_Close r (w, t) = (None, w', t') \<and> outcomes w' = []"
  by (auto simp: Bid_Close_def Let_def db_ok_def set_bid_def)

lemma CancelBid_live:
  assumes "outcomes w = []" "bidsMap w oid = Some r" "o_UserId (bidObj w r) = i" "\<not> o_IsClosed (bidObj w r)"
    and d: "deposit_rows (o_Id (bidObj w r)) False (db w) = tr # rest"
  shows "\<exists>w'. CancelBid i oid w = ((Some r, None), w')"
proof -
  have g: "getBid oid w = (r, w)" using assms(2) by (simp add: getBid_def)
  obtain w2 t2 where c: "Bid_Close r (w, db w) = (None, w2, t2)" "outcomes w2 = []"
    using Bid_Close_nil [OF assms(1,4)] by blast
  note cf = Bid_Close_frame [OF c(1)]
  have x2: "o_Id (bidObj w2 r) = o_Id (bidObj w r)" using cf(8) by simp
  have dd: "getPlaceOrderTransactionDetails (o_Id (bidObj w2 r)) False w2 = (Inr (- t_Total tr, t_StockQuantity tr), w2)"
    using d c(2) cf(4) x2 by (simp add: getPlaceOrderTransactionDetails_def)
  obtain w3 t3 where s: "saveBidCancelOrderTransaction r i (w2, t2) = (None, w3, t3)" "outcomes w3 = []"
  proof -
    define u' where "u' = (usr w2 i)\<lparr>u_Cash := u_Cash (usr w2 i) + reserve_share (- t_Total tr) (unfulfilled (bidObj w2 r)) (o_StockQuantity (bidObj w2 r)),
        u_ReservedCash := u_ReservedCash (usr w2 i) - reserve_share (- t_Total tr) (unfulfilled (bidObj w2 r)) (o_StockQuantity (bidObj w2 r))\<rparr>"
    define tr' where "tr' = GetTransactionRef (u_Id u') (o_StockId (bidObj w2 r)) CancelOrderTransaction 0 0 0
        (- reserve_share (- t_Total tr) (unfulfilled (bidObj w2 r)) (o_StockQuantity (bidObj w2 r)))
        (reserve_share (- t_Total tr) (unfulfilled (bidObj w2 r)) (o_StockQuantity (bidObj w2 r))) (now w2)"
    have "\<exists>w' t'. tx_seq [tx_save (save_user u'), tx_insert (insert_tx tr')] (set_user i u' w2, t2) = (True, w', t') \<and> outcomes w' = []"
      by (rule reliable_seq) (simp_all add: c(2) ledger_simps)
    then obtain w' t' where "tx_seq [tx_save (save_user u'), tx_insert (insert_tx tr')] (set_user i u' w2, t2) = (True, w', t')"
      "outcomes w' = []" by blast
    then show ?thesis using that dd
      by (simp add: saveBidCancelOrderTransaction_def Let_def u'_def tr'_def del: tx_seq.simps)
  qed
  show ?thesis using g assms(3) c(1) s by (simp add: CancelBid_def commit_tx_def)
qed

lemma place_cancel:
  assumes "outcomes w = []" and u: "users w i = Some u" and x: "bidObj w r = x"
    and pc: "order_price_check x w = Some None" and sz: "size_ok (o_StockQuantity x)"
    and ty: "o_OrderType x = Limit" and pr: "uint (o_Price x) < 2 ^ 41"
    and cash: "0 \<le> sint (u_Cash u - (o_StockQuantity x * o_Price x + getOrderFee (o_StockQuantity x) (o_Price x)))"
    and own: "o_UserId x = i" "o_StockQuantityFulfilled x = 0" "\<not> o_IsClosed x" and fr: "fresh_keys w"
  obtains w1 w2 where "PlaceBidOrder i r w = Some ((nextId w, None), w1)"
    "users w1 i = Some (placed_user (getOrderFee (o_StockQuantity x) (o_Price x)) (o_StockQuantity x * o_Price x) u)"
    "CancelOrder i (nextId w) False w1 = ((None, Some r, None), w2)"
    "users w2 i = Some (u\<lparr>u_Cash := u_Cash u - getOrderFee (o_StockQuantity x) (o_Price x)\<rparr>)"
    "row o_Id (nextId w) (Bids (db w2)) \<noteq> None"
proof -
  let ?q = "o_StockQuantity x" let ?fee = "getOrderFee ?q (o_Price x)" let ?R = "?q * o_Price x"
  obtain w1 where p: "PlaceBidOrder i r w = Some ((nextId w, None), w1)" "outcomes w1 = []"
    "tx_run (bid_order_ops i r ?fee ?R w) w = (True, w1)"
    by (rule PlaceBidOrder_live [OF assms(1) u, of r "o_Price x"])
      (use pc sz ty cash in \<open>auto simp: x getOrderFeePrice_def s_less_def\<close>)
  note bd = bid_order_done [OF p(3)]
  note acc = acct_run(1) [OF acct_bid_order_ops p(3) u]
  let ?x1 = "bidObj w1 r"
  have x1: "?x1 = x\<lparr>o_CreatedAt := now w, o_UpdatedAt := now w, o_Id := nextId w\<rparr>" using bd(1) x by simp
  have u1: "users w1 i = Some (placed_user ?fee ?R u)" using acc by simp
  have dep: "deposit_rows (o_Id ?x1) False (db w1) =
      [(bid_place_tx i (o_StockId x) ?R (now w))\<lparr>t_Id := nextId w + 1 + 1\<rparr>]" using bd(4) [OF fr] x1 x by simp
  obtain w2 where c: "CancelBid i (nextId w) w1 = ((Some r, None), w2)"
    using CancelBid_live [OF p(2) bd(2) _ _ dep, of i] own x1 by auto
  have res: "reserve_share ?R (unfulfilled ?x1) (o_StockQuantity ?x1) = ?R"
  proof -
    have q: "1 \<le> uint ?q" "uint ?q \<le> 50" using sz by (auto simp: size_ok_def word_le_def word_less_def)
    have m: "uint (o_Price x) * uint ?q \<le> 2 ^ 41 * 50" using q pr by (intro mult_mono) auto
    have R: "uint ?R = uint (o_Price x) * uint ?q"
      using m q by (simp add: uint_word_arith_bintrs take_bit_eq_mod mult.commute)
    have nn: "- 9223372036854775808 \<le> uint (o_Price x) * uint ?q" by (rule order_trans [of _ 0]) simp_all
    have "sint ?R = uint (o_Price x) * uint ?q"
      unfolding R [symmetric] sint_uint by (rule signed_take_bit_int_eq_self)
        (use R m nn in simp_all)
    moreover have "uint (o_Price x) * uint ?q * uint ?q \<le> (2 ^ 41 * 50) * 50" 
      by (rule mult_mono) (use m q in auto)
    ultimately have "reserve_share ?R ?q ?q = word_of_int (uint (o_Price x) * uint ?q)"
      using q by (intro reserve_share_exact) auto
    also have "\<dots> = ?R" by (simp add: R [symmetric])
    finally show ?thesis using x1 own(2) by (simp add: unfulfilled_def)
  qed
  have u2: "users w2 i = Some (u\<lparr>u_Cash := u_Cash u - ?fee\<rparr>) \<and> row o_Id (nextId w) (Bids (db w2)) \<noteq> None"
  proof (rule CancelBid_outcome [OF c u1])
    fix r' wa tr rest m t
    assume "Some r = Some r'" and g: "getBid (nextId w) w1 = (r', wa)" and dr: "deposit_rows (o_Id (bidObj wa r')) False (db w1) = tr # rest"
      and m: "m = reserve_share (- t_Total tr) (unfulfilled (bidObj wa r')) (o_StockQuantity (bidObj wa r'))"
      and us: "users w2 = (users w1)(i \<mapsto> refund_user m (placed_user ?fee ?R u))"
      and rw: "row o_Id (o_Id (bidObj wa r')) (Bids (db w2)) = Some ((bidObj wa r')\<lparr>o_IsClosed := True, o_UpdatedAt := now wa\<rparr>)"
    have wa: "wa = w1" "r' = r" using getBid_frame(4) [OF g bd(2)] by simp_all
    have "- t_Total tr = ?R" using dr dep wa by (auto simp: bid_place_tx_def ledger_simps)
    then have "m = ?R" using m res wa by simp
    then show ?thesis using us rw wa x1 by (cases u) (simp add: refund_user_def placed_user_def)
  qed simp
  have "getUserExclusively i w1 = (None, w1)" using u1 by (simp add: getUserExclusively_def)
  then have "CancelOrder i (nextId w) False w1 = ((None, Some r, None), w2)" using c by (simp add: CancelOrder_def)
  then show ?thesis using that p(1) u1 u2 by blast
qed

end
