(* ===== verification/Exchange_Proofs.thy ===== *)
theory Exchange_Proofs
  imports Placing_Proofs Exchange
begin

text \<open>
  Buying from the exchange and mortgaging keep the accounts: what the user pays or gets is
  the sum of the totals of the transactions that are written, and when the transaction
  fails the cash in memory is what it was.
\<close>

section \<open>Buying from the exchange\<close>

lemma acct_save_summary [simp]: "acct_step i u u [] False (save_summary x)"
  by (rule acct_other_table, simp)
    (auto simp: save_summary_def tx_save_def tx_insert_def Let_def split: prod.splits if_splits)

lemma acct_save_stock [simp]: "acct_step i u u [] False (tx_save (save_stock s))"
  by (rule acct_other_table, simp) (auto simp: tx_save_def save_stock_def Let_def split: prod.splits if_splits)

lemma acct_buy_ops:
  "acct_step i u u (tr # (case tt of None \<Rightarrow> [] | Some x \<Rightarrow> [x])) True (tx_seq (buy_ops x tr tt u s))"
proof -
  note tail = acct_Cons [OF acct_save_user acct_Cons [OF acct_save_stock acct_Nil], of i u s]
  show ?thesis
  proof (cases tt)
    case None
    then show ?thesis
      using acct_Cons [OF acct_save_summary [of i u x] acct_Cons [OF acct_insert [of i u tr] tail]]
      by (simp add: buy_ops_def del: tx_seq.simps)
  next
    case (Some y)
    then show ?thesis
      using acct_Cons [OF acct_save_summary [of i u x] acct_Cons [OF acct_insert [of i u tr] acct_Cons [OF acct_insert [of i u y] tail]]]
      by (simp add: buy_ops_def del: tx_seq.simps)
  qed
qed

lemma quiet_buy_ops: "list_all quiet (buy_ops x tr tt u s)"
  by (cases tt) (simp_all add: buy_ops_def)

text \<open>What a purchase costs, and what it leaves when it fails.\<close>

definition bought_tx :: "u32 \<Rightarrow> u32 \<Rightarrow> stock \<Rightarrow> u64 \<Rightarrow> string \<Rightarrow> transaction" where
  "bought_tx i sid s q t = GetTransactionRef i sid FromExchangeTransaction 0 q (s_CurrentPrice s) 0
     (- (s_CurrentPrice s * q)) t"

lemma buy_commit_ok:
  assumes run: "buy_commit i sid s q w = (r, w')" and u: "users w i = Some u" and s: "allStocks w sid = Some s"
  obtains (Bought) tr tt where "r = Inr tr" "tr = (bought_tx i sid s q (now w))\<lparr>t_Id := t_Id tr\<rparr>"
      "users w' = (users w)(i \<mapsto> u\<lparr>u_Cash := u_Cash u - s_CurrentPrice s * q - tax_amount tt\<rparr>)"
      "adds_tx (bought_tx i sid s q (now w) # (case tt of None \<Rightarrow> [] | Some x \<Rightarrow> [x])) (db w) (db w')"
      "\<And>j. row u_Id j (Users (db w')) = (if j = u_Id u
         then Some (u\<lparr>u_Cash := u_Cash u - s_CurrentPrice s * q - tax_amount tt\<rparr>) else row u_Id j (Users (db w)))"
      "\<And>x. tt = Some x \<Longrightarrow> tax_row (u_Id u) x"
      "allStocks w' = (allStocks w)(sid \<mapsto> s\<lparr>s_StocksInExchange := s_StocksInExchange s - q,
         s_StocksInMarket := s_StocksInMarket s + q, s_UpdatedAt := now w\<rparr>)"
  | (Failed) "r = Inl DbError" "users w' = users w" "db w' = db w" "allStocks w' = allStocks w"
proof -
  let ?tr = "bought_tx i sid s q (now w)"
  let ?u1 = "u\<lparr>u_Cash := u_Cash u - s_CurrentPrice s * q\<rparr>"
  let ?s1 = "s\<lparr>s_StocksInExchange := s_StocksInExchange s - q, s_StocksInMarket := s_StocksInMarket s + q, s_UpdatedAt := now w\<rparr>"
  let ?w1 = "set_stock sid ?s1 (set_user i ?u1 w)"
  obtain x tt w2 where t: "getTaxForBiddingUser sid q (s_CurrentPrice s) i ?w1 (db w) = ((x, tt), w2)"
    by (metis prod.exhaust)
  note f = tax_frame [OF disjI1 [OF t]]
  have usr1: "usr ?w1 i = ?u1" by (simp add: usr_def set_user_def set_stock_def)
  let ?u2 = "u\<lparr>u_Cash := u_Cash u - s_CurrentPrice s * q - tax_amount tt\<rparr>"
  have u2: "users w2 = (users w)(i \<mapsto> ?u2)" "usr w2 i = ?u2" using f(1) usr1
    by (simp_all add: usr_def set_user_def set_stock_def)
  have st2: "allStocks w2 = (allStocks w)(sid \<mapsto> ?s1)" using f(2) by (simp add: same_mem_def set_user_def set_stock_def)
  have d2: "db w2 = db w" using f(3) by (simp add: set_user_def set_stock_def)
  obtain ok w3 where op: "tx_run (buy_ops x ?tr tt ?u2 ?s1) w2 = (ok, w3)" by fastforce
  note qf = tx_run_frame [OF quiet_buy_ops op]
  have r: "(r, w') = (if ok then (Inr (?tr\<lparr>t_Id := nextId w2 + (if ts_Id x = 0 then 1 else 0)\<rparr>), w3)
         else (Inl DbError,
               set_stock sid (?s1\<lparr>s_StocksInExchange := s_StocksInExchange s, s_StocksInMarket := s_StocksInMarket s, s_UpdatedAt := s_UpdatedAt s\<rparr>)
                 (set_user i ((usr w3 i)\<lparr>u_Cash := u_Cash u\<rparr>) w3)))"
    using run t op u2(2) u unfolding buy_commit_def Let_def bought_tx_def
    by (simp add: ledger_simps usr_def set_user_def set_stock_def cong: if_cong)
  show thesis
  proof (cases ok)
    case True
    have op': "tx_run (buy_ops x ?tr tt ?u2 ?s1) w2 = (True, w3)" using op True by simp
    have "users w3 = users w2" using qf(1) by (simp add: same_mem_def)
    moreover have "allStocks w3 = allStocks w2" using qf(1) by (simp add: same_mem_def)
    moreover have "tt = Some y \<Longrightarrow> tax_row (u_Id u) y" for y using f(6) [of y] usr1 by simp
    ultimately show ?thesis
      using r True u2 st2 d2 acct_run(2,3) [OF acct_buy_ops op', of i]
      by (intro Bought [of "?tr\<lparr>t_Id := nextId w2 + (if ts_Id x = 0 then 1 else 0)\<rparr>" tt]) simp_all
  next
    case False
    have "users w3 = users w2" "allStocks w3 = allStocks w2" using qf(1) by (simp_all add: same_mem_def)
    then show ?thesis using r False u2 st2 d2 qf(2) u s
      by (intro Failed) (auto simp: usr_def set_user_def set_stock_def fun_eq_iff)
  qed
qed


lemma buy_commit_accounts:
  assumes run: "buy_commit i sid s q w = (r, w')" and u: "users w i = Some u" and s: "allStocks w sid = Some s"
  shows "keeps_accounts w w'"
proof (cases "keyed w")
  case True
  then have k: "u_Id u = i \<or> u_Id u = 0" using u by (simp add: keyed_def)
  show ?thesis
  proof (cases rule: buy_commit_ok [OF run u s])
    case (1 tr tt)
    show ?thesis
      by (rule acct_keeps [OF 1(3-5) u])
        (use k 1(6) in \<open>auto simp: bought_tx_def ledger_simps tax_row_def tax_amount_def split: option.splits\<close>)
  next
    case 2
    then show ?thesis by (intro keeps_accounts_same) simp_all
  qed
qed (simp add: keeps_accounts_def)

lemma PerformBuy_cases:
  assumes run: "PerformBuyFromExchangeTransaction i sid q w = Some (r, w')"
  obtains (Rejected) e where "r = Inl e" "same_but_users w w'" "keeps_accounts w w'"
  | (Committed) w1 u s where "getUserExclusively i w = (None, w1)" "users w1 i = Some u" "allStocks w1 sid = Some s"
      "0 < min q (s_StocksInExchange s)" "q \<le> 30" "\<not> s_IsBankrupt s"
      "s_CurrentPrice s * min q (s_StocksInExchange s) \<le> u_Cash u"
      "buy_commit i sid s (min q (s_StocksInExchange s)) w1 = (r, w')"
proof -
  obtain b where b: "IsStockBankrupt sid w = Some b"
    using run by (cases "IsStockBankrupt sid w") (auto simp: PerformBuyFromExchangeTransaction_def)
  obtain e w1 where g: "getUserExclusively i w = (e, w1)" by fastforce
  note f = getUserExclusively_frame [OF g] and k = keeps_accounts_get [OF g]
  show thesis
  proof (cases "b \<or> q > 30")
    case True
    then have "\<exists>e. r = Inl e \<and> w' = w"
      using run b by (auto simp: PerformBuyFromExchangeTransaction_def split: if_splits)
    then show ?thesis using Rejected by auto
  next
    case False
    note bq = False
    show ?thesis
    proof (cases e)
      case (Some x)
      then have "r = Inl x \<and> w' = w1"
        using run b bq g by (auto simp: PerformBuyFromExchangeTransaction_def split: if_splits)
      then show ?thesis using Rejected f(1) k by blast
    next
      case None
      obtain s where s: "allStocks w sid = Some s" "\<not> s_IsBankrupt s" using b bq by (auto simp: IsStockBankrupt_def)
      have s1: "allStocks w1 sid = Some s" using s f(1) by (simp add: same_but_users_def)
      obtain u where u: "users w1 i = Some u" using f(2) by blast
      define m where "m = min q (s_StocksInExchange s)"
      have m: "(if s_StocksInExchange s < q then s_StocksInExchange s else q) = m" by (auto simp: m_def min_def)
      have r: "(r, w') = (if m = 0 then (Inl (NotEnoughStocksError 0), w1)
          else if u_Cash u < s_CurrentPrice s * m then (Inl NotEnoughCashError, w1) else buy_commit i sid s m w1)"
        using run b bq g None s1 u by (simp add: PerformBuyFromExchangeTransaction_def usr_def m cong: if_cong)
      show ?thesis
      proof (cases "m = 0 \<or> u_Cash u < s_CurrentPrice s * m")
        case True
        then have "\<exists>x. r = Inl x \<and> w' = w1" using r by (auto split: if_splits)
        then show ?thesis using Rejected f(1) k by blast
      next
        case False
        then show ?thesis using r g None u s1 s(2) bq
          by (intro Committed) (auto simp: m_def not_less word_gt_0)
      qed
    qed
  qed
qed


lemma PerformBuy_accounts:
  assumes run: "PerformBuyFromExchangeTransaction i sid q w = Some (r, w')"
  shows "keeps_accounts w w'"
proof (cases rule: PerformBuy_cases [OF run])
  case (2 w1 u s)
  then show ?thesis
    using buy_commit_accounts [OF 2(8,2,3)] keeps_accounts_get [OF 2(1)] keeps_accounts_trans by blast
qed

section \<open>Mortgages\<close>

lemma getStocksInBank_mem:
  "getStocksInBank i s p (w, t) = (r, w') \<Longrightarrow> same_mem w w' \<and> db w' = db w"
  by (auto simp: getStocksInBank_def Let_def dest: db_ok_same split: prod.splits if_splits option.splits)

lemma save_mortgages:
  assumes "tx_save f (w, t) = (ok, w', t')"
    and "\<And>t. Users (f t) = Users t \<and> Transactions (f t) = Transactions t"
  shows "same_mem w w' \<and> db w' = db w \<and> Users t' = Users t \<and> Transactions t' = Transactions t"
  using assms by (auto simp: tx_save_def Let_def dest: db_ok_same split: prod.splits)

lemma mortgage_tables [simp]:
  "Users (update_mortgage i s p q t) = Users t" "Transactions (update_mortgage i s p q t) = Transactions t"
  "Users (delete_mortgage i s p t) = Users t" "Transactions (delete_mortgage i s p t) = Transactions t"
  "Users (insert_mortgage m t) = Users t" "Transactions (insert_mortgage m t) = Transactions t"
  by (simp_all add: update_mortgage_def delete_mortgage_def insert_mortgage_def)

lemma retrieve_mem:
  assumes "retrieveStocksAction i s q c p (w, t) = (r, w', t')"
  shows "same_mem w w' \<and> db w' = db w \<and> Users t' = Users t \<and> Transactions t' = Transactions t"
proof -
  obtain sb w1 where g: "getStocksInBank i s p (w, t) = (sb, w1)" by fastforce
  note f = getStocksInBank_mem [OF g]
  show ?thesis
  proof (cases sb)
    case (Inr n)
    let ?f = "if s_less q n then update_mortgage i s p (n - q) else delete_mortgage i s p"
    obtain ok w2 t2 where t: "tx_save ?f (w1, t) = (ok, w2, t2)" by (metis prod.exhaust)
    have "same_mem w1 w2 \<and> db w2 = db w1 \<and> Users t2 = Users t \<and> Transactions t2 = Transactions t"
      by (rule save_mortgages [OF t]) simp
    then show ?thesis using assms g Inr t f same_mem_trans
      by (auto simp: retrieveStocksAction_def Let_def split: if_splits)
  qed (use assms g f in \<open>simp add: retrieveStocksAction_def\<close>)
qed


lemma mortgage_mem:
  assumes "mortgageStocksAction u s q p (w, t) = (r, w', t')"
  shows "same_mem w w' \<and> db w' = db w \<and> Users t' = Users t \<and> Transactions t' = Transactions t"
proof -
  obtain so w1 where g1: "getSingleStockCount u s w = (so, w1)" by fastforce
  obtain sb w2 where g2: "getStocksInBank (u_Id u) s p (w1, t) = (sb, w2)" by fastforce
  define n where "n = (case sb of Inr q \<Rightarrow> q | Inl _ \<Rightarrow> 0)"
  let ?f = "if n = 0
    then insert_mortgage \<lparr>m_userId = u_Id u, m_stockId = s, m_stocksInBank = q, m_mortgagePrice = p\<rparr>
    else update_mortgage (u_Id u) s p (n + q)"
  obtain ok w3 t3 where t: "tx_save ?f (w2, t) = (ok, w3, t3)" by (metis prod.exhaust)
  note f1 = getSingleStockCount_mem [OF g1] and f2 = getStocksInBank_mem [OF g2]
  have f3: "same_mem w2 w3 \<and> db w3 = db w2 \<and> Users t3 = Users t \<and> Transactions t3 = Transactions t"
    by (rule save_mortgages [OF t]) simp
  have "(w', t') \<in> {(w1, t), (w2, t), (w3, t3)}"
    using assms g1 g2 t unfolding mortgageStocksAction_def
    by (auto simp: Let_def n_def split: if_splits sum.splits)
  then show ?thesis using f1 f2 f3 same_mem_trans by (elim insertE) (auto intro: same_mem_trans)
qed

definition mortgage_tx :: "u32 \<Rightarrow> u32 \<Rightarrow> i64 \<Rightarrow> u64 \<Rightarrow> i64 \<Rightarrow> string \<Rightarrow> transaction" where
  "mortgage_tx i s q p m t = GetTransactionRef i s MortgageTransaction 0 q p 0 m t"

lemma mortgage_commit_ok:
  assumes run: "mortgage_commit i s q p m (w, t) = (r, w')" and u: "users w i = Some u"
    and t: "Users t = Users (db w)" "Transactions t = Transactions (db w)"
  obtains (Done) "r = Inr ((mortgage_tx i s q p m (now w))\<lparr>t_Id := nextId w\<rparr>)"
      "users w' = (users w)(i \<mapsto> u\<lparr>u_Cash := u_Cash u + m\<rparr>)"
      "adds_tx [mortgage_tx i s q p m (now w)] (db w) (db w')"
      "\<And>j. row u_Id j (Users (db w')) =
         (if j = u_Id u then Some (u\<lparr>u_Cash := u_Cash u + m\<rparr>) else row u_Id j (Users (db w)))"
  | (Failed) "r = Inl DbError" "users w' = users w" "db w' = db w"
proof -
  let ?tr = "mortgage_tx i s q p m (now w)"
  let ?u1 = "u\<lparr>u_Cash := u_Cash u + m\<rparr>"
  let ?ops = "[tx_insert (insert_tx ?tr), tx_save (save_user ?u1)]"
  obtain ok w1 t1 where op: "tx_seq ?ops (set_user i ?u1 w, t) = (ok, w1, t1)" by (metis prod.exhaust)
  obtain ok2 w2 where c: "(if ok then db_ok w1 else (False, w1)) = (ok2, w2)" by fastforce
  have q: "same_mem (set_user i ?u1 w) w1 \<and> db w1 = db (set_user i ?u1 w)" by (rule quiet_seq [OF _ op]) simp
  have c2: "same_mem w1 w2 \<and> db w2 = db w1" using c db_ok_same by (auto split: if_splits)
  have w2: "users w2 = (users w)(i \<mapsto> ?u1)" "db w2 = db w" using q c2 by (simp_all add: same_mem_def set_user_def)
  have uw: "usr w i = u" using u by (simp add: usr_def)
  have r: "(r, w') = (if ok2 then (Inr (?tr\<lparr>t_Id := nextId w\<rparr>), w2\<lparr>db := t1\<rparr>)
        else (Inl DbError, set_user i (?u1\<lparr>u_Cash := u_Cash u\<rparr>) w2))"
    using run op c unfolding mortgage_commit_def Let_def mortgage_tx_def
    by (simp add: uw del: tx_seq.simps split: if_splits)
  show thesis
  proof (cases ok2)
    case True
    then have op': "tx_seq ?ops (set_user i ?u1 w, t) = (True, w1, t1)" using c op by (simp split: if_splits)
    have a: "acct_step i ?u1 ?u1 [?tr] True (tx_seq ?ops)"
      using acct_Cons [OF acct_insert [of i ?u1 ?tr] acct_Cons [OF acct_save_user acct_Nil]] by (simp del: tx_seq.simps)
    note d = acct_stepD(2,3) [OF a op']
    show ?thesis using r True w2(1) d t by (intro Done) (simp_all add: set_user_def adds_tx_def)
  next
    case False
    then show ?thesis using r w2 u by (intro Failed) (auto simp: set_user_def fun_eq_iff)
  qed
qed


lemma mortgage_commit_accounts:
  assumes run: "mortgage_commit i s q p m (w, t) = (r, w')" and u: "users w i = Some u"
    and t: "Users t = Users (db w)" "Transactions t = Transactions (db w)"
  shows "keeps_accounts w w'"
proof (cases rule: mortgage_commit_ok [OF run u t])
  case 1
  show ?thesis by (rule acct_keeps [OF 1(2-4) u]) (auto simp: mortgage_tx_def ledger_simps)
next
  case 2
  then show ?thesis by (intro keeps_accounts_same) simp_all
qed

text \<open>
  The amounts: a mortgage pays 80 percent of the price of the stocks, and they are taken back
  for 90 percent.
\<close>

lemma mortgage_amount:
  assumes "mortgageStocksAction u s q p (w, t) = (Inr m, w', t')"
  shows "m = s_div (p * q * 80) 100"
  using assms by (auto simp: mortgageStocksAction_def Let_def split: prod.splits sum.splits if_splits)

lemma retrieve_amount:
  assumes "retrieveStocksAction i s q c p (w, t) = (Inr m, w', t')"
  shows "m = s_div (- p * q * 90) 100 \<and> \<not> s_less c (q * p)"
  using assms by (auto simp: retrieveStocksAction_def Let_def split: prod.splits sum.splits if_splits)

lemma PerformMortgage_cases:
  assumes run: "PerformMortgageTransaction i s q p w = Some (r, w')"
  obtains (Rejected) e w1 where "r = Inl e" "keeps_accounts w w'" "same_but_users w w1" "same_mem w1 w'" "db w' = db w1"
  | (Committed) w1 w2 t u price m x where "getUserExclusively i w = (None, w1)" "users w1 i = Some u"
      "same_mem w1 w2" "db w2 = db w1" "Users t = Users (db w2)" "Transactions t = Transactions (db w2)"
      "m = (if s_le 0 q then s_div (- p * q * 90) 100 else s_div (price * (- q) * 80) 100)"
      "mortgage_commit i s q price m (w2, t) = (r, w')"
      "allStocks w1 s = Some x" "price = (if s_le 0 q then p else s_CurrentPrice x)"
proof -
  obtain b where b: "IsStockBankrupt s w = Some b"
    using run by (cases "IsStockBankrupt s w") (auto simp: PerformMortgageTransaction_def)
  obtain e w1 where g: "getUserExclusively i w = (e, w1)" by fastforce
  note f = getUserExclusively_frame [OF g] and k = keeps_accounts_get [OF g]
  show thesis
  proof (cases "b \<or> e \<noteq> None")
    case True
    then have "\<exists>x. r = Inl x \<and> (w' = w \<or> w' = w1)"
      using run b g by (auto simp: PerformMortgageTransaction_def split: if_splits)
    then show ?thesis using Rejected [of _ w] Rejected [of _ w1] k f(1) by auto
  next
    case False
    obtain x where x: "allStocks w1 s = Some x"
      using b f(1) by (auto simp: IsStockBankrupt_def same_but_users_def)
    obtain u where u: "users w1 i = Some u" using f(2) by blast
    define price where "price = (if s_le 0 q then p else s_CurrentPrice x)"
    obtain ra w2 t2 where act: "(if s_le 0 q then retrieveStocksAction (u_Id u) s q (u_Cash u) p (w1, db w1)
        else mortgageStocksAction u s (- q) (s_CurrentPrice x) (w1, db w1)) = (ra, w2, t2)" by (metis prod.exhaust)
    have mem: "same_mem w1 w2 \<and> db w2 = db w1 \<and> Users t2 = Users (db w1) \<and> Transactions t2 = Transactions (db w1)"
      using act retrieve_mem mortgage_mem by (cases "s_le 0 q") (metis (full_types))+
    have uu: "usr w1 i = u" using u by (simp add: usr_def)
    have r: "(r, w') = (case ra of Inl e \<Rightarrow> (Inl e, w2) | Inr m \<Rightarrow> mortgage_commit i s q price m (w2, t2))"
      using run b False g x act
      by (cases "s_le 0 q") (auto simp: PerformMortgageTransaction_def uu price_def Let_def split: sum.splits)
    show ?thesis
    proof (cases ra)
      case (Inl y)
      then have "r = Inl y" "w' = w2" using r by simp_all
      moreover have "keeps_accounts w w2" using mem k keeps_accounts_mem keeps_accounts_trans by blast
      ultimately show ?thesis using Rejected [of y w1] mem f(1) by simp
    next
      case (Inr m)
      have "m = (if s_le 0 q then s_div (- p * q * 90) 100 else s_div (price * (- q) * 80) 100)"
        using act Inr retrieve_amount [of "u_Id u" s q "u_Cash u" p w1 "db w1" m w2 t2]
          mortgage_amount [of u s "- q" "s_CurrentPrice x" w1 "db w1" m w2 t2]
        by (cases "s_le 0 q") (simp_all add: price_def)
      then show ?thesis using Committed [OF _ u, of w2 t2 m price x] False g mem r Inr x price_def by simp
    qed
  qed
qed

lemma PerformMortgage_accounts:
  assumes run: "PerformMortgageTransaction i s q p w = Some (r, w')"
  shows "keeps_accounts w w'"
proof (cases rule: PerformMortgage_cases [OF run])
  case (2 w1 w2 t u price m)
  have "users w2 i = Some u" using 2(2,3) by (simp add: same_mem_def)
  then have "keeps_accounts w2 w'" using mortgage_commit_accounts 2(5,6,8) by blast
  then show ?thesis using keeps_accounts_get [OF 2(1)] keeps_accounts_mem [OF 2(3,4)] keeps_accounts_trans by blast
qed

end
