(* ===== verification/Book_Queues.thy ===== *)
theory Book_Queues
  imports Order_Book
begin

text \<open>
  The queues of an order book: the invariant of one side of the book, and what matching and
  triggering do to it.

  A side is its main queue and its stop-loss queue. They hold different orders, and the
  orders of the stop-loss queue are of type \<^term>\<open>StopLoss\<close>. The operations of the priority
  queue interface (\<open>pq\<close>) are used through their laws only.
\<close>

section \<open>Multisets without repetition\<close>

definition uniq :: "'a multiset \<Rightarrow> bool" where
  "uniq M \<longleftrightarrow> (\<forall>x. count M x \<le> 1)"

lemma uniq_mono: "A \<subseteq># B \<Longrightarrow> uniq B \<Longrightarrow> uniq A"
  unfolding uniq_def by (meson mset_subset_eq_count order_trans)

lemma uniq_add_mset: "uniq (add_mset x A) \<longleftrightarrow> uniq A \<and> x \<notin># A"
proof
  assume u: "uniq (add_mset x A)"
  then have "count (add_mset x A) x \<le> 1" unfolding uniq_def by blast
  then have "x \<notin># A" by (simp add: not_in_iff)
  then show "uniq A \<and> x \<notin># A" using uniq_mono [OF _ u, of A] by simp
qed (auto simp: uniq_def not_in_iff)

lemma uniq_disjoint: "uniq (A + B) \<Longrightarrow> x \<in># A \<Longrightarrow> x \<notin># B"
proof -
  assume u: "uniq (A + B)" and "x \<in># A"
  then obtain A' where "A = add_mset x A'" by (meson mset_add)
  then show ?thesis using u by (simp add: uniq_add_mset)
qed

section \<open>One side of the book\<close>

definition queue_ok :: "(ref \<Rightarrow> order) \<Rightarrow> (factors \<Rightarrow> factors \<Rightarrow> bool) \<Rightarrow> pqueue \<Rightarrow> bool" where
  "queue_ok obj c q \<longleftrightarrow> pq_ok obj q \<and> pq_comparator q = c"

definition side_inv ::
  "(ref \<Rightarrow> order) \<Rightarrow> (factors \<Rightarrow> factors \<Rightarrow> bool) \<Rightarrow> (factors \<Rightarrow> factors \<Rightarrow> bool) \<Rightarrow>
   pqueue \<Rightarrow> pqueue \<Rightarrow> bool" where
  "side_inv obj c csl q sl \<longleftrightarrow>
     queue_ok obj c q \<and> queue_ok obj csl sl \<and> uniq (pq_refs q + pq_refs sl) \<and>
     (\<forall>r \<in># pq_refs sl. o_OrderType (obj r) = StopLoss)"

definition book_inv :: "world \<Rightarrow> orderBook \<Rightarrow> bool" where
  "book_inv w ob \<longleftrightarrow>
     side_inv (askObj w) askComparator bidComparator (asks ob) (askStoploss ob) \<and>
     side_inv (bidObj w) bidComparator askComparator (bids ob) (bidStoploss ob)"

text \<open>The orders of a side, in either queue.\<close>

abbreviation ask_refs :: "orderBook \<Rightarrow> ref multiset" where
  "ask_refs ob \<equiv> pq_refs (asks ob) + pq_refs (askStoploss ob)"

abbreviation bid_refs :: "orderBook \<Rightarrow> ref multiset" where
  "bid_refs ob \<equiv> pq_refs (bids ob) + pq_refs (bidStoploss ob)"

lemma queue_ok_cong:
  "queue_ok obj c q \<Longrightarrow> (\<And>v. v \<in># pq_refs q \<Longrightarrow> same_prio (obj v) (obj' v)) \<Longrightarrow> queue_ok obj' c q"
  unfolding queue_ok_def using pq_ok_cong by blast

lemma side_inv_cong:
  "side_inv obj c csl q sl \<Longrightarrow> (\<And>v. same_prio (obj v) (obj' v)) \<Longrightarrow> side_inv obj' c csl q sl"
  unfolding side_inv_def using queue_ok_cong by (metis same_prio_def)

lemma queue_push:
  "queue_ok obj c q \<Longrightarrow>
   \<exists>q'. pq_Push obj r q = Some q' \<and> queue_ok obj c q' \<and> pq_refs q' = add_mset r (pq_refs q)"
  unfolding queue_ok_def using pq.push_ok [of obj q c r] by blast

lemma queue_push_all:
  "queue_ok obj c q \<Longrightarrow>
   \<exists>q'. push_all (pq_Push obj) rs q = Some q' \<and> queue_ok obj c q' \<and> pq_refs q' = pq_refs q + mset rs"
  unfolding queue_ok_def using pq.push_all_ok [of obj q c rs] by blast

lemma queue_pop:
  assumes "queue_ok obj c q" "pq_Head q = Some (Some r)"
  shows "\<exists>q'. pq_Pop obj q = Some (Some r, q') \<and> queue_ok obj c q' \<and> pq_refs q = add_mset r (pq_refs q')"
  using pq.head_Some(3) [of obj q c r] assms unfolding queue_ok_def by blast

lemma queue_head_max:
  assumes "queue_ok obj c q" "pq_Head q = Some (Some r)"
  shows "r \<in># pq_refs q" "\<And>v. v \<in># pq_refs q \<Longrightarrow> \<not> ref_lt obj c r v"
  using pq.head_Some(1,2) [of obj q c r] assms unfolding queue_ok_def by blast+

lemma queue_head_cases:
  assumes "queue_ok obj c q"
  obtains (Empty) "pq_Head q = Some None" "pq_refs q = {#}" "pq_Pop obj q = Some (None, q)"
  | (Head) r q' where "pq_Head q = Some (Some r)" "pq_Pop obj q = Some (Some r, q')"
      "queue_ok obj c q'" "pq_refs q = add_mset r (pq_refs q')"
proof (cases "pq_refs q = {#}")
  case True
  then show ?thesis using pq.pop_empty [of obj q c] assms Empty unfolding queue_ok_def by blast
next
  case False
  then show ?thesis using pq.pop_ok [of obj q c] assms Head unfolding queue_ok_def by blast
qed

lemma queue_pop_while:
  "queue_ok obj c q \<Longrightarrow>
   \<exists>top sk q'. pop_while pq_Head (pq_Pop obj) P q [] = Some (top, sk, q') \<and> queue_ok obj c q' \<and>
     pq_refs q = pq_refs q' + mset sk \<and> (\<forall>v \<in> set sk. P v) \<and> pq_Head q' = Some top \<and>
     (case top of None \<Rightarrow> pq_refs q' = {#} | Some v \<Rightarrow> \<not> P v)"
  unfolding queue_ok_def using pq.pop_while_ok [of obj q c P "[]"] by simp

section \<open>Matching\<close>

text \<open>If the best opposite order does not match, no other does.\<close>

lemma bid_matching_mono:
  assumes "\<not> ref_lt obj bidComparator b b'" "\<not> isOrderMatching ask (obj b)"
  shows "\<not> isOrderMatching ask (obj b')"
  using assms
  by (auto simp: ref_lt_def item_lt_def item_factors_def item_of_def newItem_def
      bidComparator_def isOrderMatching_def split: if_splits)

lemma ask_matching_mono:
  assumes "\<not> ref_lt obj askComparator a a'" "\<not> isOrderMatching (obj a) bid"
  shows "\<not> isOrderMatching (obj a') bid"
  using assms
  by (auto simp: ref_lt_def item_lt_def item_factors_def item_of_def newItem_def
      askComparator_def isOrderMatching_def split: if_splits)

lemma getTopMatchingBid_ok:
  assumes "queue_ok (bidObj w) bidComparator (bids ob)"
  shows "\<exists>top same q. getTopMatchingBid ar w ob = Some (top, same, ob\<lparr>bids := q\<rparr>) \<and>
    queue_ok (bidObj w) bidComparator q \<and> pq_refs (bids ob) = pq_refs q + mset same \<and>
    (\<forall>b \<in> set same. o_UserId (bidObj w b) = o_UserId (askObj w ar)) \<and>
    (case top of
       None \<Rightarrow> same = [] \<and>
         (\<forall>b \<in># pq_refs q. o_UserId (bidObj w b) \<noteq> o_UserId (askObj w ar) \<longrightarrow>
            \<not> isOrderMatching (askObj w ar) (bidObj w b))
     | Some b \<Rightarrow> pq_Head q = Some (Some b) \<and> o_UserId (bidObj w b) \<noteq> o_UserId (askObj w ar) \<and>
         isOrderMatching (askObj w ar) (bidObj w b) \<and>
         (\<forall>b' \<in># pq_refs q. \<not> ref_lt (bidObj w) bidComparator b b'))"
proof -
  let ?P = "\<lambda>b. o_UserId (bidObj w b) = o_UserId (askObj w ar)"
  obtain top sk q' where r: "pop_while pq_Head (pq_Pop (bidObj w)) ?P (bids ob) [] = Some (top, sk, q')"
      "queue_ok (bidObj w) bidComparator q'" "pq_refs (bids ob) = pq_refs q' + mset sk"
      "\<forall>v \<in> set sk. ?P v" "pq_Head q' = Some top"
      "case top of None \<Rightarrow> pq_refs q' = {#} | Some v \<Rightarrow> \<not> ?P v"
    using queue_pop_while [OF assms, of ?P] by blast
  obtain q2 where q2: "push_all (pq_Push (bidObj w)) sk q' = Some q2"
      "queue_ok (bidObj w) bidComparator q2" "pq_refs q2 = pq_refs q' + mset sk"
    using queue_push_all [OF r(2)] by blast
  show ?thesis
  proof (cases "\<exists>b. top = Some b \<and> isOrderMatching (askObj w ar) (bidObj w b)")
    case True
    then obtain b where b: "top = Some b" "isOrderMatching (askObj w ar) (bidObj w b)" by blast
    have "\<not> ref_lt (bidObj w) bidComparator b b'" if "b' \<in># pq_refs q'" for b'
      using queue_head_max(2) [OF r(2)] r(5) b that by blast
    then show ?thesis using r b
      by (intro exI [of _ top] exI [of _ sk] exI [of _ q']) (simp add: getTopMatchingBid_def)
  next
    case False
    have nomatch: "\<not> isOrderMatching (askObj w ar) (bidObj w b)"
      if "b \<in># pq_refs q2" "\<not> ?P b" for b
    proof (cases top)
      case None
      then show ?thesis using that r(4,6) q2(3) by auto
    next
      case (Some t)
      have "b \<in># pq_refs q'" using that r(4) q2(3) by auto
      then have "\<not> ref_lt (bidObj w) bidComparator t b"
        using queue_head_max(2) [OF r(2)] r(5) Some by blast
      then show ?thesis using bid_matching_mono False Some by blast
    qed
    have "getTopMatchingBid ar w ob = Some (None, [], ob\<lparr>bids := q2\<rparr>)"
      using False r(1) q2(1)
      by (cases top) (auto simp: getTopMatchingBid_def addBackBids_def)
    then show ?thesis using q2 r(3) nomatch
      by (intro exI [of _ None] exI [of _ "[]"] exI [of _ q2]) auto
  qed
qed

lemma getTopMatchingAsk_ok:
  assumes "queue_ok (askObj w) askComparator (asks ob)"
  shows "\<exists>top same q. getTopMatchingAsk br w ob = Some (top, same, ob\<lparr>asks := q\<rparr>) \<and>
    queue_ok (askObj w) askComparator q \<and> pq_refs (asks ob) = pq_refs q + mset same \<and>
    (\<forall>a \<in> set same. o_UserId (askObj w a) = o_UserId (bidObj w br)) \<and>
    (case top of
       None \<Rightarrow> same = [] \<and>
         (\<forall>a \<in># pq_refs q. o_UserId (askObj w a) \<noteq> o_UserId (bidObj w br) \<longrightarrow>
            \<not> isOrderMatching (askObj w a) (bidObj w br))
     | Some a \<Rightarrow> pq_Head q = Some (Some a) \<and> o_UserId (askObj w a) \<noteq> o_UserId (bidObj w br) \<and>
         isOrderMatching (askObj w a) (bidObj w br) \<and>
         (\<forall>a' \<in># pq_refs q. \<not> ref_lt (askObj w) askComparator a a'))"
proof -
  let ?P = "\<lambda>a. o_UserId (askObj w a) = o_UserId (bidObj w br)"
  obtain top sk q' where r: "pop_while pq_Head (pq_Pop (askObj w)) ?P (asks ob) [] = Some (top, sk, q')"
      "queue_ok (askObj w) askComparator q'" "pq_refs (asks ob) = pq_refs q' + mset sk"
      "\<forall>v \<in> set sk. ?P v" "pq_Head q' = Some top"
      "case top of None \<Rightarrow> pq_refs q' = {#} | Some v \<Rightarrow> \<not> ?P v"
    using queue_pop_while [OF assms, of ?P] by blast
  obtain q2 where q2: "push_all (pq_Push (askObj w)) sk q' = Some q2"
      "queue_ok (askObj w) askComparator q2" "pq_refs q2 = pq_refs q' + mset sk"
    using queue_push_all [OF r(2)] by blast
  show ?thesis
  proof (cases "\<exists>a. top = Some a \<and> isOrderMatching (askObj w a) (bidObj w br)")
    case True
    then obtain a where a: "top = Some a" "isOrderMatching (askObj w a) (bidObj w br)" by blast
    have "\<not> ref_lt (askObj w) askComparator a a'" if "a' \<in># pq_refs q'" for a'
      using queue_head_max(2) [OF r(2)] r(5) a that by blast
    then show ?thesis using r a
      by (intro exI [of _ top] exI [of _ sk] exI [of _ q']) (simp add: getTopMatchingAsk_def)
  next
    case False
    have nomatch: "\<not> isOrderMatching (askObj w a) (bidObj w br)"
      if "a \<in># pq_refs q2" "\<not> ?P a" for a
    proof (cases top)
      case None
      then show ?thesis using that r(4,6) q2(3) by auto
    next
      case (Some t)
      have "a \<in># pq_refs q'" using that r(4) q2(3) by auto
      then have "\<not> ref_lt (askObj w) askComparator t a"
        using queue_head_max(2) [OF r(2)] r(5) Some by blast
      then show ?thesis using ask_matching_mono False Some by blast
    qed
    have "getTopMatchingAsk br w ob = Some (None, [], ob\<lparr>asks := q2\<rparr>)"
      using False r(1) q2(1)
      by (cases top) (auto simp: getTopMatchingAsk_def addBackAsks_def)
    then show ?thesis using q2 r(3) nomatch
      by (intro exI [of _ None] exI [of _ "[]"] exI [of _ q2]) auto
  qed
qed

end
