(* ===== verification/Book_Proofs.thy ===== *)
theory Book_Proofs
  imports Book_Queues
begin

text \<open>
  What the order book does with its orders: a trade triggers exactly the stop-losses whose
  price it reaches, and the loops that match an incoming order end and keep the invariant of
  the book. The function that fills a pair of orders is known here by its contract only, the
  locale \<open>fill_order\<close>; \<open>Trading\<close> gives its interpretation on the models' function.
\<close>

section \<open>Triggering stop-losses\<close>

definition activated :: "string \<Rightarrow> order \<Rightarrow> order" where
  "activated t x = x\<lparr>o_OrderType := StopLossActive, o_UpdatedAt := t\<rparr>"

text \<open>The state between two worlds of the same objects apart from the triggered orders.\<close>

definition triggered_asks :: "ref multiset \<Rightarrow> world \<Rightarrow> world \<Rightarrow> bool" where
  "triggered_asks T w w' \<longleftrightarrow>
     askObj w' = (\<lambda>r. if r \<in># T then activated (now w) (askObj w r) else askObj w r) \<and>
     bidObj w' = bidObj w \<and> users w' = users w \<and> allStocks w' = allStocks w \<and> now w' = now w \<and> nextRef w' = nextRef w"

definition triggered_bids :: "ref multiset \<Rightarrow> world \<Rightarrow> world \<Rightarrow> bool" where
  "triggered_bids T w w' \<longleftrightarrow>
     bidObj w' = (\<lambda>r. if r \<in># T then activated (now w) (bidObj w r) else bidObj w r) \<and>
     askObj w' = askObj w \<and> users w' = users w \<and> allStocks w' = allStocks w \<and> now w' = now w \<and> nextRef w' = nextRef w"

text \<open>The same book: its stock and the orders on its channels.\<close>

definition same_book :: "orderBook \<Rightarrow> orderBook \<Rightarrow> bool" where
  "same_book ob ob' \<longleftrightarrow> ob_stockId ob' = ob_stockId ob \<and> ob_askChan ob' = ob_askChan ob \<and>
     ob_bidChan ob' = ob_bidChan ob"

lemma same_book_refl [simp]: "same_book ob ob"
  by (simp add: same_book_def)

lemma same_book_trans: "same_book a b \<Longrightarrow> same_book b c \<Longrightarrow> same_book a c"
  by (simp add: same_book_def)

lemma stoploss_head_price:
  assumes "o_OrderType (obj r) = StopLoss" "o_OrderType (obj v) = StopLoss"
  shows "\<not> ref_lt obj bidComparator r v \<Longrightarrow> o_Price (obj v) \<le> o_Price (obj r)"
    "\<not> ref_lt obj askComparator r v \<Longrightarrow> o_Price (obj r) \<le> o_Price (obj v)"
  using assms
  by (auto simp: ref_lt_def item_lt_def item_factors_def item_of_def newItem_def isMarket_def
      bidComparator_def askComparator_def split: if_splits)

text \<open>Moving one order from the stop-loss queue to the main queue keeps the side's invariant.\<close>

lemma side_inv_move:
  assumes inv: "side_inv obj c csl q sl"
    and pop: "pq_refs sl = add_mset r (pq_refs sl')" "queue_ok obj csl sl'"
    and obj': "obj' = obj(r := activated t (obj r))"
  obtains q' where "pq_Push obj' r q = Some q'" "pq_refs q' = add_mset r (pq_refs q)"
    "side_inv obj' c csl q' sl'"
proof -
  have u: "uniq (add_mset r (pq_refs q + pq_refs sl'))" using inv by (simp add: side_inv_def pop(1))
  then have nq: "r \<notin># pq_refs q" "r \<notin># pq_refs sl'" by (simp_all add: uniq_add_mset)
  have same: "same_prio (obj v) (obj' v)" if "v \<noteq> r" for v using that by (simp add: obj')
  have q0: "queue_ok obj c q" and ty: "\<And>v. v \<in># pq_refs sl' \<Longrightarrow> o_OrderType (obj v) = StopLoss"
    using inv by (simp_all add: side_inv_def pop(1))
  have q: "queue_ok obj' c q" by (rule queue_ok_cong [OF q0]) (use nq(1) same in metis)
  have sl: "queue_ok obj' csl sl'" by (rule queue_ok_cong [OF pop(2)]) (use nq(2) same in metis)
  obtain q' where q': "pq_Push obj' r q = Some q'" "queue_ok obj' c q'"
      "pq_refs q' = add_mset r (pq_refs q)" using queue_push [OF q] by blast
  have "o_OrderType (obj' v) = StopLoss" if "v \<in># pq_refs sl'" for v
    using ty [OF that] nq(2) that by (metis obj' fun_upd_other)
  then have "side_inv obj' c csl q' sl'" unfolding side_inv_def using q' sl u by simp
  then show ?thesis by (rule that [OF q'(1,3)])
qed

lemma triggerAsks_ok:
  assumes "side_inv (askObj w) askComparator bidComparator (asks ob) (askStoploss ob)"
  shows "\<exists>ob' w'. triggerAsks p ob w = Some (ob', w') \<and>
    side_inv (askObj w') askComparator bidComparator (asks ob') (askStoploss ob') \<and>
    pq_refs (askStoploss ob') = {#r \<in># pq_refs (askStoploss ob). o_Price (askObj w r) < p#} \<and>
    pq_refs (asks ob') = pq_refs (asks ob) + {#r \<in># pq_refs (askStoploss ob). p \<le> o_Price (askObj w r)#} \<and>
    triggered_asks {#r \<in># pq_refs (askStoploss ob). p \<le> o_Price (askObj w r)#} w w' \<and>
    bids ob' = bids ob \<and> bidStoploss ob' = bidStoploss ob \<and> same_book ob ob'"
  using assms
proof (induction "size (pq_refs (askStoploss ob))" arbitrary: ob w rule: less_induct)
  case less
  have slq: "queue_ok (askObj w) bidComparator (askStoploss ob)"
    using less.prems by (simp add: side_inv_def)
  show ?case
  proof (cases rule: queue_head_cases [OF slq])
    case 1
    then show ?thesis using less.prems by (simp add: triggerAsks.simps triggered_asks_def)
  next
    case (2 r sl')
    have rsl: "o_OrderType (askObj w r) = StopLoss" using less.prems 2(4) by (simp add: side_inv_def)
    show ?thesis
    proof (cases "p \<le> o_Price (askObj w r)")
      case False
      have "o_Price (askObj w v) < p" if "v \<in># pq_refs (askStoploss ob)" for v
      proof -
        have "o_OrderType (askObj w v) = StopLoss" using less.prems that by (simp add: side_inv_def)
        then have "o_Price (askObj w v) \<le> o_Price (askObj w r)"
          using stoploss_head_price(1) rsl queue_head_max(2) [OF slq 2(1) that] by blast
        then show ?thesis using False by simp
      qed
      then have "{#v \<in># pq_refs (askStoploss ob). o_Price (askObj w v) < p#} = pq_refs (askStoploss ob)"
        and "{#v \<in># pq_refs (askStoploss ob). p \<le> o_Price (askObj w v)#} = {#}"
        by (auto simp: filter_mset_eq_conv not_le)
      then show ?thesis using less.prems 2 False
        by (auto simp: triggerAsks.simps [of p ob] triggered_asks_def fun_eq_iff)
    next
      case True
      obtain e w1 where tr: "TriggerStoploss_ask r w = (e, w1)" by fastforce
      have w1: "askObj w1 = (askObj w)(r := activated (now w) (askObj w r))" "bidObj w1 = bidObj w"
          "users w1 = users w" "allStocks w1 = allStocks w" "now w1 = now w" "nextRef w1 = nextRef w"
        using TriggerStoploss_ask_objs [OF tr] rsl by (auto simp: activated_def)
      obtain q' where q': "pq_Push (askObj w1) r (asks ob) = Some q'"
          "pq_refs q' = add_mset r (pq_refs (asks ob))"
          "side_inv (askObj w1) askComparator bidComparator q' sl'"
        using side_inv_move [OF less.prems 2(4,3) w1(1)] by blast
      let ?ob1 = "ob\<lparr>askStoploss := sl', asks := q',
        depth_of := depth_AddOrder True True (o_Price (askObj w1 r)) (o_StockQuantity (askObj w1 r)) (depth_of ob)\<rparr>"
      have rs: "r \<notin># pq_refs sl'" using less.prems 2(4) by (auto simp: side_inv_def uniq_add_mset)
      then have flt: "{#v \<in># pq_refs sl'. P (o_Price (askObj w1 v))#} = {#v \<in># pq_refs sl'. P (o_Price (askObj w v))#}" for P
        by (intro filter_mset_cong) (auto simp: w1)
      obtain ob' w' where IH: "triggerAsks p ?ob1 w1 = Some (ob', w')"
          "side_inv (askObj w') askComparator bidComparator (asks ob') (askStoploss ob')"
          "pq_refs (askStoploss ob') = {#v \<in># pq_refs sl'. o_Price (askObj w1 v) < p#}"
          "pq_refs (asks ob') = pq_refs q' + {#v \<in># pq_refs sl'. p \<le> o_Price (askObj w1 v)#}"
          "triggered_asks {#v \<in># pq_refs sl'. p \<le> o_Price (askObj w1 v)#} w1 w'"
          "bids ob' = bids ob" "bidStoploss ob' = bidStoploss ob" "same_book ob ob'"
        using less.hyps [of ?ob1 w1] 2(4) q'(3) by (auto simp: same_book_def)
      have "triggered_asks {#v \<in># pq_refs (askStoploss ob). p \<le> o_Price (askObj w v)#} w w'"
        using IH(5) True rs 2(4) unfolding flt [of "\<lambda>x. p \<le> x"] by (auto simp: triggered_asks_def w1 fun_eq_iff)
      moreover have "triggerAsks p ob w = Some (ob', w')"
        using IH(1) 2(1,2) True tr q'(1) by (simp add: triggerAsks.simps [of p ob] Let_def)
      ultimately show ?thesis
        using IH(2-4,6-8) 2(4) q'(2) True flt [of "\<lambda>x. x < p"] flt [of "\<lambda>x. p \<le> x"] by (auto simp: not_le)
    qed
  qed
qed

lemma triggerBids_ok:
  assumes "side_inv (bidObj w) bidComparator askComparator (bids ob) (bidStoploss ob)"
  shows "\<exists>ob' w'. triggerBids p ob w = Some (ob', w') \<and>
    side_inv (bidObj w') bidComparator askComparator (bids ob') (bidStoploss ob') \<and>
    pq_refs (bidStoploss ob') = {#r \<in># pq_refs (bidStoploss ob). p < o_Price (bidObj w r)#} \<and>
    pq_refs (bids ob') = pq_refs (bids ob) + {#r \<in># pq_refs (bidStoploss ob). o_Price (bidObj w r) \<le> p#} \<and>
    triggered_bids {#r \<in># pq_refs (bidStoploss ob). o_Price (bidObj w r) \<le> p#} w w' \<and>
    asks ob' = asks ob \<and> askStoploss ob' = askStoploss ob \<and> same_book ob ob'"
  using assms
proof (induction "size (pq_refs (bidStoploss ob))" arbitrary: ob w rule: less_induct)
  case less
  have slq: "queue_ok (bidObj w) askComparator (bidStoploss ob)"
    using less.prems by (simp add: side_inv_def)
  show ?case
  proof (cases rule: queue_head_cases [OF slq])
    case 1
    then show ?thesis using less.prems by (simp add: triggerBids.simps triggered_bids_def)
  next
    case (2 r sl')
    have rsl: "o_OrderType (bidObj w r) = StopLoss" using less.prems 2(4) by (simp add: side_inv_def)
    show ?thesis
    proof (cases "o_Price (bidObj w r) \<le> p")
      case False
      have "p < o_Price (bidObj w v)" if "v \<in># pq_refs (bidStoploss ob)" for v
      proof -
        have "o_OrderType (bidObj w v) = StopLoss" using less.prems that by (simp add: side_inv_def)
        then have "o_Price (bidObj w r) \<le> o_Price (bidObj w v)"
          using stoploss_head_price(2) rsl queue_head_max(2) [OF slq 2(1) that] by blast
        then show ?thesis using False by simp
      qed
      then have "{#v \<in># pq_refs (bidStoploss ob). p < o_Price (bidObj w v)#} = pq_refs (bidStoploss ob)"
        and "{#v \<in># pq_refs (bidStoploss ob). o_Price (bidObj w v) \<le> p#} = {#}"
        by (auto simp: filter_mset_eq_conv not_le)
      then show ?thesis using less.prems 2 False
        by (auto simp: triggerBids.simps [of p ob] triggered_bids_def fun_eq_iff)
    next
      case True
      obtain e w1 where tr: "TriggerStoploss_bid r w = (e, w1)" by fastforce
      have w1: "bidObj w1 = (bidObj w)(r := activated (now w) (bidObj w r))" "askObj w1 = askObj w"
          "users w1 = users w" "allStocks w1 = allStocks w" "now w1 = now w" "nextRef w1 = nextRef w"
        using TriggerStoploss_bid_objs [OF tr] rsl by (auto simp: activated_def)
      obtain q' where q': "pq_Push (bidObj w1) r (bids ob) = Some q'"
          "pq_refs q' = add_mset r (pq_refs (bids ob))"
          "side_inv (bidObj w1) bidComparator askComparator q' sl'"
        using side_inv_move [OF less.prems 2(4,3) w1(1)] by blast
      let ?ob1 = "ob\<lparr>bidStoploss := sl', bids := q',
        depth_of := depth_AddOrder True False (o_Price (bidObj w1 r)) (o_StockQuantity (bidObj w1 r)) (depth_of ob)\<rparr>"
      have rs: "r \<notin># pq_refs sl'" using less.prems 2(4) by (auto simp: side_inv_def uniq_add_mset)
      then have flt: "{#v \<in># pq_refs sl'. P (o_Price (bidObj w1 v))#} = {#v \<in># pq_refs sl'. P (o_Price (bidObj w v))#}" for P
        by (intro filter_mset_cong) (auto simp: w1)
      obtain ob' w' where IH: "triggerBids p ?ob1 w1 = Some (ob', w')"
          "side_inv (bidObj w') bidComparator askComparator (bids ob') (bidStoploss ob')"
          "pq_refs (bidStoploss ob') = {#v \<in># pq_refs sl'. p < o_Price (bidObj w1 v)#}"
          "pq_refs (bids ob') = pq_refs q' + {#v \<in># pq_refs sl'. o_Price (bidObj w1 v) \<le> p#}"
          "triggered_bids {#v \<in># pq_refs sl'. o_Price (bidObj w1 v) \<le> p#} w1 w'"
          "asks ob' = asks ob" "askStoploss ob' = askStoploss ob" "same_book ob ob'"
        using less.hyps [of ?ob1 w1] 2(4) q'(3) by (auto simp: same_book_def)
      have "triggered_bids {#v \<in># pq_refs (bidStoploss ob). o_Price (bidObj w v) \<le> p#} w w'"
        using IH(5) True rs 2(4) unfolding flt [of "\<lambda>x. x \<le> p"] by (auto simp: triggered_bids_def w1 fun_eq_iff)
      moreover have "triggerBids p ob w = Some (ob', w')"
        using IH(1) 2(1,2) True tr q'(1) by (simp add: triggerBids.simps [of p ob] Let_def)
      ultimately show ?thesis
        using IH(2-4,6-8) 2(4) q'(2) True flt [of "\<lambda>x. p < x"] flt [of "\<lambda>x. x \<le> p"] by (auto simp: not_le)
    qed
  qed
qed

end
