(* ===== verification/Matching.thy ===== *)
theory Matching
  imports Book_Proofs
begin

text \<open>
  Matching an incoming order. What the order book relies on of the function that fills a pair
  of orders is the locale \<open>fill_order\<close>: the function returns, it leaves the priorities of all
  orders alone, and an order it reports as done is closed. Under that contract \<^verbatim>\<open>makeTrade\<close>
  and the loops of \<^verbatim>\<open>processAsk\<close> and \<^verbatim>\<open>processBid\<close> return and keep the invariant of the book.
\<close>

section \<open>How orders evolve\<close>

text \<open>Between two states an order keeps its identity and its terms, and stays closed.\<close>

definition kin :: "order \<Rightarrow> order \<Rightarrow> bool" where
  "kin x y \<longleftrightarrow> o_Id x = o_Id y \<and> o_UserId x = o_UserId y \<and> o_StockId x = o_StockId y \<and>
     o_Price x = o_Price y \<and> o_StockQuantity x = o_StockQuantity y \<and>
     (o_IsClosed x \<longrightarrow> o_IsClosed y)"

definition evolves :: "world \<Rightarrow> world \<Rightarrow> bool" where
  "evolves w w' \<longleftrightarrow> (\<forall>r. kin (askObj w r) (askObj w' r)) \<and> (\<forall>r. kin (bidObj w r) (bidObj w' r)) \<and>
     dom (allStocks w') = dom (allStocks w) \<and> nextRef w' = nextRef w"

lemma kin_refl [simp]: "kin x x"
  by (simp add: kin_def)

lemma kin_activated [simp]: "kin x (activated t x)"
  by (simp add: kin_def activated_def)

lemma kin_trans: "kin x y \<Longrightarrow> kin y z \<Longrightarrow> kin x z"
  by (auto simp: kin_def)

lemma evolves_refl [simp]: "evolves w w"
  by (simp add: evolves_def)

lemma evolves_trans: "evolves w1 w2 \<Longrightarrow> evolves w2 w3 \<Longrightarrow> evolves w1 w3"
  unfolding evolves_def using kin_trans by metis

lemma evolves_triggered:
  "triggered_asks T w w' \<Longrightarrow> evolves w w'" "triggered_bids T w w' \<Longrightarrow> evolves w w'"
  by (auto simp: triggered_asks_def triggered_bids_def evolves_def)

text \<open>The work on one book leaves the priorities of all other orders alone.\<close>

definition own_prios :: "orderBook \<Rightarrow> world \<Rightarrow> world \<Rightarrow> bool" where
  "own_prios ob w w' \<longleftrightarrow>
     (\<forall>r. r \<notin># ask_refs ob \<longrightarrow> same_prio (askObj w r) (askObj w' r)) \<and>
     (\<forall>r. r \<notin># bid_refs ob \<longrightarrow> same_prio (bidObj w r) (bidObj w' r))"

lemma own_prios_refl [simp]: "own_prios ob w w"
  by (simp add: own_prios_def)

lemma own_prios_all:
  "(\<And>r. same_prio (askObj w r) (askObj w' r)) \<Longrightarrow> (\<And>r. same_prio (bidObj w r) (bidObj w' r)) \<Longrightarrow> own_prios ob w w'"
  by (simp add: own_prios_def)

lemma own_prios_trans:
  assumes "own_prios ob w w1" "own_prios ob1 w1 w2" "ask_refs ob1 \<subseteq># ask_refs ob" "bid_refs ob1 \<subseteq># bid_refs ob"
  shows "own_prios ob w w2"
proof -
  have "r \<notin># ask_refs ob \<Longrightarrow> r \<notin># ask_refs ob1" "r \<notin># bid_refs ob \<Longrightarrow> r \<notin># bid_refs ob1" for r
    using assms(3,4) mset_subset_eqD by metis+
  then show ?thesis using assms(1,2) unfolding own_prios_def same_prio_def by metis
qed

lemma own_prios_mono:
  "own_prios ob1 w w' \<Longrightarrow> ask_refs ob1 \<subseteq># ask_refs ob \<Longrightarrow> bid_refs ob1 \<subseteq># bid_refs ob \<Longrightarrow> own_prios ob w w'"
  using own_prios_trans [of ob w w ob1 w'] by simp

lemma own_prios_triggered:
  assumes "triggered_asks T w w1" "triggered_bids U w1 w2" "T \<subseteq># ask_refs ob" "U \<subseteq># bid_refs ob"
  shows "own_prios ob w w2"
  using assms by (auto simp: own_prios_def triggered_asks_def triggered_bids_def dest: mset_subset_eqD)

definition fillable :: "world \<Rightarrow> ref \<Rightarrow> ref \<Rightarrow> bool" where
  "fillable w a b \<longleftrightarrow> o_UserId (askObj w a) \<noteq> o_UserId (bidObj w b) \<and>
     o_StockId (askObj w a) \<in> dom (allStocks w)"

locale fill_order =
  fixes fill :: FillOrder
  assumes total: "fillable w a b \<Longrightarrow> \<exists>res w'. fill a b p q w = Some (res, w')"
    and frame: "fill a b p q w = Some (res, w') \<Longrightarrow> evolves w w' \<and>
      (\<forall>r. same_prio (askObj w r) (askObj w' r)) \<and> (\<forall>r. same_prio (bidObj w r) (bidObj w' r))"
    and closes: "fill a b p q w = Some ((sa, sb, tr), w') \<Longrightarrow>
      (sa \<noteq> AskUndone \<longrightarrow> o_IsClosed (askObj w' a)) \<and> (sb \<noteq> BidUndone \<longrightarrow> o_IsClosed (bidObj w' b))"

section \<open>Triggering keeps the book\<close>

text \<open>What a trade does to the queues: stop-losses move to the main queues, nothing else.\<close>

definition book_moves :: "orderBook \<Rightarrow> orderBook \<Rightarrow> bool" where
  "book_moves ob ob' \<longleftrightarrow> same_book ob ob' \<and>
     ask_refs ob' = ask_refs ob \<and> bid_refs ob' = bid_refs ob \<and>
     pq_refs (asks ob) \<subseteq># pq_refs (asks ob') \<and> pq_refs (bids ob) \<subseteq># pq_refs (bids ob') \<and>
     (pq_refs (askStoploss ob) = {#} \<longrightarrow> asks ob' = asks ob \<and> askStoploss ob' = askStoploss ob) \<and>
     (pq_refs (bidStoploss ob) = {#} \<longrightarrow> bids ob' = bids ob \<and> bidStoploss ob' = bidStoploss ob)"

lemma book_moves_depth [simp]: "book_moves ob (ob\<lparr>depth_of := d\<rparr>)"
  by (simp add: book_moves_def same_book_def)

lemma book_inv_depth [simp]: "book_inv w (ob\<lparr>depth_of := d\<rparr>) = book_inv w ob"
  by (simp add: book_inv_def)

lemma book_moves_depth_left [simp]: "book_moves (ob\<lparr>depth_of := d\<rparr>) ob' = book_moves ob ob'"
  by (simp add: book_moves_def same_book_def)

lemma trigger_empty:
  "queue_ok obj c (askStoploss ob) \<Longrightarrow> pq_refs (askStoploss ob) = {#} \<Longrightarrow> triggerAsks p ob w = Some (ob, w)"
  "queue_ok obj c (bidStoploss ob) \<Longrightarrow> pq_refs (bidStoploss ob) = {#} \<Longrightarrow> triggerBids p ob w = Some (ob, w)"
  by (use pq.pop_empty [of obj "askStoploss ob" c] in \<open>simp add: triggerAsks.simps queue_ok_def\<close>)
    (use pq.pop_empty [of obj "bidStoploss ob" c] in \<open>simp add: triggerBids.simps queue_ok_def\<close>)

lemma filter_le_split:
  fixes f :: "'a \<Rightarrow> 'b::linorder"
  shows "M + {#x \<in># N. p \<le> f x#} + {#x \<in># N. f x < p#} = M + N"
    "M + {#x \<in># N. f x \<le> p#} + {#x \<in># N. p < f x#} = M + N"
proof -
  have "{#x \<in># N. p \<le> f x#} + {#x \<in># N. f x < p#} = N" "{#x \<in># N. f x \<le> p#} + {#x \<in># N. p < f x#} = N"
    using multiset_partition [of N "\<lambda>x. p \<le> f x"] multiset_partition [of N "\<lambda>x. f x \<le> p"]
    by (simp_all add: not_le)
  then show "M + {#x \<in># N. p \<le> f x#} + {#x \<in># N. f x < p#} = M + N"
    "M + {#x \<in># N. f x \<le> p#} + {#x \<in># N. p < f x#} = M + N"
    by (simp_all add: add.assoc)
qed

lemma triggerStopLosses_ok:
  assumes "book_inv w ob"
  obtains ob' w' where "triggerStopLosses tr ob w = Some (ob', w')" "book_inv w' ob'"
    "book_moves ob ob'" "evolves w w'" "own_prios ob w w'"
    "pq_refs (asks ob') = pq_refs (asks ob) + {#r \<in># pq_refs (askStoploss ob). t_Price tr \<le> o_Price (askObj w r)#}"
    "pq_refs (bids ob') = pq_refs (bids ob) + {#r \<in># pq_refs (bidStoploss ob). o_Price (bidObj w r) \<le> t_Price tr#}"
proof -
  have sa: "side_inv (askObj w) askComparator bidComparator (asks ob) (askStoploss ob)"
    and sb: "side_inv (bidObj w) bidComparator askComparator (bids ob) (bidStoploss ob)"
    using assms by (simp_all add: book_inv_def)
  let ?p = "t_Price tr"
  obtain ob1 w1 where a: "triggerAsks ?p ob w = Some (ob1, w1)"
      "side_inv (askObj w1) askComparator bidComparator (asks ob1) (askStoploss ob1)"
      "pq_refs (askStoploss ob1) = {#r \<in># pq_refs (askStoploss ob). o_Price (askObj w r) < ?p#}"
      "pq_refs (asks ob1) = pq_refs (asks ob) + {#r \<in># pq_refs (askStoploss ob). ?p \<le> o_Price (askObj w r)#}"
      "triggered_asks {#r \<in># pq_refs (askStoploss ob). ?p \<le> o_Price (askObj w r)#} w w1"
      "bids ob1 = bids ob" "bidStoploss ob1 = bidStoploss ob" "same_book ob ob1"
    using triggerAsks_ok [OF sa, of ?p] by blast
  have bo: "bidObj w1 = bidObj w" using a(5) by (simp add: triggered_asks_def)
  have sb1: "side_inv (bidObj w1) bidComparator askComparator (bids ob1) (bidStoploss ob1)"
    using sb a(6,7) bo by simp
  obtain ob2 w2 where b: "triggerBids ?p ob1 w1 = Some (ob2, w2)"
      "side_inv (bidObj w2) bidComparator askComparator (bids ob2) (bidStoploss ob2)"
      "pq_refs (bidStoploss ob2) = {#r \<in># pq_refs (bidStoploss ob1). ?p < o_Price (bidObj w1 r)#}"
      "pq_refs (bids ob2) = pq_refs (bids ob1) + {#r \<in># pq_refs (bidStoploss ob1). o_Price (bidObj w1 r) \<le> ?p#}"
      "triggered_bids {#r \<in># pq_refs (bidStoploss ob1). o_Price (bidObj w1 r) \<le> ?p#} w1 w2"
      "asks ob2 = asks ob1" "askStoploss ob2 = askStoploss ob1" "same_book ob1 ob2"
    using triggerBids_ok [OF sb1, of ?p] by blast
  have ao: "askObj w2 = askObj w1" using b(5) by (simp add: triggered_bids_def)
  have inv: "book_inv w2 ob2" using a(2) b(2,6,7) ao by (simp add: book_inv_def)
  have ev: "evolves w w2" using evolves_triggered a(5) b(5) evolves_trans by blast
  have op: "own_prios ob w w2"
    by (rule own_prios_triggered [OF a(5) b(5)])
      (simp_all add: a(7) bo multiset_filter_subset subset_mset.add_increasing)
  have ea: "asks ob2 = asks ob \<and> askStoploss ob2 = askStoploss ob" if "pq_refs (askStoploss ob) = {#}"
    using trigger_empty(1) [of "askObj w" bidComparator ob ?p w] sa that a(1) b(6,7)
    by (simp add: side_inv_def)
  have eb: "bids ob2 = bids ob \<and> bidStoploss ob2 = bidStoploss ob" if "pq_refs (bidStoploss ob) = {#}"
    using trigger_empty(2) [of "bidObj w1" askComparator ob1 ?p w1] sb1 that a(6,7) b(1)
    by (simp add: side_inv_def)
  have "book_moves ob ob2"
    unfolding book_moves_def using ea eb same_book_trans [OF a(8) b(8)] a(3,4) b(3,4,6,7)
    by (simp add: a(6,7) filter_le_split)
  then show ?thesis using that [of ob2 w2] a(1) b(1) inv ev op a(4) b(4,6) a(6,7) bo
    by (simp add: triggerStopLosses_def)
qed

section \<open>One trade\<close>

context fill_order
begin

lemma makeTrade_ok:
  assumes inv: "book_inv w ob" and fb: "fillable w a b"
  obtains ad bd ob' w' where "makeTrade fill a b ia ib ob w = Some ((ad, bd), ob', w')"
    "book_inv w' ob'" "book_moves ob ob'" "evolves w w'" "own_prios ob w w'"
    "ad \<longrightarrow> o_IsClosed (askObj w' a)" "bd \<longrightarrow> o_IsClosed (bidObj w' b)"
proof -
  obtain p q where pq: "getTradePriceAndQty (askObj w a) (bidObj w b) w = (p, q)" by fastforce
  obtain sa sb tr w1 where f: "fill a b p q w = Some ((sa, sb, tr), w1)"
    using total [OF fb, of p q] by auto
  have fr: "evolves w w1" "\<And>r. same_prio (askObj w r) (askObj w1 r)"
      "\<And>r. same_prio (bidObj w r) (bidObj w1 r)" using frame [OF f] by auto
  have inv1: "book_inv w1 ob"
    using inv fr side_inv_cong unfolding book_inv_def by blast
  have cl: "sa \<noteq> AskUndone \<longrightarrow> o_IsClosed (askObj w1 a)" "sb \<noteq> BidUndone \<longrightarrow> o_IsClosed (bidObj w1 b)"
    using closes [OF f] by auto
  show ?thesis
  proof (cases tr)
    case None
    define ob1 where "ob1 = (if \<not> ib \<and> sb \<noteq> BidAlreadyClosed
      then closeBidDepth (bidObj w1 b) (unfulfilled (bidObj w1 b)) ob else ob)"
    define ob2 where "ob2 = (if \<not> ia \<and> sa \<noteq> AskAlreadyClosed
      then closeAskDepth (askObj w1 a) (unfulfilled (askObj w1 a)) ob1 else ob1)"
    have d: "ob2 = ob\<lparr>depth_of := depth_of ob2\<rparr>"
      by (simp add: ob1_def ob2_def closeBidDepth_def closeAskDepth_def)
    have mv: "book_inv w1 ob2" "book_moves ob ob2" by (subst d, simp add: inv1)+
    have "makeTrade fill a b ia ib ob w = Some ((sa \<noteq> AskUndone, sb \<noteq> BidUndone), ob2, w1)"
      using pq f None by (simp add: makeTrade_def Let_def ob1_def ob2_def)
    then show ?thesis by (rule that) (use mv fr(1) own_prios_all [OF fr(2,3)] cl in auto)
  next
    case (Some t)
    define ob1 where "ob1 = ob\<lparr>depth_of := depth_AddTrade (t_Price t) (- t_StockQuantity t) (t_CreatedAt t) (depth_of ob)\<rparr>"
    define ob2 where "ob2 = (if \<not> ib then closeBidDepth (bidObj w1 b) (- t_StockQuantity t) ob1 else ob1)"
    define ob3 where "ob3 = (if \<not> ia then closeAskDepth (askObj w1 a) (- t_StockQuantity t) ob2 else ob2)"
    have d: "ob3 = ob\<lparr>depth_of := depth_of ob3\<rparr>"
      by (simp add: ob1_def ob2_def ob3_def closeBidDepth_def closeAskDepth_def)
    have inv3: "book_inv w1 ob3" by (subst d) (simp add: inv1)
    obtain ob' w' where t: "triggerStopLosses t ob3 w1 = Some (ob', w')" "book_inv w' ob'"
        "book_moves ob3 ob'" "evolves w1 w'" "own_prios ob3 w1 w'" by (rule triggerStopLosses_ok [OF inv3])
    have "ask_refs ob3 = ask_refs ob" "bid_refs ob3 = bid_refs ob" by (subst d, simp)+
    then have op: "own_prios ob w w'"
      using own_prios_trans [OF own_prios_all [OF fr(2,3)] t(5)] by simp
    have mv: "book_moves ob ob'" using t(3) by (metis d book_moves_depth_left)
    have cl': "o_IsClosed (askObj w1 a) \<longrightarrow> o_IsClosed (askObj w' a)"
        "o_IsClosed (bidObj w1 b) \<longrightarrow> o_IsClosed (bidObj w' b)"
      using t(4) by (simp_all add: evolves_def kin_def)
    have "makeTrade fill a b ia ib ob w = Some ((sa \<noteq> AskUndone, sb \<noteq> BidUndone), ob', w')"
      using pq f Some t(1) unfolding ob3_def ob2_def ob1_def
      by (cases ia; cases ib) (simp_all add: makeTrade_def Let_def)
    then show ?thesis by (rule that) (use t mv cl cl' op evolves_trans [OF fr(1)] in auto)
  qed
qed

end

section \<open>Incoming orders\<close>

lemma getTopMatchingBid_Some:
  assumes "queue_ok (bidObj w) bidComparator (bids ob)"
    and top: "getTopMatchingBid ar w ob = Some (Some br, same, ob\<lparr>bids := q\<rparr>)"
  shows "queue_ok (bidObj w) bidComparator q \<and> pq_refs (bids ob) = pq_refs q + mset same \<and>
    pq_Head q = Some (Some br) \<and> o_UserId (bidObj w br) \<noteq> o_UserId (askObj w ar)"
proof -
  have inj: "ob\<lparr>bids := q\<rparr> = ob\<lparr>bids := q'\<rparr> \<longleftrightarrow> q = q'" for q'
    by (metis orderBook.select_convs(5) orderBook.surjective orderBook.update_convs(5))
  show ?thesis
    using getTopMatchingBid_ok [OF assms(1), of ar] unfolding top
    by (elim exE conjE) (simp only: option.inject prod.inject inj option.case, simp)
qed

lemma getTopMatchingAsk_Some:
  assumes "queue_ok (askObj w) askComparator (asks ob)"
    and top: "getTopMatchingAsk br w ob = Some (Some ar, same, ob\<lparr>asks := q\<rparr>)"
  shows "queue_ok (askObj w) askComparator q \<and> pq_refs (asks ob) = pq_refs q + mset same \<and>
    pq_Head q = Some (Some ar) \<and> o_UserId (askObj w ar) \<noteq> o_UserId (bidObj w br)"
proof -
  have inj: "ob\<lparr>asks := q\<rparr> = ob\<lparr>asks := q'\<rparr> \<longleftrightarrow> q = q'" for q'
    by (metis orderBook.select_convs(4) orderBook.surjective orderBook.update_convs(4))
  show ?thesis
    using getTopMatchingAsk_ok [OF assms(1), of br] unfolding top
    by (elim exE conjE) (simp only: option.inject prod.inject inj option.case, simp)
qed

definition book_ok :: "world \<Rightarrow> orderBook \<Rightarrow> bool" where
  "book_ok w ob \<longleftrightarrow> book_inv w ob \<and> ob_stockId ob \<in> dom (allStocks w) \<and>
     (\<forall>a \<in># ask_refs ob. o_StockId (askObj w a) = ob_stockId ob)"

text \<open>The best order is taken off if it is done, and the orders set aside are put back.\<close>

lemma side_pop_back:
  assumes inv: "side_inv obj c csl q sl" and u: "uniq (pq_refs q + mset same + pq_refs sl)"
    and ne: "d \<Longrightarrow> pq_refs q \<noteq> {#}"
  obtains D q1 q2 where
    "d \<Longrightarrow> \<exists>x. D = {#x#} \<and> pq_Pop obj q = Some (Some x, q1) \<and> pq_Head q = Some (Some x)"
    "\<not> d \<Longrightarrow> D = {#} \<and> q1 = q" "push_all (pq_Push obj) same q1 = Some q2"
    "side_inv obj c csl q2 sl" "pq_refs q + mset same = D + pq_refs q2"
proof -
  have q: "queue_ok obj c q" "queue_ok obj csl sl" and st: "\<forall>r \<in># pq_refs sl. o_OrderType (obj r) = StopLoss"
    using inv by (simp_all add: side_inv_def)
  obtain D q1 where 1: "d \<Longrightarrow> \<exists>x. D = {#x#} \<and> pq_Pop obj q = Some (Some x, q1) \<and> pq_Head q = Some (Some x)"
      "\<not> d \<Longrightarrow> D = {#} \<and> q1 = q" "queue_ok obj c q1" "pq_refs q = D + pq_refs q1"
  proof (cases d)
    case False
    then show ?thesis using that [of "{#}" q] q by simp
  next
    case True
    from q(1) show ?thesis
    proof (cases rule: queue_head_cases)
      case Empty
      then show ?thesis using ne True by simp
    next
      case (Head r q')
      then show ?thesis using that [of "{#r#}" q'] True by simp
    qed
  qed
  obtain q2 where 2: "push_all (pq_Push obj) same q1 = Some q2" "queue_ok obj c q2"
      "pq_refs q2 = pq_refs q1 + mset same" using queue_push_all [OF 1(3)] by blast
  have "pq_refs q2 + pq_refs sl \<subseteq># pq_refs q + mset same + pq_refs sl" by (simp add: 1(4) 2(3))
  then have "side_inv obj c csl q2 sl" unfolding side_inv_def using 2(2) q(2) st uniq_mono u by blast
  then show ?thesis using that [of D q1 q2] 1 2 by simp
qed

lemma side_inv_set_aside:
  assumes "side_inv obj c csl q sl" "queue_ok obj c q'" "pq_refs q = pq_refs q' + mset same"
  shows "side_inv obj c csl q' sl" "uniq (pq_refs q' + mset same + pq_refs sl)"
proof -
  have "pq_refs q' + pq_refs sl \<subseteq># pq_refs q + pq_refs sl" by (simp add: assms(3))
  then show "side_inv obj c csl q' sl" "uniq (pq_refs q' + mset same + pq_refs sl)"
    using assms uniq_mono unfolding side_inv_def by (metis, simp)
qed

lemma side_inv_rest:
  assumes "side_inv obj c csl q sl" "r \<notin># pq_refs q + pq_refs sl"
  obtains q' where "pq_Push obj r q = Some q'" "pq_refs q' = add_mset r (pq_refs q)"
    "side_inv obj c csl q' sl"
proof -
  obtain q' where q': "pq_Push obj r q = Some q'" "queue_ok obj c q'" "pq_refs q' = add_mset r (pq_refs q)"
    using queue_push [of obj c q r] assms(1) by (auto simp: side_inv_def)
  have "side_inv obj c csl q' sl" using assms q' by (simp add: side_inv_def uniq_add_mset)
  with q' show ?thesis using that by blast
qed

context fill_order
begin

lemma book_ok_moves:
  assumes "book_ok w ob" "book_inv w' ob'" "ask_refs ob' \<subseteq># ask_refs ob" "evolves w w'" "same_book ob ob'"
  shows "book_ok w' ob'"
  using assms unfolding book_ok_def evolves_def kin_def same_book_def
  by (metis mset_subset_eqD)

text \<open>One round of the loop of \<^verbatim>\<open>processAsk\<close> that finds a matching bid.\<close>

lemma ask_round:
  assumes ok: "book_ok w ob" and st: "o_StockId (askObj w ar) = ob_stockId ob"
    and top: "getTopMatchingBid ar w ob = Some (Some br, same, ob\<lparr>bids := q\<rparr>)"
  obtains ad bd ob2 ob3 ob4 w2 D where
    "makeTrade fill ar br True False (ob\<lparr>bids := q\<rparr>) w = Some ((ad, bd), ob2, w2)"
    "(if bd then map_option snd (popBids w2 ob2) else Some ob2) = Some ob3"
    "addBackBids same w2 ob3 = Some ob4" "book_ok w2 ob4" "same_book ob ob4" "evolves w w2" "own_prios ob w w2"
    "ask_refs ob4 = ask_refs ob" "bid_refs ob = D + bid_refs ob4" "bd \<longrightarrow> D \<noteq> {#}"
    "ad \<longrightarrow> o_IsClosed (askObj w2 ar)"
    "pq_refs (bidStoploss ob) = {#} \<longrightarrow>
       pq_refs (bidStoploss ob4) = {#} \<and> (\<forall>b \<in># D. o_IsClosed (bidObj w2 b))"
proof -
  have sb: "side_inv (bidObj w) bidComparator askComparator (bids ob) (bidStoploss ob)"
    and inv: "book_inv w ob" using ok by (simp_all add: book_ok_def book_inv_def)
  then have qb: "queue_ok (bidObj w) bidComparator (bids ob)" by (simp add: side_inv_def)
  have t: "queue_ok (bidObj w) bidComparator q" "pq_refs (bids ob) = pq_refs q + mset same"
      "pq_Head q = Some (Some br)" "o_UserId (bidObj w br) \<noteq> o_UserId (askObj w ar)"
    using getTopMatchingBid_Some [OF qb top] by simp_all
  let ?ob1 = "ob\<lparr>bids := q\<rparr>"
  have s1: "side_inv (bidObj w) bidComparator askComparator q (bidStoploss ob)"
    and u1: "uniq (pq_refs q + mset same + pq_refs (bidStoploss ob))"
    using side_inv_set_aside [OF sb t(1,2)] by auto
  have inv1: "book_inv w ?ob1" using inv s1 by (simp add: book_inv_def)
  have fb: "fillable w ar br" using ok st t(4) by (auto simp: fillable_def book_ok_def)
  obtain ad bd ob2 w2 where m: "makeTrade fill ar br True False ?ob1 w = Some ((ad, bd), ob2, w2)"
      "book_inv w2 ob2" "book_moves ?ob1 ob2" "evolves w w2" "own_prios ?ob1 w w2"
      "ad \<longrightarrow> o_IsClosed (askObj w2 ar)" "bd \<longrightarrow> o_IsClosed (bidObj w2 br)"
    by (rule makeTrade_ok [OF inv1 fb, of True False])
  have op: "own_prios ob w w2" by (rule own_prios_mono [OF m(5)]) (simp_all add: t(2))
  have mv: "same_book ob ob2" "ask_refs ob2 = ask_refs ob"
      "bid_refs ob2 = pq_refs q + pq_refs (bidStoploss ob)" "pq_refs q \<subseteq># pq_refs (bids ob2)"
      "pq_refs (bidStoploss ob) = {#} \<Longrightarrow> bids ob2 = q \<and> bidStoploss ob2 = bidStoploss ob"
    using m(3) by (auto simp: book_moves_def same_book_def)
  have s2: "side_inv (bidObj w2) bidComparator askComparator (bids ob2) (bidStoploss ob2)"
    using m(2) by (simp add: book_inv_def)
  have eq2: "pq_refs (bids ob2) + mset same + pq_refs (bidStoploss ob2) = bid_refs ob"
    using mv(3) t(2) by (simp add: ac_simps)
  then have u2: "uniq (pq_refs (bids ob2) + mset same + pq_refs (bidStoploss ob2))"
    using u1 t(2) by (simp add: ac_simps)
  have ne: "pq_refs (bids ob2) \<noteq> {#}" using mv(4) queue_head_max(1) [OF t(1,3)] by auto
  obtain D q1 q2 where p: "bd \<Longrightarrow> \<exists>x. D = {#x#} \<and> pq_Pop (bidObj w2) (bids ob2) = Some (Some x, q1) \<and> pq_Head (bids ob2) = Some (Some x)"
      "\<not> bd \<Longrightarrow> D = {#} \<and> q1 = bids ob2" "push_all (pq_Push (bidObj w2)) same q1 = Some q2"
      "side_inv (bidObj w2) bidComparator askComparator q2 (bidStoploss ob2)"
      "pq_refs (bids ob2) + mset same = D + pq_refs q2"
    by (rule side_pop_back [OF s2 u2, of bd]) (use ne in auto)
  let ?ob3 = "ob2\<lparr>bids := q1\<rparr>" and ?ob4 = "ob2\<lparr>bids := q2\<rparr>"
  have r3: "(if bd then map_option snd (popBids w2 ob2) else Some ob2) = Some ?ob3"
    using p(1,2) by (auto simp: popBids_def)
  have r4: "addBackBids same w2 ?ob3 = Some ?ob4" using p(3) by (simp add: addBackBids_def)
  have inv4: "book_inv w2 ?ob4" using m(2) p(4) by (simp add: book_inv_def)
  have refs: "bid_refs ob = D + bid_refs ?ob4" using eq2 unfolding p(5) by (simp add: add.assoc)
  have sbk: "same_book ob ?ob4" using mv(1) by (simp add: same_book_def)
  have ok4: "book_ok w2 ?ob4" by (rule book_ok_moves [OF ok inv4 _ m(4) sbk]) (simp add: mv(2))
  have cl: "pq_refs (bidStoploss ?ob4) = {#} \<and> (\<forall>b \<in># D. o_IsClosed (bidObj w2 b))"
    if "pq_refs (bidStoploss ob) = {#}"
    using mv(5) [OF that] that p(1,2) t(3) m(7) by (cases bd) auto
  show ?thesis
    by (rule that [OF m(1) r3 r4 ok4 sbk m(4) op _ refs _ m(6)]) (use mv(2) p(1) cl in auto)
qed

text \<open>One round of the loop of \<^verbatim>\<open>processBid\<close> that finds a matching ask.\<close>

lemma bid_round:
  assumes ok: "book_ok w ob"
    and top: "getTopMatchingAsk br w ob = Some (Some ar, same, ob\<lparr>asks := q\<rparr>)"
  obtains ad bd ob2 ob3 ob4 w2 D where
    "makeTrade fill ar br False True (ob\<lparr>asks := q\<rparr>) w = Some ((ad, bd), ob2, w2)"
    "(if ad then map_option snd (popAsks w2 ob2) else Some ob2) = Some ob3"
    "addBackAsks same w2 ob3 = Some ob4" "book_ok w2 ob4" "same_book ob ob4" "evolves w w2" "own_prios ob w w2"
    "bid_refs ob4 = bid_refs ob" "ask_refs ob = D + ask_refs ob4" "ad \<longrightarrow> D \<noteq> {#}"
    "bd \<longrightarrow> o_IsClosed (bidObj w2 br)"
    "pq_refs (askStoploss ob) = {#} \<longrightarrow>
       pq_refs (askStoploss ob4) = {#} \<and> (\<forall>b \<in># D. o_IsClosed (askObj w2 b))"
proof -
  have sb: "side_inv (askObj w) askComparator bidComparator (asks ob) (askStoploss ob)"
    and inv: "book_inv w ob" using ok by (simp_all add: book_ok_def book_inv_def)
  then have qb: "queue_ok (askObj w) askComparator (asks ob)" by (simp add: side_inv_def)
  have t: "queue_ok (askObj w) askComparator q" "pq_refs (asks ob) = pq_refs q + mset same"
      "pq_Head q = Some (Some ar)" "o_UserId (askObj w ar) \<noteq> o_UserId (bidObj w br)"
    using getTopMatchingAsk_Some [OF qb top] by simp_all
  let ?ob1 = "ob\<lparr>asks := q\<rparr>"
  have s1: "side_inv (askObj w) askComparator bidComparator q (askStoploss ob)"
    and u1: "uniq (pq_refs q + mset same + pq_refs (askStoploss ob))"
    using side_inv_set_aside [OF sb t(1,2)] by auto
  have inv1: "book_inv w ?ob1" using inv s1 by (simp add: book_inv_def)
  have fb: "fillable w ar br" using ok queue_head_max(1) [OF t(1,3)] t(2,4) by (auto simp: fillable_def book_ok_def)
  obtain ad bd ob2 w2 where m: "makeTrade fill ar br False True ?ob1 w = Some ((ad, bd), ob2, w2)"
      "book_inv w2 ob2" "book_moves ?ob1 ob2" "evolves w w2" "own_prios ?ob1 w w2"
      "ad \<longrightarrow> o_IsClosed (askObj w2 ar)" "bd \<longrightarrow> o_IsClosed (bidObj w2 br)"
    by (rule makeTrade_ok [OF inv1 fb, of False True])
  have op: "own_prios ob w w2" by (rule own_prios_mono [OF m(5)]) (simp_all add: t(2))
  have mv: "same_book ob ob2" "bid_refs ob2 = bid_refs ob"
      "ask_refs ob2 = pq_refs q + pq_refs (askStoploss ob)" "pq_refs q \<subseteq># pq_refs (asks ob2)"
      "pq_refs (askStoploss ob) = {#} \<Longrightarrow> asks ob2 = q \<and> askStoploss ob2 = askStoploss ob"
    using m(3) by (auto simp: book_moves_def same_book_def)
  have s2: "side_inv (askObj w2) askComparator bidComparator (asks ob2) (askStoploss ob2)"
    using m(2) by (simp add: book_inv_def)
  have eq2: "pq_refs (asks ob2) + mset same + pq_refs (askStoploss ob2) = ask_refs ob"
    using mv(3) t(2) by (simp add: ac_simps)
  then have u2: "uniq (pq_refs (asks ob2) + mset same + pq_refs (askStoploss ob2))"
    using u1 t(2) by (simp add: ac_simps)
  have ne: "pq_refs (asks ob2) \<noteq> {#}" using mv(4) queue_head_max(1) [OF t(1,3)] by auto
  obtain D q1 q2 where p: "ad \<Longrightarrow> \<exists>x. D = {#x#} \<and> pq_Pop (askObj w2) (asks ob2) = Some (Some x, q1) \<and> pq_Head (asks ob2) = Some (Some x)"
      "\<not> ad \<Longrightarrow> D = {#} \<and> q1 = asks ob2" "push_all (pq_Push (askObj w2)) same q1 = Some q2"
      "side_inv (askObj w2) askComparator bidComparator q2 (askStoploss ob2)"
      "pq_refs (asks ob2) + mset same = D + pq_refs q2"
    by (rule side_pop_back [OF s2 u2, of ad]) (use ne in auto)
  let ?ob3 = "ob2\<lparr>asks := q1\<rparr>" and ?ob4 = "ob2\<lparr>asks := q2\<rparr>"
  have r3: "(if ad then map_option snd (popAsks w2 ob2) else Some ob2) = Some ?ob3"
    using p(1,2) by (auto simp: popAsks_def)
  have r4: "addBackAsks same w2 ?ob3 = Some ?ob4" using p(3) by (simp add: addBackAsks_def)
  have inv4: "book_inv w2 ?ob4" using m(2) p(4) by (simp add: book_inv_def)
  have refs: "ask_refs ob = D + ask_refs ?ob4" using eq2 unfolding p(5) by (simp add: add.assoc)
  have sbk: "same_book ob ?ob4" using mv(1) by (simp add: same_book_def)
  have ok4: "book_ok w2 ?ob4" by (rule book_ok_moves [OF ok inv4 _ m(4) sbk]) (simp add: refs)
  have cl: "pq_refs (askStoploss ?ob4) = {#} \<and> (\<forall>b \<in># D. o_IsClosed (askObj w2 b))"
    if "pq_refs (askStoploss ob) = {#}"
    using mv(5) [OF that] that p(1,2) t(3) m(6) by (cases ad) auto
  show ?thesis
    by (rule that [OF m(1) r3 r4 ok4 sbk m(4) op _ refs _ m(7)]) (use mv(2) p(1) cl in auto)
qed

end

end
