(* ===== verification/Process_Orders.thy ===== *)
theory Process_Orders
  imports Matching
begin

text \<open>
  The loops of \<^verbatim>\<open>processAsk\<close> and \<^verbatim>\<open>processBid\<close> under the contract \<open>fill_order\<close>: each round but
  the last takes an order off the opposite side, so they return; they keep the invariant of
  the book; an order that ends up resting in the book crosses no order of another user; and
  while no stop-loss of the opposite side waits, only closed orders leave the book.
\<close>

text \<open>An order rests only when nothing on the other side matches it.\<close>

definition ask_crosses :: "world \<Rightarrow> orderBook \<Rightarrow> ref \<Rightarrow> bool" where
  "ask_crosses w ob ar \<longleftrightarrow> (\<exists>b \<in># pq_refs (bids ob).
     o_UserId (bidObj w b) \<noteq> o_UserId (askObj w ar) \<and> isOrderMatching (askObj w ar) (bidObj w b))"

definition bid_crosses :: "world \<Rightarrow> orderBook \<Rightarrow> ref \<Rightarrow> bool" where
  "bid_crosses w ob br \<longleftrightarrow> (\<exists>a \<in># pq_refs (asks ob).
     o_UserId (askObj w a) \<noteq> o_UserId (bidObj w br) \<and> isOrderMatching (askObj w a) (bidObj w br))"

definition all_closed :: "(ref \<Rightarrow> order) \<Rightarrow> ref multiset \<Rightarrow> bool" where
  "all_closed obj M \<longleftrightarrow> (\<forall>r \<in># M. o_IsClosed (obj r))"

lemma all_closed_add [simp]: "all_closed obj (M + N) \<longleftrightarrow> all_closed obj M \<and> all_closed obj N"
  by (auto simp: all_closed_def)

lemma all_closed_empty [simp]: "all_closed obj {#}"
  by (simp add: all_closed_def)

lemma all_closed_evolves:
  "evolves w w' \<Longrightarrow> all_closed (askObj w) M \<Longrightarrow> all_closed (askObj w') M"
  "evolves w w' \<Longrightarrow> all_closed (bidObj w) M \<Longrightarrow> all_closed (bidObj w') M"
  by (auto simp: evolves_def kin_def all_closed_def)

text \<open>What the processing of an incoming ask (bid) does to the book; \<open>D\<close> are the orders taken off.\<close>

definition ask_processed :: "ref \<Rightarrow> world \<Rightarrow> orderBook \<Rightarrow> world \<Rightarrow> orderBook \<Rightarrow> ref multiset \<Rightarrow> bool" where
  "ask_processed ar w ob w' ob' D \<longleftrightarrow>
     book_ok w' ob' \<and> evolves w w' \<and> own_prios ob w w' \<and> same_book ob ob' \<and> bid_refs ob = D + bid_refs ob' \<and>
     (ask_refs ob' = ask_refs ob \<or>
      ask_refs ob' = add_mset ar (ask_refs ob) \<and> \<not> ask_crosses w' ob' ar) \<and>
     (pq_refs (bidStoploss ob) = {#} \<longrightarrow>
        pq_refs (bidStoploss ob') = {#} \<and> all_closed (bidObj w') D)"

definition bid_processed :: "ref \<Rightarrow> world \<Rightarrow> orderBook \<Rightarrow> world \<Rightarrow> orderBook \<Rightarrow> ref multiset \<Rightarrow> bool" where
  "bid_processed br w ob w' ob' D \<longleftrightarrow>
     book_ok w' ob' \<and> evolves w w' \<and> own_prios ob w w' \<and> same_book ob ob' \<and> ask_refs ob = D + ask_refs ob' \<and>
     (bid_refs ob' = bid_refs ob \<or>
      bid_refs ob' = add_mset br (bid_refs ob) \<and> \<not> bid_crosses w' ob' br) \<and>
     (pq_refs (askStoploss ob) = {#} \<longrightarrow>
        pq_refs (askStoploss ob') = {#} \<and> all_closed (askObj w') D)"

lemma ask_processed_step:
  assumes "evolves w w2" "own_prios ob w w2" "same_book ob ob4" "ask_refs ob4 = ask_refs ob"
    "bid_refs ob = D + bid_refs ob4"
    "pq_refs (bidStoploss ob) = {#} \<longrightarrow>
       pq_refs (bidStoploss ob4) = {#} \<and> all_closed (bidObj w2) D"
    and "ask_processed ar w2 ob4 w' ob' D'"
  shows "ask_processed ar w ob w' ob' (D + D')"
  using assms evolves_trans [OF assms(1), of w'] same_book_trans [OF assms(3), of ob']
    own_prios_trans [OF assms(2), of ob4 w']
    all_closed_evolves(2) [of w2 w' D]
  by (auto simp: ask_processed_def)

lemma bid_processed_step:
  assumes "evolves w w2" "own_prios ob w w2" "same_book ob ob4" "bid_refs ob4 = bid_refs ob"
    "ask_refs ob = D + ask_refs ob4"
    "pq_refs (askStoploss ob) = {#} \<longrightarrow>
       pq_refs (askStoploss ob4) = {#} \<and> all_closed (askObj w2) D"
    and "bid_processed br w2 ob4 w' ob' D'"
  shows "bid_processed br w ob w' ob' (D + D')"
  using assms evolves_trans [OF assms(1), of w'] same_book_trans [OF assms(3), of ob']
    own_prios_trans [OF assms(2), of ob4 w']
    all_closed_evolves(1) [of w2 w' D]
  by (auto simp: bid_processed_def)

text \<open>No match: the incoming order is pushed.\<close>

lemma ask_rests:
  assumes ok: "book_ok w ob" and new: "ar \<notin># ask_refs ob" and st: "o_StockId (askObj w ar) = ob_stockId ob"
    and top: "getTopMatchingBid ar w ob = Some (None, same, ob1)"
  obtains q where "pq_Push (askObj w) ar (asks ob1) = Some q"
    "ask_processed ar w ob w (addAskToDepth (askObj w ar) (ob1\<lparr>asks := q\<rparr>)) {#}"
proof -
  have sb: "side_inv (bidObj w) bidComparator askComparator (bids ob) (bidStoploss ob)"
    and sa: "side_inv (askObj w) askComparator bidComparator (asks ob) (askStoploss ob)"
    using ok by (simp_all add: book_ok_def book_inv_def)
  then have qb: "queue_ok (bidObj w) bidComparator (bids ob)" by (simp add: side_inv_def)
  obtain q1 where q1: "ob1 = ob\<lparr>bids := q1\<rparr>" "queue_ok (bidObj w) bidComparator q1"
      "pq_refs (bids ob) = pq_refs q1"
      "\<And>b. b \<in># pq_refs q1 \<Longrightarrow> o_UserId (bidObj w b) \<noteq> o_UserId (askObj w ar) \<Longrightarrow>
         \<not> isOrderMatching (askObj w ar) (bidObj w b)"
    using getTopMatchingBid_ok [OF qb, of ar] unfolding top by (elim exE conjE) auto
  obtain q where q: "pq_Push (askObj w) ar (asks ob) = Some q"
      "pq_refs q = add_mset ar (pq_refs (asks ob))"
      "side_inv (askObj w) askComparator bidComparator q (askStoploss ob)"
    by (rule side_inv_rest [OF sa new])
  have sb1: "side_inv (bidObj w) bidComparator askComparator q1 (bidStoploss ob)"
    by (rule side_inv_set_aside(1) [OF sb q1(2), of "[]"]) (simp add: q1(3))
  let ?ob' = "addAskToDepth (askObj w ar) (ob1\<lparr>asks := q\<rparr>)"
  have f: "asks ?ob' = q" "bids ?ob' = q1" "askStoploss ?ob' = askStoploss ob"
    "bidStoploss ?ob' = bidStoploss ob" "same_book ob ?ob'" "ob_stockId ?ob' = ob_stockId ob"
    by (simp_all add: addAskToDepth_def q1(1) same_book_def)
  have "book_ok w ?ob'" using ok q sb1 st by (simp add: book_ok_def book_inv_def f)
  moreover have "\<not> ask_crosses w ?ob' ar" using q1(4) by (auto simp: ask_crosses_def f)
  ultimately have "ask_processed ar w ob w ?ob' {#}"
    unfolding ask_processed_def by (simp add: f q1(3) q(2))
  then show ?thesis using that q(1) q1(1) by simp
qed

lemma bid_rests:
  assumes ok: "book_ok w ob" and new: "br \<notin># bid_refs ob"
    and top: "getTopMatchingAsk br w ob = Some (None, same, ob1)"
  obtains q where "pq_Push (bidObj w) br (bids ob1) = Some q"
    "bid_processed br w ob w (addBidToDepth (bidObj w br) (ob1\<lparr>bids := q\<rparr>)) {#}"
proof -
  have sa: "side_inv (askObj w) askComparator bidComparator (asks ob) (askStoploss ob)"
    and sb: "side_inv (bidObj w) bidComparator askComparator (bids ob) (bidStoploss ob)"
    using ok by (simp_all add: book_ok_def book_inv_def)
  then have qa: "queue_ok (askObj w) askComparator (asks ob)" by (simp add: side_inv_def)
  obtain q1 where q1: "ob1 = ob\<lparr>asks := q1\<rparr>" "queue_ok (askObj w) askComparator q1"
      "pq_refs (asks ob) = pq_refs q1"
      "\<And>a. a \<in># pq_refs q1 \<Longrightarrow> o_UserId (askObj w a) \<noteq> o_UserId (bidObj w br) \<Longrightarrow>
         \<not> isOrderMatching (askObj w a) (bidObj w br)"
    using getTopMatchingAsk_ok [OF qa, of br] unfolding top by (elim exE conjE) auto
  obtain q where q: "pq_Push (bidObj w) br (bids ob) = Some q"
      "pq_refs q = add_mset br (pq_refs (bids ob))"
      "side_inv (bidObj w) bidComparator askComparator q (bidStoploss ob)"
    by (rule side_inv_rest [OF sb new])
  have sa1: "side_inv (askObj w) askComparator bidComparator q1 (askStoploss ob)"
    by (rule side_inv_set_aside(1) [OF sa q1(2), of "[]"]) (simp add: q1(3))
  let ?ob' = "addBidToDepth (bidObj w br) (ob1\<lparr>bids := q\<rparr>)"
  have f: "bids ?ob' = q" "asks ?ob' = q1" "bidStoploss ?ob' = bidStoploss ob"
    "askStoploss ?ob' = askStoploss ob" "same_book ob ?ob'" "ob_stockId ?ob' = ob_stockId ob"
    by (simp_all add: addBidToDepth_def q1(1) same_book_def)
  have "book_ok w ?ob'" using ok q sa1 by (simp add: book_ok_def book_inv_def f q1(3))
  moreover have "\<not> bid_crosses w ?ob' br" using q1(4) by (auto simp: bid_crosses_def f)
  ultimately have "bid_processed br w ob w ?ob' {#}"
    unfolding bid_processed_def by (simp add: f q1(3) q(2))
  then show ?thesis using that q(1) q1(1) by simp
qed

text \<open>The search for a match always returns one of the two shapes the rounds start from.\<close>

lemma getTopMatchingBid_cases:
  assumes "book_ok w ob"
  obtains (Match) br same q where "getTopMatchingBid ar w ob = Some (Some br, same, ob\<lparr>bids := q\<rparr>)"
  | (NoMatch) same ob1 where "getTopMatchingBid ar w ob = Some (None, same, ob1)"
proof -
  have "queue_ok (bidObj w) bidComparator (bids ob)"
    using assms by (simp add: book_ok_def book_inv_def side_inv_def)
  from getTopMatchingBid_ok [OF this, of ar] obtain top same q where
    "getTopMatchingBid ar w ob = Some (top, same, ob\<lparr>bids := q\<rparr>)" by blast
  then show ?thesis using that by (cases top) auto
qed

lemma getTopMatchingAsk_cases:
  assumes "book_ok w ob"
  obtains (Match) ar same q where "getTopMatchingAsk br w ob = Some (Some ar, same, ob\<lparr>asks := q\<rparr>)"
  | (NoMatch) same ob1 where "getTopMatchingAsk br w ob = Some (None, same, ob1)"
proof -
  have "queue_ok (askObj w) askComparator (asks ob)"
    using assms by (simp add: book_ok_def book_inv_def side_inv_def)
  from getTopMatchingAsk_ok [OF this, of br] obtain top same q where
    "getTopMatchingAsk br w ob = Some (top, same, ob\<lparr>asks := q\<rparr>)" by blast
  then show ?thesis using that by (cases top) auto
qed

context fill_order
begin

lemma processAsk_loop_ok:
  "book_ok w ob \<Longrightarrow> ar \<notin># ask_refs ob \<Longrightarrow> o_StockId (askObj w ar) = ob_stockId ob \<Longrightarrow>
   \<exists>ob' w' D. processAsk_loop fill ar False ob w = Some (ob', w') \<and> ask_processed ar w ob w' ob' D"
proof (induction "size (bid_refs ob)" arbitrary: ob w rule: less_induct)
  case less
  show ?case
  proof (cases rule: getTopMatchingBid_cases [OF less.prems(1), of ar])
    case (2 same ob1)
    obtain q where q: "pq_Push (askObj w) ar (asks ob1) = Some q"
      "ask_processed ar w ob w (addAskToDepth (askObj w ar) (ob1\<lparr>asks := q\<rparr>)) {#}"
      by (rule ask_rests [OF less.prems 2])
    then show ?thesis using 2 by (subst processAsk_loop.simps) auto
  next
    case (1 br same q)
    obtain ad bd ob2 ob3 ob4 w2 D where r:
      "makeTrade fill ar br True False (ob\<lparr>bids := q\<rparr>) w = Some ((ad, bd), ob2, w2)"
      "(if bd then map_option snd (popBids w2 ob2) else Some ob2) = Some ob3"
      "addBackBids same w2 ob3 = Some ob4" "book_ok w2 ob4" "same_book ob ob4" "evolves w w2" "own_prios ob w w2"
      "ask_refs ob4 = ask_refs ob" "bid_refs ob = D + bid_refs ob4" "bd \<longrightarrow> D \<noteq> {#}"
      "ad \<longrightarrow> o_IsClosed (askObj w2 ar)"
      "pq_refs (bidStoploss ob) = {#} \<longrightarrow>
         pq_refs (bidStoploss ob4) = {#} \<and> (\<forall>b \<in># D. o_IsClosed (bidObj w2 b))"
      by (rule ask_round [OF less.prems(1,3) 1])
    note step = ask_processed_step [OF r(6,7,5,8,9) r(12) [folded all_closed_def]]
    have unf: "processAsk_loop fill ar False ob w =
        (if \<not> ad \<and> \<not> bd then Some (ob4, w2) else if ad then Some (ob4, w2)
         else processAsk_loop fill ar ad ob4 w2)"
      using 1 r(1-3) by (subst processAsk_loop.simps) (cases ad; cases bd; auto simp: Let_def)
    show ?thesis
    proof (cases "\<not> ad \<and> bd")
      case False
      have "ask_processed ar w2 ob4 w2 ob4 {#}" using r(4) by (simp add: ask_processed_def)
      from step [OF this] show ?thesis using unf False by (cases ad; cases bd; auto)
    next
      case True
      have "o_StockId (askObj w2 ar) = ob_stockId ob4"
        using r(5,6) less.prems(3) by (simp add: evolves_def kin_def same_book_def)
      then have "\<exists>ob' w' D'. processAsk_loop fill ar False ob4 w2 = Some (ob', w') \<and>
          ask_processed ar w2 ob4 w' ob' D'"
        using less.hyps [of ob4 w2] r(4,8,9,10) less.prems(2) True by (simp add: nonempty_has_size)
      then show ?thesis using step unf True by fastforce
    qed
  qed
qed

lemma processBid_loop_ok:
  "book_ok w ob \<Longrightarrow> br \<notin># bid_refs ob \<Longrightarrow>
   \<exists>ob' w' D. processBid_loop fill br False ob w = Some (ob', w') \<and> bid_processed br w ob w' ob' D"
proof (induction "size (ask_refs ob)" arbitrary: ob w rule: less_induct)
  case less
  show ?case
  proof (cases rule: getTopMatchingAsk_cases [OF less.prems(1), of br])
    case (2 same ob1)
    obtain q where q: "pq_Push (bidObj w) br (bids ob1) = Some q"
      "bid_processed br w ob w (addBidToDepth (bidObj w br) (ob1\<lparr>bids := q\<rparr>)) {#}"
      by (rule bid_rests [OF less.prems 2])
    then show ?thesis using 2 by (subst processBid_loop.simps) auto
  next
    case (1 ar same q)
    obtain ad bd ob2 ob3 ob4 w2 D where r:
      "makeTrade fill ar br False True (ob\<lparr>asks := q\<rparr>) w = Some ((ad, bd), ob2, w2)"
      "(if ad then map_option snd (popAsks w2 ob2) else Some ob2) = Some ob3"
      "addBackAsks same w2 ob3 = Some ob4" "book_ok w2 ob4" "same_book ob ob4" "evolves w w2" "own_prios ob w w2"
      "bid_refs ob4 = bid_refs ob" "ask_refs ob = D + ask_refs ob4" "ad \<longrightarrow> D \<noteq> {#}"
      "bd \<longrightarrow> o_IsClosed (bidObj w2 br)"
      "pq_refs (askStoploss ob) = {#} \<longrightarrow>
         pq_refs (askStoploss ob4) = {#} \<and> (\<forall>a \<in># D. o_IsClosed (askObj w2 a))"
      by (rule bid_round [OF less.prems(1) 1])
    note step = bid_processed_step [OF r(6,7,5,8,9) r(12) [folded all_closed_def]]
    have unf: "processBid_loop fill br False ob w =
        (if \<not> ad \<and> \<not> bd then Some (ob4, w2) else if bd then Some (ob4, w2)
         else processBid_loop fill br bd ob4 w2)"
      using 1 r(1-3) by (subst processBid_loop.simps) (cases ad; cases bd; auto simp: Let_def)
    show ?thesis
    proof (cases "\<not> bd \<and> ad")
      case False
      have "bid_processed br w2 ob4 w2 ob4 {#}" using r(4) by (simp add: bid_processed_def)
      from step [OF this] show ?thesis using unf False by (cases ad; cases bd; auto)
    next
      case True
      then have "\<exists>ob' w' D'. processBid_loop fill br False ob4 w2 = Some (ob', w') \<and>
          bid_processed br w2 ob4 w' ob' D'"
        using less.hyps [of ob4 w2] r(4,8,9,10) less.prems(2) by (simp add: nonempty_has_size)
      then show ?thesis using step unf True by fastforce
    qed
  qed
qed

lemma processAsk_ok:
  "book_ok w ob \<Longrightarrow> ar \<notin># ask_refs ob \<Longrightarrow> o_StockId (askObj w ar) = ob_stockId ob \<Longrightarrow>
   \<exists>ob' w' D. processAsk fill ar ob w = Some (ob', w') \<and> ask_processed ar w ob w' ob' D"
  unfolding processAsk_def by (rule processAsk_loop_ok)

lemma processBid_ok:
  "book_ok w ob \<Longrightarrow> br \<notin># bid_refs ob \<Longrightarrow>
   \<exists>ob' w' D. processBid fill br ob w = Some (ob', w') \<and> bid_processed br w ob w' ob' D"
  unfolding processBid_def by (rule processBid_loop_ok)

end

end
