(* ===== verification/Startup.thy ===== *)
theory Startup
  imports Process_Orders
begin

text \<open>
  The matching a book does when the server starts: \<^verbatim>\<open>clearExistingOrders\<close>. It ends, whatever
  calls of the function that fills orders succeed, because every round takes an order off the
  book, and the book it leaves is well formed.
\<close>

definition cleared :: "ref multiset \<Rightarrow> world \<Rightarrow> orderBook \<Rightarrow> world \<Rightarrow> orderBook \<Rightarrow> bool" where
  "cleared R w ob w' ob' \<longleftrightarrow>
     book_ok w' ob' \<and> evolves w w' \<and> own_prios ob w w' \<and> same_book ob ob' \<and>
     ask_refs ob' \<subseteq># ask_refs ob \<and> bid_refs ob' \<subseteq># R + bid_refs ob"

lemma cleared_refl: "book_ok w ob \<Longrightarrow> cleared R w ob w ob"
  by (simp add: cleared_def)

lemma cleared_trans:
  assumes "evolves w w1" "own_prios ob w w1" "same_book ob ob1"
    and "ask_refs ob1 \<subseteq># ask_refs ob" "bid_refs ob1 \<subseteq># bid_refs ob" "R1 + bid_refs ob1 \<subseteq># R + bid_refs ob"
    and "cleared R1 w1 ob1 w' ob'"
  shows "cleared R w ob w' ob'"
  using assms own_prios_trans [OF assms(2), of ob1 w'] evolves_trans [OF assms(1), of w']
    same_book_trans [OF assms(3), of ob']
  by (auto simp: cleared_def intro: subset_mset.order_trans)

text \<open>The head of the bids, if there is one, is taken off.\<close>

lemma popBids_cases:
  assumes ok: "book_ok w ob"
  obtains (Empty) "popBids w ob = Some (None, ob)"
  | (Bid) br q where "popBids w ob = Some (Some br, ob\<lparr>bids := q\<rparr>)" "book_ok w (ob\<lparr>bids := q\<rparr>)"
      "pq_refs (bids ob) = add_mset br (pq_refs q)" "br \<notin># bid_refs (ob\<lparr>bids := q\<rparr>)"
proof -
  have sb: "side_inv (bidObj w) bidComparator askComparator (bids ob) (bidStoploss ob)"
    using ok by (simp add: book_ok_def book_inv_def)
  then have "queue_ok (bidObj w) bidComparator (bids ob)" by (simp add: side_inv_def)
  then show ?thesis
  proof (cases rule: queue_head_cases)
    case Empty
    then show ?thesis using that(1) by (simp add: popBids_def)
  next
    case (Head br q)
    have "uniq (add_mset br (pq_refs q + pq_refs (bidStoploss ob)))" using sb Head(4) by (simp add: side_inv_def)
    then have u: "uniq (pq_refs q + pq_refs (bidStoploss ob))" "br \<notin># pq_refs q + pq_refs (bidStoploss ob)"
      by (simp_all add: uniq_add_mset)
    then have "book_ok w (ob\<lparr>bids := q\<rparr>)"
      using ok Head(3) sb by (simp add: book_ok_def book_inv_def side_inv_def)
    then show ?thesis using that(2) [of br q] Head u(2) by (simp add: popBids_def)
  qed
qed

lemma popAsks_Some:
  assumes ok: "book_ok w ob" and ne: "pq_refs (asks ob) \<noteq> {#}"
  obtains a q where "popAsks w ob = Some (Some a, ob\<lparr>asks := q\<rparr>)" "book_ok w (ob\<lparr>asks := q\<rparr>)"
    "pq_refs (asks ob) = add_mset a (pq_refs q)"
proof -
  have sa: "side_inv (askObj w) askComparator bidComparator (asks ob) (askStoploss ob)"
    using ok by (simp add: book_ok_def book_inv_def)
  then have "queue_ok (askObj w) askComparator (asks ob)" by (simp add: side_inv_def)
  then show ?thesis
  proof (cases rule: queue_head_cases)
    case (Head a q)
    have "uniq (add_mset a (pq_refs q + pq_refs (askStoploss ob)))" using sa Head(4) by (simp add: side_inv_def)
    then have "uniq (pq_refs q + pq_refs (askStoploss ob))" by (simp add: uniq_add_mset)
    then have "book_ok w (ob\<lparr>asks := q\<rparr>)"
      using ok Head(3,4) sa by (auto simp: book_ok_def book_inv_def side_inv_def)
    then show ?thesis using that [of a q] Head by (simp add: popAsks_def)
  qed (use ne in simp)
qed

context fill_order
begin

text \<open>One round: the trade, and the user's own asks put back.\<close>

lemma clear_round:
  assumes ok: "book_ok w ob"
    and top: "getTopMatchingAsk br w ob = Some (Some ar, same, ob\<lparr>asks := q\<rparr>)"
  obtains ad bd ob2 ob3 w2 where
    "makeTrade fill ar br False False (ob\<lparr>asks := q\<rparr>) w = Some ((ad, bd), ob2, w2)"
    "addBackAsks same w2 ob2 = Some ob3" "book_ok w2 ob3" "same_book ob ob3" "evolves w w2" "own_prios ob w w2"
    "bid_refs ob3 = bid_refs ob" "ask_refs ob3 = ask_refs ob" "pq_refs (asks ob3) \<noteq> {#}"
proof -
  have sa: "side_inv (askObj w) askComparator bidComparator (asks ob) (askStoploss ob)"
    and inv: "book_inv w ob" using ok by (simp_all add: book_ok_def book_inv_def)
  then have qa: "queue_ok (askObj w) askComparator (asks ob)" by (simp add: side_inv_def)
  have t: "queue_ok (askObj w) askComparator q" "pq_refs (asks ob) = pq_refs q + mset same"
      "pq_Head q = Some (Some ar)" "o_UserId (askObj w ar) \<noteq> o_UserId (bidObj w br)"
    using getTopMatchingAsk_Some [OF qa top] by simp_all
  let ?ob1 = "ob\<lparr>asks := q\<rparr>"
  have s1: "side_inv (askObj w) askComparator bidComparator q (askStoploss ob)"
    and u1: "uniq (pq_refs q + mset same + pq_refs (askStoploss ob))"
    using side_inv_set_aside [OF sa t(1,2)] by auto
  have inv1: "book_inv w ?ob1" using inv s1 by (simp add: book_inv_def)
  have fb: "fillable w ar br" using ok queue_head_max(1) [OF t(1,3)] t(2,4) by (auto simp: fillable_def book_ok_def)
  obtain ad bd ob2 w2 where m: "makeTrade fill ar br False False ?ob1 w = Some ((ad, bd), ob2, w2)"
      "book_inv w2 ob2" "book_moves ?ob1 ob2" "evolves w w2" "own_prios ?ob1 w w2"
    by (rule makeTrade_ok [OF inv1 fb, of False False])
  have op: "own_prios ob w w2" by (rule own_prios_mono [OF m(5)]) (simp_all add: t(2))
  have mv: "same_book ob ob2" "bid_refs ob2 = bid_refs ob"
      "ask_refs ob2 = pq_refs q + pq_refs (askStoploss ob)" "pq_refs q \<subseteq># pq_refs (asks ob2)"
    using m(3) by (auto simp: book_moves_def same_book_def)
  have s2: "side_inv (askObj w2) askComparator bidComparator (asks ob2) (askStoploss ob2)"
    using m(2) by (simp add: book_inv_def)
  have eq2: "pq_refs (asks ob2) + mset same + pq_refs (askStoploss ob2) = ask_refs ob"
    using mv(3) t(2) by (simp add: ac_simps)
  then have u2: "uniq (pq_refs (asks ob2) + mset same + pq_refs (askStoploss ob2))"
    using u1 t(2) by (simp add: ac_simps)
  obtain D q1 q2 where p: "D = {#} \<and> q1 = asks ob2" "push_all (pq_Push (askObj w2)) same q1 = Some q2"
      "side_inv (askObj w2) askComparator bidComparator q2 (askStoploss ob2)"
      "pq_refs (asks ob2) + mset same = D + pq_refs q2"
    by (rule side_pop_back [OF s2 u2, of False]) auto
  let ?ob3 = "ob2\<lparr>asks := q2\<rparr>"
  have put: "addBackAsks same w2 ob2 = Some ?ob3" using p(1,2) by (simp add: addBackAsks_def)
  have inv3: "book_inv w2 ?ob3" using m(2) p(3) by (simp add: book_inv_def)
  have refs: "ask_refs ?ob3 = ask_refs ob" using eq2 p(1,4) by simp
  have sbk: "same_book ob ?ob3" using mv(1) by (simp add: same_book_def)
  have ok3: "book_ok w2 ?ob3" by (rule book_ok_moves [OF ok inv3 _ m(4) sbk]) (simp only: refs subset_mset.order_refl)
  have "ar \<in># pq_refs q" by (rule queue_head_max(1) [OF t(1,3)])
  then have "ar \<in># pq_refs (asks ob2)" using mv(4) mset_subset_eqD by metis
  then have "pq_refs q2 \<noteq> {#}" using p(1,4) by auto
  then show ?thesis using that [OF m(1) put ok3 sbk m(4) op] mv(2) refs by simp
qed

text \<open>The search for the ask that goes with a bid, and the loop from there on.\<close>

abbreviation clear_from :: "ref \<Rightarrow> orderBook \<Rightarrow> world \<Rightarrow> (orderBook \<times> world) option" where
  "clear_from br ob w \<equiv>
     getTopMatchingAsk br w ob \<bind> (\<lambda>g. clear_loop fill (Some br) (fst g) (fst (snd g)) (snd (snd g)) w)"

text \<open>What a round leaves to do, after the trade.\<close>

lemma clear_next:
  assumes ok: "book_ok w ob" and ne: "pq_refs (asks ob) \<noteq> {#}" and new: "br \<notin># bid_refs ob" and d: "ad \<or> bd"
    and rec: "\<And>br' ob'. size (ask_refs ob') + size (bid_refs ob') < size (ask_refs ob) + size (bid_refs ob) \<Longrightarrow>
      book_ok w ob' \<Longrightarrow> br' \<notin># bid_refs ob' \<Longrightarrow> \<exists>ob2 w2. clear_from br' ob' w = Some (ob2, w2) \<and> cleared {#br'#} w ob' w2 ob2"
  shows "\<exists>ob4 y ob2 w2. (if ad then map_option snd (popAsks w ob) else Some ob) = Some ob4 \<and>
    (if bd then popBids w ob4 else Some (Some br, ob4)) = Some y \<and>
    (case fst y of None \<Rightarrow> clear_loop fill None askTop same (snd y) w | Some br' \<Rightarrow> clear_from br' (snd y) w) = Some (ob2, w2) \<and>
    cleared {#br#} w ob w2 ob2"
proof -
  obtain ob4 where a: "(if ad then map_option snd (popAsks w ob) else Some ob) = Some ob4" "book_ok w ob4"
    "ask_refs ob4 \<subseteq># ask_refs ob" "bid_refs ob4 = bid_refs ob" "same_book ob ob4"
    "if ad then size (ask_refs ob4) < size (ask_refs ob) else ask_refs ob4 = ask_refs ob"
  proof (cases ad)
    case True
    obtain a q where p: "popAsks w ob = Some (Some a, ob\<lparr>asks := q\<rparr>)" "book_ok w (ob\<lparr>asks := q\<rparr>)"
      "pq_refs (asks ob) = add_mset a (pq_refs q)" by (rule popAsks_Some [OF ok ne])
    show ?thesis by (rule that [of "ob\<lparr>asks := q\<rparr>"]) (simp_all add: True p same_book_def)
  next
    case False
    show ?thesis by (rule that [of ob]) (simp_all add: False ok)
  qed
  have le: "size (ask_refs ob4) \<le> size (ask_refs ob)" using a(3) by (rule size_mset_mono)
  show ?thesis
  proof (cases bd)
    case False
    then have "size (ask_refs ob4) + size (bid_refs ob4) < size (ask_refs ob) + size (bid_refs ob)" using d a(4,6) by simp
    moreover have "br \<notin># bid_refs ob4" using new a(4) by metis
    ultimately obtain ob2 w2 where r: "clear_from br ob4 w = Some (ob2, w2)" "cleared {#br#} w ob4 w2 ob2"
      using rec [OF _ a(2)] by blast
    have "cleared {#br#} w ob w2 ob2" by (rule cleared_trans [OF _ _ a(5) a(3) _ _ r(2)]) (simp_all add: a(4))
    then show ?thesis using False a(1) r(1) by simp
  next
    case True
    show ?thesis using a(2)
    proof (cases rule: popBids_cases)
      case Empty
      have "cleared {#br#} w ob w ob4" using a(2-5) by (simp add: cleared_def)
      moreover have "clear_loop fill None askTop same ob4 w = Some (ob4, w)" by (simp add: clear_loop.simps)
      ultimately show ?thesis using True a(1) Empty by simp
    next
      case (Bid br' q)
      let ?ob' = "ob4\<lparr>bids := q\<rparr>"
      have s: "size (ask_refs ?ob') + size (bid_refs ?ob') < size (ask_refs ob) + size (bid_refs ob)"
        using le arg_cong [OF a(4), of size] Bid(3) by simp
      from rec [OF s Bid(2,4)] obtain ob2 w2 where
        r: "clear_from br' ?ob' w = Some (ob2, w2)" "cleared {#br'#} w ?ob' w2 ob2" by blast
      have sub: "bid_refs ?ob' \<subseteq># bid_refs ob" "{#br'#} + bid_refs ?ob' = bid_refs ob" using a(4) [symmetric] Bid(3) by simp_all
      have "cleared {#br#} w ob w2 ob2"
        by (rule cleared_trans [OF _ _ _ _ sub(1) _ r(2)]) (use a(3,5) sub(2) in \<open>simp_all add: same_book_def\<close>)
      then show ?thesis using True a(1) Bid(1) r(1) by simp
    qed
  qed
qed

lemma clear_from_ok:
  "book_ok w ob \<Longrightarrow> br \<notin># bid_refs ob \<Longrightarrow>
   \<exists>ob' w'. clear_from br ob w = Some (ob', w') \<and> cleared {#br#} w ob w' ob'"
proof (induction "size (ask_refs ob) + size (bid_refs ob)" arbitrary: br ob w rule: less_induct)
  case less
  show ?case
  proof (cases rule: getTopMatchingAsk_cases [OF less.prems(1), of br])
    case (2 same ob1)
    obtain q where q: "pq_Push (bidObj w) br (bids ob1) = Some q"
      "bid_processed br w ob w (addBidToDepth (bidObj w br) (ob1\<lparr>bids := q\<rparr>)) {#}"
      by (rule bid_rests [OF less.prems 2])
    then have "cleared {#br#} w ob w (ob1\<lparr>bids := q\<rparr>)"
      by (auto simp: bid_processed_def cleared_def addBidToDepth_def same_book_def book_ok_def book_inv_def)
    then show ?thesis using 2 q(1) by (simp add: clear_loop.simps)
  next
    case (1 ar same q)
    obtain ad bd ob2 ob3 w2 where r:
      "makeTrade fill ar br False False (ob\<lparr>asks := q\<rparr>) w = Some ((ad, bd), ob2, w2)"
      "addBackAsks same w2 ob2 = Some ob3" "book_ok w2 ob3" "same_book ob ob3" "evolves w w2" "own_prios ob w w2"
      "bid_refs ob3 = bid_refs ob" "ask_refs ob3 = ask_refs ob" "pq_refs (asks ob3) \<noteq> {#}"
      by (rule clear_round [OF less.prems(1) 1])
    show ?thesis
    proof (cases "ad \<or> bd")
      case False
      then have "clear_from br ob w = Some (ob3, w2)" using 1 r(1,2) by (subst clear_loop.simps) simp
      then show ?thesis using r(3-8) by (simp add: cleared_def)
    next
      case True
      have new: "br \<notin># bid_refs ob3" using less.prems(2) r(7) by simp
      have rec: "\<exists>ob2 w3. clear_from br' ob' w2 = Some (ob2, w3) \<and> cleared {#br'#} w2 ob' w3 ob2"
        if "size (ask_refs ob') + size (bid_refs ob') < size (ask_refs ob3) + size (bid_refs ob3)"
          "book_ok w2 ob'" "br' \<notin># bid_refs ob'" for br' ob'
        by (rule less.hyps) (use that r(7,8) in simp_all)
      from clear_next [OF r(3,9) new True rec, of "Some ar" same] obtain ob4 y ob5 w3 where n:
        "(if ad then map_option snd (popAsks w2 ob3) else Some ob3) = Some ob4"
        "(if bd then popBids w2 ob4 else Some (Some br, ob4)) = Some y"
        "(case fst y of None \<Rightarrow> clear_loop fill None (Some ar) same (snd y) w2 | Some br' \<Rightarrow> clear_from br' (snd y) w2) = Some (ob5, w3)"
        "cleared {#br#} w2 ob3 w3 ob5" by blast
      have nn: "(\<not> ad \<and> \<not> bd) = False" using True by blast
      have "clear_from br ob w = Some (ob5, w3)"
        by (subst clear_loop.simps) (simp only: bind.simps fst_conv snd_conv option.case Let_def prod.case if_False nn 1 r(1,2) n(1,2) n(3) [unfolded fst_conv])
      moreover have "cleared {#br#} w ob w3 ob5"
        by (rule cleared_trans [OF r(5,6,4) _ _ _ n(4)]) (simp_all add: r(7,8))
      ultimately show ?thesis by blast
    qed
  qed
qed

lemma clearExistingOrders_ok:
  assumes ok: "book_ok w ob"
  obtains ob' w' where "clearExistingOrders fill ob w = Some (ob', w')" "cleared {#} w ob w' ob'"
proof -
  have "queue_ok (bidObj w) bidComparator (bids ob)" using ok by (simp add: book_ok_def book_inv_def side_inv_def)
  then show ?thesis
  proof (cases rule: queue_head_cases)
    case Empty
    then show ?thesis using that [OF _ cleared_refl [OF ok]] by (simp add: clearExistingOrders_def)
  next
    case (Head r q')
    have h: "pq_Head (bids ob) = Some (Some r)" "popBids w ob = Some (Some r, ob\<lparr>bids := q'\<rparr>)"
      using Head by (simp_all add: popBids_def)
    from ok have ok1: "book_ok w (ob\<lparr>bids := q'\<rparr>)" and new: "r \<notin># bid_refs (ob\<lparr>bids := q'\<rparr>)"
      by (cases rule: popBids_cases; use h(2) in auto)+
    from clear_from_ok [OF this] obtain ob' w' where
      c: "clear_from r (ob\<lparr>bids := q'\<rparr>) w = Some (ob', w')" "cleared {#r#} w (ob\<lparr>bids := q'\<rparr>) w' ob'" by blast
    have "clearExistingOrders fill ob w = Some (ob', w')"
      using h c(1) by (simp add: clearExistingOrders_def)
    moreover have "cleared {#} w ob w' ob'"
      by (rule cleared_trans [OF _ _ _ _ _ _ c(2)]) (simp_all add: same_book_def Head(4))
    ultimately show ?thesis using that by blast
  qed
qed

end

end
