(* ===== verification/Fill_Proofs.thy ===== *)
theory Fill_Proofs
  imports Order_Fill Startup Cancel_Proofs
begin

text \<open>
  What \<^verbatim>\<open>PerformOrderFillTransaction\<close> does: it always returns for orders of different users of
  a known stock, a failing database leaves memory and tables as they were, and a trade moves
  exactly the traded cash and quantities. It satisfies the contract \<open>fill_order\<close>, so the facts
  about the matching loops hold for the program's own function.
\<close>

section \<open>Restoring memory\<close>

text \<open>The state \<open>w\<close> differs from \<open>w0\<close> in the fields the fill changes only.\<close>

definition fill_touched :: "ref \<Rightarrow> ref \<Rightarrow> world \<Rightarrow> world \<Rightarrow> bool" where
  "fill_touched ar br w0 w \<longleftrightarrow>
     (let au = o_UserId (askObj w0 ar); bu = o_UserId (bidObj w0 br) in
      (\<exists>c. users w au = Some ((usr w0 au)\<lparr>u_Cash := c\<rparr>)) \<and>
      (\<exists>c r. users w bu = Some ((usr w0 bu)\<lparr>u_Cash := c, u_ReservedCash := r\<rparr>)) \<and>
      (\<forall>j. j \<noteq> au \<and> j \<noteq> bu \<longrightarrow> users w j = users w0 j) \<and>
      (\<exists>f k. askObj w = (askObj w0)(ar := (askObj w0 ar)\<lparr>o_StockQuantityFulfilled := f, o_IsClosed := k\<rparr>)) \<and>
      (\<exists>f k t. bidObj w = (bidObj w0)(br := (bidObj w0 br)\<lparr>o_StockQuantityFulfilled := f, o_IsClosed := k,
                 o_UpdatedAt := t\<rparr>)) \<and>
      allStocks w = allStocks w0)"

definition both_users :: "ref \<Rightarrow> ref \<Rightarrow> world \<Rightarrow> bool" where
  "both_users ar br w \<longleftrightarrow> o_UserId (askObj w ar) \<noteq> o_UserId (bidObj w br) \<and>
     users w (o_UserId (askObj w ar)) \<noteq> None \<and> users w (o_UserId (bidObj w br)) \<noteq> None"

text \<open>Memory is as it was, but for the time stamp of the bid.\<close>

definition restored :: "ref \<Rightarrow> world \<Rightarrow> world \<Rightarrow> bool" where
  "restored br w0 w \<longleftrightarrow> users w = users w0 \<and> askObj w = askObj w0 \<and> allStocks w = allStocks w0 \<and>
     (\<exists>t. bidObj w = (bidObj w0)(br := (bidObj w0 br)\<lparr>o_UpdatedAt := t\<rparr>))"

lemma restored_refl: "users w = users w0 \<Longrightarrow> askObj w = askObj w0 \<Longrightarrow> allStocks w = allStocks w0 \<Longrightarrow>
  bidObj w = bidObj w0 \<Longrightarrow> restored br w0 w"
  unfolding restored_def by (auto intro: exI [of _ "o_UpdatedAt (bidObj w0 br)"])

lemma fill_revert_users:
  assumes "fill_touched ar br w0 w" "both_users ar br w0"
  shows "users (fill_revert ar br w0 w) = users w0"
proof
  fix j
  let ?au = "o_UserId (askObj w0 ar)" and ?bu = "o_UserId (bidObj w0 br)"
  obtain a b where u: "users w0 ?au = Some a" "users w0 ?bu = Some b" and ne: "?au \<noteq> ?bu"
    using assms(2) by (auto simp: both_users_def)
  obtain c where ca: "users w ?au = Some (a\<lparr>u_Cash := c\<rparr>)"
    using assms(1) u by (auto simp: fill_touched_def Let_def)
  obtain c' r where cb: "users w ?bu = Some (b\<lparr>u_Cash := c', u_ReservedCash := r\<rparr>)"
    using assms(1) u by (auto simp: fill_touched_def Let_def)
  have o: "j \<noteq> ?au \<Longrightarrow> j \<noteq> ?bu \<Longrightarrow> users w j = users w0 j"
    using assms(1) by (simp add: fill_touched_def Let_def)
  consider "j = ?bu" | "j = ?au" | "j \<noteq> ?au" "j \<noteq> ?bu" by blast
  then show "users (fill_revert ar br w0 w) j = users w0 j"
    by cases (use ne u ca cb o in \<open>simp_all add: fill_revert_def Let_def ledger_simps\<close>)
qed

lemma fill_revert_restored:
  assumes "fill_touched ar br w0 w" "both_users ar br w0"
  shows "restored br w0 (fill_revert ar br w0 w)"
proof -
  obtain f k where a: "askObj w = (askObj w0)(ar := (askObj w0 ar)\<lparr>o_StockQuantityFulfilled := f, o_IsClosed := k\<rparr>)"
    using assms(1) by (auto simp: fill_touched_def Let_def)
  obtain f' k' t where b: "bidObj w = (bidObj w0)(br := (bidObj w0 br)\<lparr>o_StockQuantityFulfilled := f', o_IsClosed := k',
                 o_UpdatedAt := t\<rparr>)" using assms(1) by (auto simp: fill_touched_def Let_def)
  have s: "allStocks w = allStocks w0" using assms(1) by (simp add: fill_touched_def Let_def)
  show ?thesis unfolding restored_def
    using fill_revert_users [OF assms] s
    by (intro conjI exI [of _ t])
      (simp_all add: fill_revert_def Let_def ledger_simps a b revert_order_def fun_eq_iff)
qed

lemma fill_revert_db [simp]: "db (fill_revert ar br w0 w) = db w"
  by (simp add: fill_revert_def Let_def ledger_simps)

lemma fill_touchedI:
  assumes "users w (o_UserId (askObj w0 ar)) = Some ((usr w0 (o_UserId (askObj w0 ar)))\<lparr>u_Cash := c\<rparr>)"
    and "users w (o_UserId (bidObj w0 br)) =
      Some ((usr w0 (o_UserId (bidObj w0 br)))\<lparr>u_Cash := c', u_ReservedCash := rc\<rparr>)"
    and "\<And>j. j \<noteq> o_UserId (askObj w0 ar) \<Longrightarrow> j \<noteq> o_UserId (bidObj w0 br) \<Longrightarrow> users w j = users w0 j"
    and "askObj w = (askObj w0)(ar := (askObj w0 ar)\<lparr>o_StockQuantityFulfilled := f, o_IsClosed := k\<rparr>)"
    and "bidObj w = (bidObj w0)(br := (bidObj w0 br)\<lparr>o_StockQuantityFulfilled := f', o_IsClosed := k',
                 o_UpdatedAt := t\<rparr>)"
    and "allStocks w = allStocks w0"
  shows "fill_touched ar br w0 w"
  unfolding fill_touched_def Let_def using assms by blast

lemma fill_touched_same:
  assumes "both_users ar br w0" "users w = users w0" "askObj w = askObj w0" "allStocks w = allStocks w0"
    and "bidObj w = (bidObj w0)(br := (bidObj w0 br)\<lparr>o_IsClosed := k, o_UpdatedAt := t\<rparr>)"
  shows "fill_touched ar br w0 w"
proof (rule fill_touchedI [where c = "u_Cash (usr w0 (o_UserId (askObj w0 ar)))"
      and c' = "u_Cash (usr w0 (o_UserId (bidObj w0 br)))" and rc = "u_ReservedCash (usr w0 (o_UserId (bidObj w0 br)))"
      and f = "o_StockQuantityFulfilled (askObj w0 ar)" and k = "o_IsClosed (askObj w0 ar)"
      and f' = "o_StockQuantityFulfilled (bidObj w0 br)" and k' = k and t = t])
qed (use assms in \<open>auto simp: both_users_def\<close>)

text \<open>The updates of the fill, and the taxes taken while it writes, touch these fields only.\<close>

lemma fill_update_touched:
  assumes "both_users ar br w0"
  shows "fill_touched ar br w0 (fill_update ar br price qty reserved w0)"
proof -
  let ?au = "o_UserId (askObj w0 ar)" and ?bu = "o_UserId (bidObj w0 br)"
  have ne: "?au \<noteq> ?bu" using assms by (simp add: both_users_def)
  show ?thesis
  proof (rule fill_touchedI [where c = "u_Cash (usr w0 ?au) + qty * price"
      and c' = "cash_left price qty reserved (usr w0 ?bu)"
      and rc = "u64_of_f (max 0 (f_of_i64 (u_ReservedCash (usr w0 ?bu) - reserved)))"
      and f = "o_StockQuantityFulfilled (askObj w0 ar) + qty"
      and k = "o_StockQuantity (askObj w0 ar) = o_StockQuantityFulfilled (askObj w0 ar) + qty"
      and f' = "o_StockQuantityFulfilled (bidObj w0 br) + qty"
      and k' = "o_StockQuantity (bidObj w0 br) = o_StockQuantityFulfilled (bidObj w0 br) + qty"
      and t = "o_UpdatedAt (bidObj w0 br)"])
  qed (use ne in \<open>simp_all add: fill_update_def Let_def ledger_simps fill_asking_user_def
      fill_bidding_user_def fill_one_def\<close>)
qed

lemma fill_touched_cash:
  assumes t: "fill_touched ar br w0 w" and b: "both_users ar br w0"
    and i: "i = o_UserId (askObj w0 ar) \<or> i = o_UserId (bidObj w0 br)"
    and u: "users w' = (users w)(i \<mapsto> (usr w i)\<lparr>u_Cash := c\<rparr>)"
    and o: "askObj w' = askObj w" "bidObj w' = bidObj w" "allStocks w' = allStocks w"
  shows "fill_touched ar br w0 w'"
proof -
  let ?au = "o_UserId (askObj w0 ar)" and ?bu = "o_UserId (bidObj w0 br)"
  have ne: "?au \<noteq> ?bu" using b by (simp add: both_users_def)
  obtain ca cb rb f k f' k' ti where x: "users w ?au = Some ((usr w0 ?au)\<lparr>u_Cash := ca\<rparr>)"
    "users w ?bu = Some ((usr w0 ?bu)\<lparr>u_Cash := cb, u_ReservedCash := rb\<rparr>)"
    "\<And>j. j \<noteq> ?au \<Longrightarrow> j \<noteq> ?bu \<Longrightarrow> users w j = users w0 j"
    "askObj w = (askObj w0)(ar := (askObj w0 ar)\<lparr>o_StockQuantityFulfilled := f, o_IsClosed := k\<rparr>)"
    "bidObj w = (bidObj w0)(br := (bidObj w0 br)\<lparr>o_StockQuantityFulfilled := f', o_IsClosed := k',
                 o_UpdatedAt := ti\<rparr>)" "allStocks w = allStocks w0"
    using t unfolding fill_touched_def Let_def by blast
  show ?thesis
  proof (rule fill_touchedI [where c = "if i = ?au then c else ca" and c' = "if i = ?bu then c else cb"
      and rc = rb and f = f and k = k and f' = f' and k' = k' and t = ti])
  qed (use x u o i ne in \<open>auto\<close>)
qed

section \<open>The transaction of a trade\<close>

text \<open>Calls that only write leave memory alone.\<close>

lemma save_summary_frame:
  assumes "save_summary x (w, t) = (ok, w', t')"
  shows "same_mem w w'" "db w' = db w" "ok \<Longrightarrow> Users t' = Users t \<and> Transactions t' = Transactions t"
proof -
  show "same_mem w w'" "db w' = db w" using quietD [OF quiet_save_summary assms] by auto
  show "Users t' = Users t \<and> Transactions t' = Transactions t" if ok
    using assms that
    by (auto simp: save_summary_def split: if_splits dest!: tx_save_True tx_insert_True)
qed

definition rows_of :: "transaction option \<Rightarrow> transaction list" where
  "rows_of tt = (case tt of None \<Rightarrow> [] | Some x \<Rightarrow> [x])"

lemma quiet_fill_rows: "list_all quiet (fill_rows ar br askTr bidTr askTax bidTax i w)"
  by (simp add: fill_rows_def Let_def split: option.split)

lemma users_fields [ledger_simps]:
  "Users (insert_tx tr i t) = Users t" "Users (save_user u t) = upsert u_Id u (Users t)"
  "Users (save_ask a t) = Users t" "Users (save_bid b t) = Users t" "Users (save_stock s t) = Users t"
  "Transactions (save_user u t) = Transactions t" "Transactions (save_ask a t) = Transactions t"
  "Transactions (save_bid b t) = Transactions t" "Transactions (save_stock s t) = Transactions t"
  by (simp_all add: insert_tx_def save_user_def save_ask_def save_bid_def save_stock_def)

lemma inserts_ok:
  "tx_seq (map (\<lambda>x. tx_insert (insert_tx x)) trs @ ops) (w, t) = (True, w', t') \<Longrightarrow>
   \<exists>w1 t1. tx_seq ops (w1, t1) = (True, w', t') \<and> adds_tx trs t t1 \<and> Users t1 = Users t"
proof (induction trs arbitrary: w t)
  case Nil
  then show ?case using adds_tx_same by auto
next
  case (Cons x xs)
  then obtain w1 t1 where i: "tx_insert (insert_tx x) (w, t) = (True, w1, t1)"
    "tx_seq (map (\<lambda>x. tx_insert (insert_tx x)) xs @ ops) (w1, t1) = (True, w', t')"
    unfolding list.map append_Cons tx_seq_Cons_True by blast
  obtain w2 t2 where "tx_seq ops (w2, t2) = (True, w', t')" "adds_tx xs t1 t2" "Users t2 = Users t1"
    using Cons.IH [OF i(2)] by blast
  moreover have "adds_tx ([x] @ xs) t t2"
    using tx_insert_True [OF i(1)] calculation(2) by (intro adds_tx_trans [OF adds_tx_insert]) simp
  ultimately show ?case using tx_insert_True [OF i(1)] by (auto simp: ledger_simps)
qed

lemma fill_rows_ok:
  assumes "tx_seq (fill_rows ar br askTr bidTr askTax bidTax i w) (w1, t) = (True, w', t')"
  shows "adds_tx ([askTr, bidTr] @ rows_of askTax @ rows_of bidTax) t t'"
    "Users t' = upsert u_Id (usr w (o_UserId (bidObj w br))) (upsert u_Id (usr w (o_UserId (askObj w ar))) (Users t))"
    "row o_Id (o_Id (askObj w ar)) (Asks t') = Some (askObj w ar)"
    "row o_Id (o_Id (bidObj w br)) (Bids t') = Some (bidObj w br)"
    "\<lparr>of_TransactionId = i, of_BidId = o_Id (bidObj w br), of_AskId = o_Id (askObj w ar)\<rparr> \<in> set (OrderFills t')"
proof -
  let ?a = "askObj w ar" and ?b = "bidObj w br"
  let ?of = "\<lparr>of_TransactionId = i, of_BidId = o_Id ?b, of_AskId = o_Id ?a\<rparr>"
  let ?trs = "[askTr, bidTr] @ rows_of askTax @ rows_of bidTax"
  have eq: "fill_rows ar br askTr bidTr askTax bidTax i w = map (\<lambda>x. tx_insert (insert_tx x)) ?trs @
      [tx_save (save_user (usr w (o_UserId ?a))), tx_save (save_user (usr w (o_UserId ?b))),
       tx_save (save_ask ?a), tx_save (save_bid ?b), tx_save (\<lambda>t. t\<lparr>OrderFills := OrderFills t @ [?of]\<rparr>)]"
    by (simp add: fill_rows_def Let_def rows_of_def split: option.split)
  obtain w2 t2 where s: "tx_seq [tx_save (save_user (usr w (o_UserId ?a))), tx_save (save_user (usr w (o_UserId ?b))),
       tx_save (save_ask ?a), tx_save (save_bid ?b), tx_save (\<lambda>t. t\<lparr>OrderFills := OrderFills t @ [?of]\<rparr>)] (w2, t2) = (True, w', t')"
    and a: "adds_tx ?trs t t2" "Users t2 = Users t"
    using inserts_ok [OF assms [unfolded eq]] by blast
  have t': "t' = (save_bid ?b (save_ask ?a (save_user (usr w (o_UserId ?b)) (save_user (usr w (o_UserId ?a)) t2))))
      \<lparr>OrderFills := OrderFills (save_bid ?b (save_ask ?a (save_user (usr w (o_UserId ?b)) (save_user (usr w (o_UserId ?a)) t2)))) @ [?of]\<rparr>"
    using tx_saves_True [of "[save_user (usr w (o_UserId ?a)), save_user (usr w (o_UserId ?b)), save_ask ?a,
        save_bid ?b, \<lambda>t. t\<lparr>OrderFills := OrderFills t @ [?of]\<rparr>]"] s by simp
  show "adds_tx ?trs t t'" using a(1) by (simp add: adds_tx_def t' ledger_simps)
  show "Users t' = upsert u_Id (usr w (o_UserId ?b)) (upsert u_Id (usr w (o_UserId ?a)) (Users t))"
    by (simp add: t' ledger_simps a(2))
  show "row o_Id (o_Id ?a) (Asks t') = Some ?a" "row o_Id (o_Id ?b) (Bids t') = Some ?b" "?of \<in> set (OrderFills t')"
    by (simp_all add: t' save_bid_def save_ask_def save_user_def)
qed

text \<open>What the two tax functions and the writes of a trade do, in order.\<close>

lemma fill_transaction_ok:
  assumes t: "fill_touched ar br w0 w" and b: "both_users ar br w0"
    and run: "fill_transaction ar br price qty askTr bidTr w = (tr, w')"
  defines "au \<equiv> o_UserId (askObj w0 ar)" and "bu \<equiv> o_UserId (bidObj w0 br)"
  shows "fill_touched ar br w0 w'" "same_mem (w\<lparr>users := users w'\<rparr>) w'"
    "tr = None \<Longrightarrow> db w' = db w"
    "tr = Some tr' \<Longrightarrow> \<exists>askTax bidTax i. tr' = askTr\<lparr>t_Id := i\<rparr> \<and>
       users w' = (users w)(au \<mapsto> (usr w au)\<lparr>u_Cash := u_Cash (usr w au) - tax_amount askTax\<rparr>,
                            bu \<mapsto> (usr w bu)\<lparr>u_Cash := u_Cash (usr w bu) - tax_amount bidTax\<rparr>) \<and>
       (\<forall>x \<in> set (rows_of askTax). tax_row (u_Id (usr w au)) x) \<and>
       (\<forall>x \<in> set (rows_of bidTax). tax_row (u_Id (usr w bu)) x) \<and>
       adds_tx ([askTr, bidTr] @ rows_of askTax @ rows_of bidTax) (db w) (db w') \<and>
       Users (db w') = upsert u_Id (usr w' bu) (upsert u_Id (usr w' au) (Users (db w))) \<and>
       row o_Id (o_Id (askObj w ar)) (Asks (db w')) = Some (askObj w ar) \<and>
       row o_Id (o_Id (bidObj w br)) (Bids (db w')) = Some (bidObj w br) \<and>
       \<lparr>of_TransactionId = i, of_BidId = o_Id (bidObj w br), of_AskId = o_Id (askObj w ar)\<rparr> \<in> set (OrderFills (db w'))"
proof (atomize (full), goal_cases)
  case 1
  have ne: "au \<noteq> bu" using b by (simp add: both_users_def au_def bu_def)
  have ids: "o_UserId (askObj w ar) = au" "o_UserId (bidObj w br) = bu"
    using t unfolding fill_touched_def Let_def au_def bu_def by auto
  obtain xa askTax w1 where ta: "getTaxForAskingUser (o_StockId (askObj w ar)) qty price au w (db w) = ((xa, askTax), w1)"
    by (cases "getTaxForAskingUser (o_StockId (askObj w ar)) qty price au w (db w)") auto
  note fa = tax_frame [OF disjI2, OF ta]
  have t1: "fill_touched ar br w0 w1"
    by (rule fill_touched_cash [OF t b _ fa(1)]) (use fa(2) in \<open>simp_all add: au_def same_mem_def\<close>)
  obtain ok1 w2 t2 where s1: "save_summary xa (w1, db w) = (ok1, w2, t2)" by (cases "save_summary xa (w1, db w)")
  note f2 = save_summary_frame [OF s1]
  have t2: "fill_touched ar br w0 w2"
    using t1 f2(1) by (simp add: fill_touched_def same_mem_def Let_def usr_def)
  have sm2: "same_mem (w\<lparr>users := users w2\<rparr>) w2" "db w2 = db w" "users w2 = users w1"
    using fa(2,3) f2(1,2) by (auto simp: same_mem_def)
  show ?case
  proof (cases ok1)
    case False
    then have "tr = None \<and> w' = w2" using run ta s1 ids by (simp add: fill_transaction_def)
    then show ?thesis using t2 sm2 by simp
  next
    case ok1: True
    obtain xb bidTax w3 where tb: "getTaxForBiddingUser (o_StockId (bidObj w br)) qty price bu w2 t2 = ((xb, bidTax), w3)"
      by (cases "getTaxForBiddingUser (o_StockId (bidObj w br)) qty price bu w2 t2") auto
    note fb = tax_frame [OF disjI1, OF tb]
    have t3: "fill_touched ar br w0 w3"
      by (rule fill_touched_cash [OF t2 b _ fb(1)]) (use fb(2) in \<open>simp_all add: bu_def same_mem_def\<close>)
    obtain ok3 w4 t4 where s3: "save_summary xb (w3, t2) = (ok3, w4, t4)" by (cases "save_summary xb (w3, t2)")
    note f4 = save_summary_frame [OF s3]
    have t4: "fill_touched ar br w0 w4"
      using t3 f4(1) by (simp add: fill_touched_def same_mem_def Let_def usr_def)
    have sm4: "same_mem (w\<lparr>users := users w4\<rparr>) w4" "db w4 = db w" "users w4 = users w3"
      using sm2 fb(2,3) f4(1,2) by (auto simp: same_mem_def)
    show ?thesis
    proof (cases ok3)
      case False
      then have "tr = None \<and> w' = w4" using run ta s1 tb s3 ids ok1 by (simp add: fill_transaction_def)
      then show ?thesis using t4 sm4 by simp
    next
      case ok3: True
      let ?rows = "fill_rows ar br askTr bidTr askTax bidTax (nextId w4) w4"
      obtain ok5 w5 t5 where s5: "tx_seq ?rows (w4, t4) = (ok5, w5, t5)" by (cases "tx_seq ?rows (w4, t4)")
      note f5 = quiet_seq [OF quiet_fill_rows s5]
      obtain ok6 w6 where s6: "commit_tx (w5, t5) = (ok6, w6)" by (cases "commit_tx (w5, t5)")
      note f6 = commit_tx_frame [OF s6]
      define ok where "ok = (ok5 \<and> ok6)"
      have "tr = (if ok then Some (askTr\<lparr>t_Id := nextId w4\<rparr>) else None) \<and> w' = (if ok5 then w6 else w5)"
        using run ta s1 tb s3 s5 s6 ids ok1 ok3
        by (cases ok5; cases ok6) (simp_all add: fill_transaction_def ok_def)
      then have out: "tr = (if ok then Some (askTr\<lparr>t_Id := nextId w4\<rparr>) else None)"
        "w' = (if ok5 then w6 else w5)" by simp_all
      have m': "same_mem w4 w'" "db w' = (if ok then t5 else db w)"
        using f5 f6 sm4(2) same_mem_trans by (auto simp: out(2) ok_def)
      have t': "fill_touched ar br w0 w'"
        using t4 m'(1) by (simp add: fill_touched_def same_mem_def Let_def usr_def)
      have sm': "same_mem (w\<lparr>users := users w'\<rparr>) w'" using sm4(1) m'(1) by (auto simp: same_mem_def)
      show ?thesis
      proof (cases ok)
        case False
        then show ?thesis using t' sm' m'(2) out(1) by simp
      next
        case True
        then have k: "ok5" by (simp add: ok_def)
        have o: "askObj w4 = askObj w" "bidObj w4 = bidObj w" "users w' = users w4"
          using sm4(1) m'(1) by (simp_all add: same_mem_def)
        have us: "users w' = (users w)(au \<mapsto> (usr w au)\<lparr>u_Cash := u_Cash (usr w au) - tax_amount askTax\<rparr>,
                            bu \<mapsto> (usr w bu)\<lparr>u_Cash := u_Cash (usr w bu) - tax_amount bidTax\<rparr>)"
          using fa(1) fb(1) sm2(3) sm4(3) o(3) ne by (simp add: usr_def)
        have tx: "\<forall>x \<in> set (rows_of askTax). tax_row (u_Id (usr w au)) x"
            "\<forall>x \<in> set (rows_of bidTax). tax_row (u_Id (usr w bu)) x"
          using fa(6) fb(6) sm2(3) fa(1) ne by (auto simp: rows_of_def usr_def split: option.splits)
        have s5': "tx_seq ?rows (w4, t4) = (True, w5, t5)" using s5 k by simp
        note r = fill_rows_ok [OF s5', unfolded o ids]
        have same: "Users t4 = Users (db w)" "Transactions t4 = Transactions (db w)"
          using f2(3) [OF ok1] f4(3) [OF ok3] by auto
        have us4: "usr w4 = usr w'" using o(3) by (auto simp: usr_def fun_eq_iff)
        have d: "db w' = t5" using m'(2) True by simp
        have "adds_tx ([askTr, bidTr] @ rows_of askTax @ rows_of bidTax) (db w) (db w')"
          using r(1) same(2) d by (simp add: adds_tx_def)
        then show ?thesis using t' sm' out(1) True us tx r(2-5) same(1) us4 d by auto
      qed
    qed
  qed
qed

end
