(* ===== verification/Fill_Correct.thy ===== *)
theory Fill_Correct
  imports Fill_Proofs
begin

text \<open>
  The outcomes of \<^verbatim>\<open>PerformOrderFillTransaction\<close>, and its contract with the order book.

  There are three: nothing happened (a status already closed, or a failure with memory and
  tables as before), the bid was closed for lack of cash with its reserve given back, or the
  trade was committed. Each of them keeps the accounts.
\<close>

section \<open>The bidder cannot pay\<close>

definition bid_refunded :: "ref \<Rightarrow> world \<Rightarrow> world \<Rightarrow> bool" where
  "bid_refunded br w0 w' \<longleftrightarrow>
     (let b = bidObj w0 br; bu = o_UserId b in
      \<exists>tr rest m t.
        deposit_rows (o_Id b) False (db w0) = tr # rest \<and>
        m = reserve_share (- t_Total tr) (unfulfilled b) (o_StockQuantity b) \<and>
        users w' = (users w0)(bu \<mapsto> refund_user m (usr w0 bu)) \<and>
        adds_tx [refund_tx (u_Id (usr w0 bu)) (o_StockId b) m t] (db w0) (db w') \<and>
        Users (db w') = upsert u_Id (refund_user m (usr w0 bu)) (Users (db w0)) \<and>
        bidObj w' = (bidObj w0)(br := b\<lparr>o_IsClosed := True, o_UpdatedAt := t\<rparr>) \<and>
        row o_Id (o_Id b) (Bids (db w')) = Some (bidObj w' br) \<and>
        askObj w' = askObj w0 \<and> allStocks w' = allStocks w0)"

lemma fill_no_cash_ok:
  assumes b: "both_users ar br w0" and t: "fill_touched ar br w0 w" and d: "db w = db w0" "now w = now w0"
    and run: "fill_no_cash ar br w0 w = ((sa, sb, tr), w')"
  shows "sa = AskUndone \<and> tr = None \<and>
    (sb = BidUndone \<and> restored br w0 w' \<and> db w' = db w0 \<or> sb = BidDone \<and> bid_refunded br w0 w')"
proof -
  let ?bu = "o_UserId (bidObj w0 br)"
  define w1 where "w1 = fill_revert ar br w0 w"
  have r1: "restored br w0 w1" "db w1 = db w0" using fill_revert_restored [OF t b] d by (simp_all add: w1_def)
  then obtain ti where m1: "users w1 = users w0" "askObj w1 = askObj w0" "allStocks w1 = allStocks w0"
    "bidObj w1 = (bidObj w0)(br := (bidObj w0 br)\<lparr>o_UpdatedAt := ti\<rparr>)" by (auto simp: restored_def)
  have undo: "restored br w0 (fill_revert ar br w0 v)" if "fill_touched ar br w0 v" for v
    using fill_revert_restored [OF that b] .
  obtain e w2 t2 where c: "Bid_Close br (w1, db w1) = (e, w2, t2)" by (cases "Bid_Close br (w1, db w1)")
  note fc = Bid_Close_frame [OF c]
  have t2': "fill_touched ar br w0 w2"
  proof -
    obtain k u where "bidObj w2 = (bidObj w1)(br := (bidObj w1 br)\<lparr>o_IsClosed := k, o_UpdatedAt := u\<rparr>)"
      using fc(6) by blast
    then have "bidObj w2 = (bidObj w0)(br := (bidObj w0 br)\<lparr>o_IsClosed := k, o_UpdatedAt := u\<rparr>)"
      using m1(4) by simp
    then show ?thesis using fc(1-3) m1 by (intro fill_touched_same [OF b]) simp_all
  qed
  show ?thesis
  proof (cases "e = None")
    case False
    then have "sa = AskUndone" "sb = BidUndone" "tr = None" "w' = fill_revert ar br w0 w2"
      using run c by (simp_all add: fill_no_cash_def w1_def Let_def)
    then show ?thesis using undo [OF t2'] fc(4) r1(2) by simp
  next
    case True
    have b2: "bidObj w2 = (bidObj w0)(br := (bidObj w0 br)\<lparr>o_IsClosed := True, o_UpdatedAt := now w1\<rparr>)"
      using fc(8) [OF True] m1(4) by simp
    obtain e3 w3 t3 where s: "saveBidCancelOrderTransaction br ?bu (w2, t2) = (e3, w3, t3)"
      by (cases "saveBidCancelOrderTransaction br ?bu (w2, t2)")
    note fs = saveBidCancel_frame [OF s]
    have u2: "users w2 = users w0" "usr w2 ?bu = usr w0 ?bu" using fc(1) m1(1) by (simp_all add: usr_def)
    have t3': "fill_touched ar br w0 w3"
    proof -
      have ub: "users w0 ?bu = Some (usr w0 ?bu)" using b by (auto simp: both_users_def usr_def)
      consider "users w3 = users w0" | m where "users w3 = (users w0)(?bu \<mapsto> refund_user m (usr w0 ?bu))"
        using fs(6) u2 by auto
      then show ?thesis
      proof cases
        case 1
        then show ?thesis using fs(1-3) fc(2,3) m1 b2 by (intro fill_touched_same [OF b]) simp_all
      next
        case (2 m)
        then show ?thesis using t2' fs(1-3) u2(1) b
          by (auto simp: fill_touched_def Let_def refund_user_def both_users_def)
      qed
    qed
    show ?thesis
    proof (cases "e3 = None")
      case False
      then have "sa = AskUndone" "sb = BidUndone" "tr = None" "w' = fill_revert ar br w0 w3"
        using run c s True by (simp_all add: fill_no_cash_def w1_def Let_def)
      then show ?thesis using undo [OF t3'] fc(4) fs(4) r1(2) by simp
    next
      case e3: True
      obtain ok w4 where cm: "commit_tx (w3, t3) = (ok, w4)" by fastforce
      note f4 = commit_tx_frame [OF cm]
      show ?thesis
      proof (cases ok)
        case False
        then have "sa = AskUndone" "sb = BidUndone" "tr = None" "w' = fill_revert ar br w0 w4"
          using run c s True e3 cm by (simp_all add: fill_no_cash_def w1_def Let_def)
        moreover have "fill_touched ar br w0 w4"
          using t3' f4(1) by (simp add: fill_touched_def same_mem_def Let_def usr_def)
        ultimately show ?thesis using undo [of w4] f4(2) False fc(4) fs(4) r1(2) by simp
      next
        case ok: True
        then have out: "sa = AskUndone" "sb = BidDone" "tr = None" "w' = w4"
          using run c s True e3 cm by (simp_all add: fill_no_cash_def w1_def Let_def)
        obtain tr0 rest m where f: "deposit_rows (o_Id (bidObj w2 br)) False (db w2) = tr0 # rest"
          "m = reserve_share (- t_Total tr0) (unfulfilled (bidObj w2 br)) (o_StockQuantity (bidObj w2 br))"
          "users w3 = (users w2)(?bu \<mapsto> refund_user m (usr w2 ?bu))"
          "adds_tx [refund_tx (u_Id (usr w2 ?bu)) (o_StockId (bidObj w2 br)) m (now w2)] t2 t3"
          "Users t3 = upsert u_Id (refund_user m (usr w2 ?bu)) (Users t2)" "Bids t3 = Bids t2"
          using fs(7) [OF e3] by blast
        have t2: "t2 = save_bid (bidObj w2 br) (db w0)" using fc(9) [OF True] r1(2) by simp
        have dw: "db w' = t3" using f4(2) ok out(4) by simp
        have m4: "users w' = users w3" "askObj w' = askObj w0" "allStocks w' = allStocks w0" "bidObj w' = bidObj w2"
          using f4(1) out(4) fs(1-3) fc(2,3) m1 by (simp_all add: same_mem_def)
        have nw: "now w2 = now w1" using fc(5) .
        have "bid_refunded br w0 w'"
          unfolding bid_refunded_def Let_def
        proof (intro exI conjI)
          show "deposit_rows (o_Id (bidObj w0 br)) False (db w0) = tr0 # rest"
            using f(1) b2 fc(4) r1(2) by simp
          show "m = reserve_share (- t_Total tr0) (unfulfilled (bidObj w0 br)) (o_StockQuantity (bidObj w0 br))"
            using f(2) b2 by (simp add: unfulfilled_def)
          show "users w' = (users w0)(?bu \<mapsto> refund_user m (usr w0 ?bu))" using f(3) m4(1) u2 by simp
          show "adds_tx [refund_tx (u_Id (usr w0 ?bu)) (o_StockId (bidObj w0 br)) m (now w1)] (db w0) (db w')"
            using f(4) dw t2 u2(2) b2 nw by (simp add: adds_tx_def ledger_simps)
          show "Users (db w') = upsert u_Id (refund_user m (usr w0 ?bu)) (Users (db w0))"
            using f(5) dw t2 u2(2) by (simp add: ledger_simps)
          show "bidObj w' = (bidObj w0)(br := (bidObj w0 br)\<lparr>o_IsClosed := True, o_UpdatedAt := now w1\<rparr>)"
            using m4(4) b2 by simp
          show "row o_Id (o_Id (bidObj w0 br)) (Bids (db w')) = Some (bidObj w' br)"
            using dw f(6) t2 m4(4) b2 by (simp add: save_bid_def)
        qed (use m4 in simp_all)
        then show ?thesis using out by simp
      qed
    qed
  qed
qed

section \<open>The trade\<close>

definition taxed :: "transaction option \<Rightarrow> user \<Rightarrow> user" where
  "taxed tt u = u\<lparr>u_Cash := u_Cash u - tax_amount tt\<rparr>"

definition traded :: "ref \<Rightarrow> ref \<Rightarrow> u64 \<Rightarrow> u64 \<Rightarrow> world \<Rightarrow> world \<Rightarrow> transaction \<Rightarrow> bool" where
  "traded ar br price qty w0 w' tr' \<longleftrightarrow>
     (let a = askObj w0 ar; b = bidObj w0 br; au = o_UserId a; bu = o_UserId b in
      \<exists>tr0 rest reserved askTax bidTax i t.
        deposit_rows (o_Id b) False (db w0) = tr0 # rest \<and>
        reserved = reserve_share (- t_Total tr0) qty (o_StockQuantity b) \<and>
        \<not> s_less (cash_left price qty reserved (usr w0 bu)) 0 \<and>
        users w' = (users w0)(au \<mapsto> taxed askTax (fill_asking_user price qty (usr w0 au)),
                              bu \<mapsto> taxed bidTax (fill_bidding_user price qty reserved (usr w0 bu))) \<and>
        (\<forall>x \<in> set (rows_of askTax). tax_row (u_Id (usr w0 au)) x) \<and>
        (\<forall>x \<in> set (rows_of bidTax). tax_row (u_Id (usr w0 bu)) x) \<and>
        askObj w' = (askObj w0)(ar := fill_one qty a) \<and> bidObj w' = (bidObj w0)(br := fill_one qty b) \<and>
        adds_tx ([GetTransactionRef au (o_StockId a) OrderFillTransaction (- qty) 0 price 0 (price * qty) t,
                  GetTransactionRef bu (o_StockId b) OrderFillTransaction 0 qty price (- reserved)
                    (- (price * qty) + reserved) t] @ rows_of askTax @ rows_of bidTax) (db w0) (db w') \<and>
        Users (db w') = upsert u_Id (usr w' bu) (upsert u_Id (usr w' au) (Users (db w0))) \<and>
        row o_Id (o_Id a) (Asks (db w')) = Some (askObj w' ar) \<and>
        row o_Id (o_Id b) (Bids (db w')) = Some (bidObj w' br) \<and>
        \<lparr>of_TransactionId = i, of_BidId = o_Id b, of_AskId = o_Id a\<rparr> \<in> set (OrderFills (db w')) \<and>
        t_Id tr' = i \<and> t_StockQuantity tr' = - qty \<and> t_Price tr' = price \<and>
        dom (allStocks w') = dom (allStocks w0))"

text \<open>After the commit only the stock changes.\<close>

lemma fill_finish_ok:
  assumes run: "fill_finish ar br price qty askTr w = Some ((sa, sb, tr), w')"
  shows "users w' = users w" "askObj w' = askObj w" "bidObj w' = bidObj w" "dom (allStocks w') = dom (allStocks w)"
    "db w' = db w \<or> (\<exists>s. db w' = save_stock s (db w))"
    "sa = (if o_IsClosed (askObj w ar) then AskDone else AskUndone)"
    "sb = (if o_IsClosed (bidObj w br) then BidDone else BidUndone)"
    "tr = Some (askTr\<lparr>t_StockQuantity := - qty\<rparr>)"
proof -
  let ?s = "o_StockId (askObj w ar)"
  obtain s where s: "allStocks w ?s = Some s"
    using run by (auto simp: fill_finish_def UpdateStockVolume_def Let_def split: option.splits)
  define w1 where "w1 = set_stock ?s (s\<lparr>s_volume := s_volume s + qty\<rparr>) w"
  obtain e w2 where u: "UpdateStockPrice ?s price qty w1 = (e, w2)" by fastforce
  have r: "w' = w2" "sa = (if o_IsClosed (askObj w2 ar) then AskDone else AskUndone)"
    "sb = (if o_IsClosed (bidObj w2 br) then BidDone else BidUndone)" "tr = Some (askTr\<lparr>t_StockQuantity := - qty\<rparr>)"
    using run s u by (auto simp: fill_finish_def UpdateStockVolume_def Let_def w1_def)
  have m: "users w1 = users w" "askObj w1 = askObj w" "bidObj w1 = bidObj w" "db w1 = db w"
    "dom (allStocks w1) = dom (allStocks w)" using s by (auto simp: w1_def ledger_simps)
  note f = UpdateStockPrice_frame [OF u]
  show "users w' = users w" "askObj w' = askObj w" "bidObj w' = bidObj w" "dom (allStocks w') = dom (allStocks w)"
    "db w' = db w \<or> (\<exists>s. db w' = save_stock s (db w))"
    "sa = (if o_IsClosed (askObj w ar) then AskDone else AskUndone)"
    "sb = (if o_IsClosed (bidObj w br) then BidDone else BidUndone)"
    "tr = Some (askTr\<lparr>t_StockQuantity := - qty\<rparr>)"
    using f m r by simp_all
qed

lemma fill_finish_total: "o_StockId (askObj w ar) \<in> dom (allStocks w) \<Longrightarrow>
  \<exists>r w'. fill_finish ar br price qty askTr w = Some (r, w')"
  by (auto simp: fill_finish_def UpdateStockVolume_def Let_def)

definition fill_outcome ::
  "ref \<Rightarrow> ref \<Rightarrow> u64 \<Rightarrow> u64 \<Rightarrow> world \<Rightarrow> AskOrderFillStatus \<Rightarrow> BidOrderFillStatus \<Rightarrow> transaction option \<Rightarrow> world \<Rightarrow> bool" where
  "fill_outcome ar br price qty w0 sa sb tr w' \<longleftrightarrow>
     (tr = None \<and> sa = AskUndone \<and> sb = BidUndone \<and> restored br w0 w' \<and> db w' = db w0) \<or>
     (tr = None \<and> sa = AskUndone \<and> sb = BidDone \<and> bid_refunded br w0 w') \<or>
     (\<exists>tr'. tr = Some tr' \<and> traded ar br price qty w0 w' tr' \<and>
        sa = (if o_IsClosed (askObj w' ar) then AskDone else AskUndone) \<and>
        sb = (if o_IsClosed (bidObj w' br) then BidDone else BidUndone))"

lemma fill_open_orders_ok:
  assumes b: "both_users ar br w" and run: "fill_open_orders ar br price qty w = Some ((sa, sb, tr), w')"
  shows "fill_outcome ar br price qty w sa sb tr w'"
proof -
  let ?au = "o_UserId (askObj w ar)" and ?bu = "o_UserId (bidObj w br)"
  obtain d w1 where g: "getPlaceOrderTransactionDetails (o_Id (bidObj w br)) False w = (d, w1)" by fastforce
  note f = deposit_frame [OF g]
  have m1: "askObj w1 = askObj w" "bidObj w1 = bidObj w" "users w1 = users w" "usr w1 = usr w" "now w1 = now w"
    "allStocks w1 = allStocks w"
    using f(1) by (simp_all add: same_mem_def usr_def fun_eq_iff)
  have rs: "restored br w v = restored br w1 v" for v by (simp add: restored_def m1)
  show ?thesis
  proof (cases d)
    case (Inl e)
    then have "sa = AskUndone" "sb = BidUndone" "tr = None" "w' = w1"
      using run g by (simp_all add: fill_open_orders_def)
    then show ?thesis using f(2) m1 by (simp add: fill_outcome_def restored_refl)
  next
    case (Inr p)
    obtain rfo x where p: "p = (rfo, x)" by fastforce
    obtain tr0 rest where dep: "deposit_rows (o_Id (bidObj w br)) False (db w) = tr0 # rest" "rfo = - t_Total tr0"
      using f(3) Inr p by blast
    define reserved where "reserved = reserve_share (- t_Total tr0) qty (o_StockQuantity (bidObj w br))"
    define askTr where "askTr = GetTransactionRef ?au (o_StockId (askObj w ar)) OrderFillTransaction
                          (- qty) 0 price 0 (price * qty) (now w)"
    define bidTr where "bidTr = GetTransactionRef ?bu (o_StockId (bidObj w br)) OrderFillTransaction
                          0 qty price (- reserved) (- (price * qty) + reserved) (now w)"
    define w2 where "w2 = fill_update ar br price qty reserved w1"
    have b1: "both_users ar br w1" using b m1 by (simp add: both_users_def)
    have t2: "fill_touched ar br w1 w2" unfolding w2_def by (rule fill_update_touched [OF b1])
    have d2: "db w2 = db w1" "now w2 = now w1" by (simp_all add: w2_def fill_update_def Let_def ledger_simps)
    show ?thesis
    proof (cases "s_less (cash_left price qty reserved (usr w ?bu)) 0")
      case True
      then have "fill_no_cash ar br w1 w2 = ((sa, sb, tr), w')"
        using run g Inr p m1 dep(2) by (simp add: fill_open_orders_def Let_def reserved_def w2_def)
      from fill_no_cash_ok [OF b1 t2 d2 this] show ?thesis
        using f(2) m1 by (auto simp: fill_outcome_def rs bid_refunded_def)
    next
      case False
      obtain tr2 w3 where ft: "fill_transaction ar br price qty askTr bidTr w2 = (tr2, w3)" by fastforce
      note ff = fill_transaction_ok [OF t2 b1 ft, unfolded m1]
      have r: "(case tr2 of None \<Rightarrow> Some ((AskUndone, BidUndone, None), fill_revert ar br w1 w3)
               | Some askTr' \<Rightarrow> fill_finish ar br price qty askTr' w3) = Some ((sa, sb, tr), w')"
        using run g Inr p m1 dep(2) False ft
        by (simp add: fill_open_orders_def Let_def reserved_def w2_def askTr_def bidTr_def)
      show ?thesis
      proof (cases tr2)
        case None
        then have "sa = AskUndone" "sb = BidUndone" "tr = None" "w' = fill_revert ar br w1 w3" using r by simp_all
        then show ?thesis using fill_revert_restored [OF ff(1) b1] ff(3) [OF None] d2 f(2)
          by (simp add: fill_outcome_def rs)
      next
        case (Some tr3)
        then have fin: "fill_finish ar br price qty tr3 w3 = Some ((sa, sb, tr), w')" using r by simp
        note fi = fill_finish_ok [OF fin]
        have ne: "?au \<noteq> ?bu" using b by (simp add: both_users_def)
        have m2: "askObj w2 = (askObj w)(ar := fill_one qty (askObj w ar))"
          "bidObj w2 = (bidObj w)(br := fill_one qty (bidObj w br))" "allStocks w2 = allStocks w"
          "usr w2 ?au = fill_asking_user price qty (usr w ?au)"
          "usr w2 ?bu = fill_bidding_user price qty reserved (usr w ?bu)"
          "users w2 = (users w)(?au \<mapsto> fill_asking_user price qty (usr w ?au), ?bu \<mapsto> fill_bidding_user price qty reserved (usr w ?bu))"
          using ne by (simp_all add: w2_def fill_update_def Let_def ledger_simps m1 usr_def)
        obtain askTax bidTax i where o: "tr3 = askTr\<lparr>t_Id := i\<rparr>"
          "users w3 = (users w2)(?au \<mapsto> (usr w2 ?au)\<lparr>u_Cash := u_Cash (usr w2 ?au) - tax_amount askTax\<rparr>,
                            ?bu \<mapsto> (usr w2 ?bu)\<lparr>u_Cash := u_Cash (usr w2 ?bu) - tax_amount bidTax\<rparr>)"
          "\<forall>x \<in> set (rows_of askTax). tax_row (u_Id (usr w2 ?au)) x"
          "\<forall>x \<in> set (rows_of bidTax). tax_row (u_Id (usr w2 ?bu)) x"
          "adds_tx ([askTr, bidTr] @ rows_of askTax @ rows_of bidTax) (db w2) (db w3)"
          "Users (db w3) = upsert u_Id (usr w3 ?bu) (upsert u_Id (usr w3 ?au) (Users (db w2)))"
          "row o_Id (o_Id (askObj w2 ar)) (Asks (db w3)) = Some (askObj w2 ar)"
          "row o_Id (o_Id (bidObj w2 br)) (Bids (db w3)) = Some (bidObj w2 br)"
          "\<lparr>of_TransactionId = i, of_BidId = o_Id (bidObj w2 br), of_AskId = o_Id (askObj w2 ar)\<rparr> \<in> set (OrderFills (db w3))"
          using ff(4) [OF Some] by blast
        have m3: "askObj w3 = askObj w2" "bidObj w3 = bidObj w2" "allStocks w3 = allStocks w"
          using ff(2) m2(3) by (simp_all add: same_mem_def)
        have t': "Users (db w') = Users (db w3)" "Transactions (db w') = Transactions (db w3)"
          "Asks (db w') = Asks (db w3)" "Bids (db w') = Bids (db w3)" "OrderFills (db w') = OrderFills (db w3)"
          using fi(5) by (auto simp: save_stock_def)
        have uu: "usr w' = usr w3" using fi(1) by (simp add: usr_def fun_eq_iff)
        have ids: "o_Id (fill_one qty x) = o_Id x" "u_Id (fill_asking_user price qty u) = u_Id u"
          "u_Id (fill_bidding_user price qty reserved u) = u_Id u" for x u
          by (simp_all add: fill_one_def fill_asking_user_def fill_bidding_user_def)
        have "traded ar br price qty w w' (tr3\<lparr>t_StockQuantity := - qty\<rparr>)"
          unfolding traded_def Let_def
        proof (intro exI conjI)
          show "deposit_rows (o_Id (bidObj w br)) False (db w) = tr0 # rest" by (rule dep(1))
          show "reserved = reserve_share (- t_Total tr0) qty (o_StockQuantity (bidObj w br))" by (rule reserved_def)
          show "\<not> s_less (cash_left price qty reserved (usr w ?bu)) 0" by (rule False)
          show "users w' = (users w)(?au \<mapsto> taxed askTax (fill_asking_user price qty (usr w ?au)),
                              ?bu \<mapsto> taxed bidTax (fill_bidding_user price qty reserved (usr w ?bu)))"
            using fi(1) o(2) m2(4-6) ne by (simp add: taxed_def)
          show "\<forall>x \<in> set (rows_of askTax). tax_row (u_Id (usr w ?au)) x"
            "\<forall>x \<in> set (rows_of bidTax). tax_row (u_Id (usr w ?bu)) x" using o(3,4) m2(4,5) ids by simp_all
          show "askObj w' = (askObj w)(ar := fill_one qty (askObj w ar))"
            "bidObj w' = (bidObj w)(br := fill_one qty (bidObj w br))" using fi(2,3) m3 m2 by simp_all
          show "adds_tx ([GetTransactionRef ?au (o_StockId (askObj w ar)) OrderFillTransaction (- qty) 0 price 0 (price * qty) (now w),
                  GetTransactionRef ?bu (o_StockId (bidObj w br)) OrderFillTransaction 0 qty price (- reserved)
                    (- (price * qty) + reserved) (now w)] @ rows_of askTax @ rows_of bidTax) (db w) (db w')"
            using o(5) d2 f(2) t' by (simp add: adds_tx_def askTr_def bidTr_def)
          show "Users (db w') = upsert u_Id (usr w' ?bu) (upsert u_Id (usr w' ?au) (Users (db w)))"
            using o(6) d2 f(2) t' uu by simp
          show "row o_Id (o_Id (askObj w ar)) (Asks (db w')) = Some (askObj w' ar)"
            using o(7) t' m2(1) fi(2) m3 ids by simp
          show "row o_Id (o_Id (bidObj w br)) (Bids (db w')) = Some (bidObj w' br)"
            using o(8) t' m2(2) fi(3) m3 ids by simp
          show "\<lparr>of_TransactionId = i, of_BidId = o_Id (bidObj w br), of_AskId = o_Id (askObj w ar)\<rparr> \<in> set (OrderFills (db w'))"
            using o(9) t' m2 ids by simp
          show "t_Id (tr3\<lparr>t_StockQuantity := - qty\<rparr>) = i" "t_Price (tr3\<lparr>t_StockQuantity := - qty\<rparr>) = price"
            using o(1) by (simp_all add: askTr_def ledger_simps)
          show "dom (allStocks w') = dom (allStocks w)" using fi(4) m3 by simp
        qed simp
        then show ?thesis using fi(6-8) fi(2,3) unfolding fill_outcome_def by auto
      qed
    qed
  qed
qed

end
