(* ===== verification/Trading.thy ===== *)
theory Trading
  imports Fill_Correct
begin

text \<open>
  The program's own fill function in the order book: \<^verbatim>\<open>PerformOrderFillTransaction\<close> satisfies
  the contract \<open>fill_order\<close>, keeps the accounts of all users, and so do the loops that match
  incoming orders.
\<close>

section \<open>All outcomes\<close>

lemma getUserPairExclusive_ok:
  assumes "getUserPairExclusive i j w = Some (None, w')"
  shows "i \<noteq> j" "users w' i \<noteq> None" "users w' j \<noteq> None"
proof -
  show "i \<noteq> j" using assms by (auto simp: getUserPairExclusive_def Let_def split: prod.splits if_splits)
  show "users w' i \<noteq> None" "users w' j \<noteq> None" using getUserPairExclusive_frame(2) [OF assms] by auto
qed

lemma PerformOrderFill_cases:
  assumes run: "PerformOrderFillTransaction ar br price qty w = Some ((sa, sb, tr), w')"
  obtains (Skipped) "same_but_users w w'" "keeps_accounts w w'" "tr = None" "sa \<noteq> AskDone" "sb \<noteq> BidDone"
      "sa = AskAlreadyClosed \<longrightarrow> o_IsClosed (askObj w ar)" "sb = BidAlreadyClosed \<longrightarrow> o_IsClosed (bidObj w br)"
  | (Tried) w1 where "same_but_users w w1" "keeps_accounts w w1" "both_users ar br w1"
      "\<not> o_IsClosed (askObj w1 ar)" "\<not> o_IsClosed (bidObj w1 br)" "fill_outcome ar br price qty w1 sa sb tr w'"
proof -
  obtain ue w1 where g: "getUserPairExclusive (o_UserId (askObj w ar)) (o_UserId (bidObj w br)) w = Some (ue, w1)"
    using run by (auto simp: PerformOrderFillTransaction_def bind_eq_Some_conv)
  note f = getUserPairExclusive_frame(1) [OF g] and k = keeps_accounts_pair [OF g]
  have o: "askObj w1 = askObj w" "bidObj w1 = bidObj w" using f by (simp_all add: same_but_users_def)
  show ?thesis
  proof (cases "ue \<noteq> None \<or> o_IsClosed (askObj w1 ar) \<or> o_IsClosed (bidObj w1 br)")
    case True
    have "sa = (if ue = None \<and> o_IsClosed (askObj w1 ar) then AskAlreadyClosed else AskUndone) \<and>
        sb = (if ue = None \<and> o_IsClosed (bidObj w1 br) then BidAlreadyClosed else BidUndone) \<and> tr = None \<and> w' = w1"
      using run g True by (auto simp: PerformOrderFillTransaction_def Let_def split: if_splits)
    then show ?thesis using f k o by (intro Skipped) (auto split: if_splits)
  next
    case False
    then have ue: "ue = None" and op: "\<not> o_IsClosed (askObj w1 ar)" "\<not> o_IsClosed (bidObj w1 br)" by auto
    have b: "both_users ar br w1"
      using getUserPairExclusive_ok [OF g [unfolded ue]] o by (simp add: both_users_def)
    have "fill_open_orders ar br price qty w1 = Some ((sa, sb, tr), w')"
      using run g ue op by (simp add: PerformOrderFillTransaction_def Let_def)
    from fill_open_orders_ok [OF b this] show ?thesis by (rule Tried [OF f k b op])
  qed
qed

lemma PerformOrderFill_total:
  assumes "fillable w ar br"
  shows "\<exists>r w'. PerformOrderFillTransaction ar br price qty w = Some (r, w')"
proof -
  let ?au = "o_UserId (askObj w ar)" and ?bu = "o_UserId (bidObj w br)"
  obtain ue w1 where g: "getUserPairExclusive ?au ?bu w = Some (ue, w1)"
    using getUserPairExclusive_total [of ?au ?bu w] assms by (auto simp: fillable_def)
  have m: "askObj w1 = askObj w" "bidObj w1 = bidObj w" "allStocks w1 = allStocks w"
    using getUserPairExclusive_frame(1) [OF g] by (simp_all add: same_but_users_def)
  have "\<exists>r w'. fill_open_orders ar br price qty w1 = Some (r, w')" if ue: "ue = None"
  proof -
    have b: "both_users ar br w1"
      using getUserPairExclusive_ok [OF g [unfolded ue]] m by (simp add: both_users_def)
    obtain d w2 where p: "getPlaceOrderTransactionDetails (o_Id (bidObj w1 br)) False w1 = (d, w2)" by fastforce
    note f = deposit_frame [OF p]
    have b2: "both_users ar br w2" using b f(1) by (simp add: both_users_def same_mem_def)
    have fin: "\<exists>r w'. fill_finish ar br price qty aTr w4 = Some (r, w')"
      if ft: "fill_transaction ar br price qty askTr bidTr (fill_update ar br price qty reserved w2) = (tr, w4)"
      for aTr askTr bidTr reserved tr w4
    proof (rule fill_finish_total)
      have "same_mem ((fill_update ar br price qty reserved w2)\<lparr>users := users w4\<rparr>) w4"
        by (rule fill_transaction_ok(2) [OF fill_update_touched [OF b2] b2 ft])
      then show "o_StockId (askObj w4 ar) \<in> dom (allStocks w4)"
        using assms f(1) m by (simp add: same_mem_def fill_update_def Let_def ledger_simps fill_one_def fillable_def)
    qed
    show ?thesis
    proof (cases d)
      case (Inl e)
      then show ?thesis using p by (simp add: fill_open_orders_def)
    next
      case (Inr r)
      obtain rfo x where r: "r = (rfo, x)" by fastforce
      define reserved where "reserved = reserve_share rfo qty (o_StockQuantity (bidObj w1 br))"
      obtain tr w4 where ft: "fill_transaction ar br price qty
          (GetTransactionRef (o_UserId (askObj w1 ar)) (o_StockId (askObj w1 ar)) OrderFillTransaction
             (- qty) 0 price 0 (price * qty) (now w2))
          (GetTransactionRef (o_UserId (bidObj w1 br)) (o_StockId (bidObj w1 br)) OrderFillTransaction
             0 qty price (- reserved) (- (price * qty) + reserved) (now w2))
          (fill_update ar br price qty reserved w2) = (tr, w4)" by fastforce
      show ?thesis
      proof (cases "s_less (cash_left price qty reserved (usr w2 (o_UserId (bidObj w1 br)))) 0")
        case True
        then show ?thesis using p Inr r by (simp add: fill_open_orders_def Let_def reserved_def)
      next
        case False
        then show ?thesis using p Inr r ft fin [OF ft]
          by (cases tr) (simp_all add: fill_open_orders_def Let_def reserved_def)
      qed
    qed
  qed
  then show ?thesis using g by (auto simp: PerformOrderFillTransaction_def Let_def)
qed

text \<open>When no call fails, orders with a deposit and a bidder with the cash are traded.\<close>

lemma reliable_save_summary [simp]: "reliable (save_summary x)"
  by (simp add: save_summary_def)

lemma reliable_fill_rows: "list_all reliable (fill_rows ar br askTr bidTr askTax bidTax i w)"
  by (simp add: fill_rows_def Let_def split: option.splits)

lemma fill_transaction_nil:
  assumes "outcomes w = []"
  shows "\<exists>tr w'. fill_transaction ar br price qty askTr bidTr w = (Some tr, w') \<and> outcomes w' = []"
proof -
  let ?a = "askObj w ar" and ?b = "bidObj w br"
  obtain xa askTax w1 where 1: "getTaxForAskingUser (o_StockId ?a) qty price (o_UserId ?a) w (db w) = ((xa, askTax), w1)"
    by (metis prod.collapse)
  then have o1: "outcomes w1 = []" using tax_frame(5) assms by blast
  obtain w2 t2 where 2: "save_summary xa (w1, db w) = (True, w2, t2)" "outcomes w2 = []"
    using reliable_save_summary [of xa] o1 unfolding reliable_def by blast
  obtain xb bidTax w3 where 3: "getTaxForBiddingUser (o_StockId ?b) qty price (o_UserId ?b) w2 t2 = ((xb, bidTax), w3)"
    by (metis prod.collapse)
  then have o3: "outcomes w3 = []" using tax_frame(5) 2(2) by blast
  obtain w4 t4 where 4: "save_summary xb (w3, t2) = (True, w4, t4)" "outcomes w4 = []"
    using reliable_save_summary [of xb] o3 unfolding reliable_def by blast
  obtain w5 t5 where 5: "tx_seq (fill_rows ar br askTr bidTr askTax bidTax (nextId w4) w4) (w4, t4) = (True, w5, t5)"
    "outcomes w5 = []"
    using reliable_seq [OF reliable_fill_rows 4(2)] by blast
  show ?thesis using 1 2 3 4 5 by (simp add: fill_transaction_def Let_def commit_tx_def)
qed

lemma PerformOrderFill_live:
  assumes "fillable w ar br" "\<not> o_IsClosed (askObj w ar)" "\<not> o_IsClosed (bidObj w br)" "outcomes w = []"
    and u: "users w (o_UserId (askObj w ar)) \<noteq> None" "users w (o_UserId (bidObj w br)) \<noteq> None"
    and dep: "deposit_rows (o_Id (bidObj w br)) False (db w) = tr # rest"
    and cash: "\<not> s_less (cash_left price qty (reserve_share (- t_Total tr) qty (o_StockQuantity (bidObj w br)))
      (usr w (o_UserId (bidObj w br)))) 0"
  shows "\<exists>sa sb t w'. PerformOrderFillTransaction ar br price qty w = Some ((sa, sb, Some t), w')"
proof -
  let ?a = "askObj w ar" and ?b = "bidObj w br"
  have g1: "getUserExclusively i w = (None, w)" if "users w i \<noteq> None" for i
    using that by (auto simp: getUserExclusively_def)
  have pair: "getUserPairExclusive (o_UserId ?a) (o_UserId ?b) w = Some (None, w)"
    using assms(1) g1 [OF u(1)] g1 [OF u(2)] by (auto simp: getUserPairExclusive_def fillable_def Let_def)
  have d: "getPlaceOrderTransactionDetails (o_Id ?b) False w = (Inr (- t_Total tr, t_StockQuantity tr), w)"
    using assms(4) dep by (simp add: getPlaceOrderTransactionDetails_def)
  define reserved where "reserved = reserve_share (- t_Total tr) qty (o_StockQuantity ?b)"
  let ?w2 = "fill_update ar br price qty reserved w"
  have o2: "outcomes ?w2 = []" using assms(4) by (simp add: fill_update_def Let_def ledger_simps)
  obtain t w3 where ft: "fill_transaction ar br price qty
          (GetTransactionRef (o_UserId ?a) (o_StockId ?a) OrderFillTransaction (- qty) 0 price 0 (price * qty) (now w))
          (GetTransactionRef (o_UserId ?b) (o_StockId ?b) OrderFillTransaction 0 qty price (- reserved)
            (- (price * qty) + reserved) (now w)) ?w2 = (Some t, w3)"
    using fill_transaction_nil [OF o2] by blast
  have run: "fill_open_orders ar br price qty w = fill_finish ar br price qty t w3"
    using d ft cash by (simp add: fill_open_orders_def Let_def reserved_def)
  obtain r w' where "PerformOrderFillTransaction ar br price qty w = Some (r, w')"
    using PerformOrderFill_total [OF assms(1), of price qty] by blast
  moreover have "PerformOrderFillTransaction ar br price qty w = fill_finish ar br price qty t w3"
    using pair assms(2,3) run by (simp add: PerformOrderFillTransaction_def)
  ultimately show ?thesis by (cases r) (auto dest: fill_finish_ok(8))
qed

section \<open>No object is made\<close>

text \<open>Filling orders makes no new order object.\<close>

lemma db_ok_nextRef: "db_ok w = (ok, w') \<Longrightarrow> nextRef w' = nextRef w"
  by (drule db_ok_same) (simp add: same_mem_def)

lemma quiet_nextRef: "list_all quiet ops \<Longrightarrow> tx_seq ops (w, t) = (ok, w', t') \<Longrightarrow> nextRef w' = nextRef w"
  by (drule (1) quiet_seq) (simp add: same_mem_def)

lemma Bid_Close_nextRef: "Bid_Close r (w, t) = (e, w', t') \<Longrightarrow> nextRef w' = nextRef w"
  by (auto simp: Bid_Close_def Let_def set_bid_def dest!: db_ok_nextRef split: prod.splits if_splits)

lemma saveBidCancel_nextRef:
  assumes run: "saveBidCancelOrderTransaction r i (w, t) = (e, w', t')"
  shows "nextRef w' = nextRef w"
proof -
  obtain d w1 where g: "getPlaceOrderTransactionDetails (o_Id (bidObj w r)) False w = (d, w1)" by fastforce
  have 1: "nextRef w1 = nextRef w" using deposit_frame(1) [OF g] by (simp add: same_mem_def)
  show ?thesis
    using run g 1 quiet_nextRef
    by (auto simp: saveBidCancelOrderTransaction_def Let_def ledger_simps simp del: tx_seq.simps
        split: sum.splits prod.splits if_splits dest!: quiet_nextRef [rotated])
qed

lemma commit_tx_nextRef: "commit_tx (w, t) = (ok, w') \<Longrightarrow> nextRef w' = nextRef w"
  by (auto simp: commit_tx_def Let_def dest!: db_ok_nextRef split: prod.splits if_splits)

lemma fill_world_nextRef [simp]:
  "nextRef (fill_revert ar br w0 w) = nextRef w" "nextRef (fill_update ar br p q m w) = nextRef w"
  by (simp_all add: fill_revert_def fill_update_def Let_def ledger_simps)

lemma fill_no_cash_nextRef:
  assumes "fill_no_cash ar br w0 w = (r, w')"
  shows "nextRef w' = nextRef w"
  using assms
  by (auto simp: fill_no_cash_def Let_def split: prod.splits if_splits
      dest!: Bid_Close_nextRef saveBidCancel_nextRef commit_tx_nextRef)

lemma tax_nextRef:
  "getTaxForAskingUser s q p i w t = (r, w') \<Longrightarrow> nextRef w' = nextRef w"
  "getTaxForBiddingUser s q p i w t = (r, w') \<Longrightarrow> nextRef w' = nextRef w"
  using tax_frame(2) [of s q p i w t "fst r" "snd r" w'] by (auto simp: same_mem_def)

lemma save_summary_nextRef: "save_summary x (w, t) = (ok, w', t') \<Longrightarrow> nextRef w' = nextRef w"
  using quietD [OF quiet_save_summary] by (auto simp: same_mem_def)

lemma fill_transaction_nextRef:
  assumes "fill_transaction ar br p q askTr bidTr w = (r, w')"
  shows "nextRef w' = nextRef w"
  using assms
  by (auto simp: fill_transaction_def Let_def split: prod.splits if_splits
      dest!: tax_nextRef save_summary_nextRef quiet_nextRef [OF quiet_fill_rows] commit_tx_nextRef)

lemma UpdateStock_nextRef:
  "UpdateStockVolume s q w = Some w' \<Longrightarrow> nextRef w' = nextRef w"
  "UpdateStockPrice s p q w = (e, w') \<Longrightarrow> nextRef w' = nextRef w"
  by (auto simp: UpdateStockVolume_def UpdateStockPrice_def Let_def set_stock_def dest!: db_ok_nextRef
      split: option.splits prod.splits if_splits)

lemma fill_finish_nextRef:
  assumes "fill_finish ar br p q tr w = Some (r, w')"
  shows "nextRef w' = nextRef w"
proof -
  obtain w1 where v: "UpdateStockVolume (o_StockId (askObj w ar)) q w = Some w1"
    "w' = snd (UpdateStockPrice (o_StockId (askObj w ar)) p q w1)"
    using assms by (auto simp: fill_finish_def Let_def bind_eq_Some_conv)
  then show ?thesis using UpdateStock_nextRef(1) [OF v(1)] UpdateStock_nextRef(2) by (metis prod.collapse)
qed

lemma fill_open_orders_nextRef:
  assumes "fill_open_orders ar br p q w = Some (r, w')"
  shows "nextRef w' = nextRef w"
proof -
  obtain d w1 where g: "getPlaceOrderTransactionDetails (o_Id (bidObj w br)) False w = (d, w1)" by fastforce
  have 1: "nextRef w1 = nextRef w" using deposit_frame(1) [OF g] by (simp add: same_mem_def)
  show ?thesis
    using assms g 1
    by (auto simp: fill_open_orders_def Let_def split: sum.splits prod.splits if_splits option.splits
        dest!: fill_no_cash_nextRef fill_transaction_nextRef fill_finish_nextRef)
qed

lemma PerformOrderFill_nextRef:
  assumes "PerformOrderFillTransaction ar br p q w = Some (r, w')"
  shows "nextRef w' = nextRef w"
proof -
  obtain ue w1 where g: "getUserPairExclusive (o_UserId (askObj w ar)) (o_UserId (bidObj w br)) w = Some (ue, w1)"
    using assms by (auto simp: PerformOrderFillTransaction_def bind_eq_Some_conv)
  have "nextRef w1 = nextRef w" using getUserPairExclusive_frame(1) [OF g] by (simp add: same_but_users_def)
  then show ?thesis using assms g
    by (auto simp: PerformOrderFillTransaction_def Let_def split: if_splits dest!: fill_open_orders_nextRef)
qed

section \<open>The contract of the order book\<close>

lemma kin_of_fields: "o_Id y = o_Id x \<Longrightarrow> o_UserId y = o_UserId x \<Longrightarrow> o_StockId y = o_StockId x \<Longrightarrow> o_Price y = o_Price x \<Longrightarrow>
  o_StockQuantity y = o_StockQuantity x \<Longrightarrow> (o_IsClosed x \<longrightarrow> o_IsClosed y) \<Longrightarrow> kin x y"
  by (simp add: kin_def)

lemma fill_outcome_evolves:
  assumes out: "fill_outcome ar br price qty w sa sb tr w'"
    and op: "\<not> o_IsClosed (askObj w ar)" "\<not> o_IsClosed (bidObj w br)" and nr: "nextRef w' = nextRef w"
  shows "evolves w w'" "\<forall>r. same_prio (askObj w r) (askObj w' r)" "\<forall>r. same_prio (bidObj w r) (bidObj w' r)"
    "sa \<noteq> AskUndone \<longrightarrow> o_IsClosed (askObj w' ar)" "sb \<noteq> BidUndone \<longrightarrow> o_IsClosed (bidObj w' br)"
proof -
  have "(\<exists>x. askObj w' = (askObj w)(ar := x) \<and> kin (askObj w ar) x \<and> same_prio (askObj w ar) x) \<and>
    (\<exists>x. bidObj w' = (bidObj w)(br := x) \<and> kin (bidObj w br) x \<and> same_prio (bidObj w br) x) \<and>
    dom (allStocks w') = dom (allStocks w) \<and>
    (sa \<noteq> AskUndone \<longrightarrow> o_IsClosed (askObj w' ar)) \<and> (sb \<noteq> BidUndone \<longrightarrow> o_IsClosed (bidObj w' br))"
  proof -
    consider (A) "sa = AskUndone" "sb = BidUndone" "restored br w w'"
      | (B) "sa = AskUndone" "sb = BidDone" "bid_refunded br w w'"
      | (C) tr' where "traded ar br price qty w w' tr'" "sa = (if o_IsClosed (askObj w' ar) then AskDone else AskUndone)"
          "sb = (if o_IsClosed (bidObj w' br) then BidDone else BidUndone)"
      using out unfolding fill_outcome_def by blast
    then show ?thesis
    proof cases
      case A
      then obtain t where "bidObj w' = (bidObj w)(br := (bidObj w br)\<lparr>o_UpdatedAt := t\<rparr>)" "askObj w' = askObj w"
        "allStocks w' = allStocks w" by (auto simp: restored_def)
      then show ?thesis using A(1,2)
        by (intro conjI exI [of _ "askObj w ar"] exI [of _ "(bidObj w br)\<lparr>o_UpdatedAt := t\<rparr>"])
          (simp_all add: kin_def same_prio_def)
    next
      case B
      then obtain t where "bidObj w' = (bidObj w)(br := (bidObj w br)\<lparr>o_IsClosed := True, o_UpdatedAt := t\<rparr>)"
        "askObj w' = askObj w" "allStocks w' = allStocks w" by (auto simp: bid_refunded_def Let_def)
      then show ?thesis using B(1,2)
        by (intro conjI exI [of _ "askObj w ar"] exI [of _ "(bidObj w br)\<lparr>o_IsClosed := True, o_UpdatedAt := t\<rparr>"])
          (simp_all add: kin_def same_prio_def)
    next
      case C
      then have "askObj w' = (askObj w)(ar := fill_one qty (askObj w ar))"
        "bidObj w' = (bidObj w)(br := fill_one qty (bidObj w br))" "dom (allStocks w') = dom (allStocks w)"
        by (auto simp: traded_def Let_def)
      then show ?thesis using C(2,3) op
        by (intro conjI exI [of _ "fill_one qty (askObj w ar)"] exI [of _ "fill_one qty (bidObj w br)"])
          (simp_all add: kin_def same_prio_def fill_one_def)
    qed
  qed
  then show "evolves w w'" "\<forall>r. same_prio (askObj w r) (askObj w' r)" "\<forall>r. same_prio (bidObj w r) (bidObj w' r)"
    "sa \<noteq> AskUndone \<longrightarrow> o_IsClosed (askObj w' ar)" "sb \<noteq> BidUndone \<longrightarrow> o_IsClosed (bidObj w' br)"
    by (auto simp: evolves_def nr split: if_splits)
qed

lemma PerformOrderFill_evolves:
  assumes run: "PerformOrderFillTransaction ar br price qty w = Some ((sa, sb, tr), w')"
  shows "evolves w w'" "\<forall>r. same_prio (askObj w r) (askObj w' r)" "\<forall>r. same_prio (bidObj w r) (bidObj w' r)"
    "sa \<noteq> AskUndone \<longrightarrow> o_IsClosed (askObj w' ar)" "sb \<noteq> BidUndone \<longrightarrow> o_IsClosed (bidObj w' br)"
proof -
  have nr: "nextRef w' = nextRef w" by (rule PerformOrderFill_nextRef [OF run])
  have "evolves w w' \<and> (\<forall>r. same_prio (askObj w r) (askObj w' r)) \<and> (\<forall>r. same_prio (bidObj w r) (bidObj w' r)) \<and>
    (sa \<noteq> AskUndone \<longrightarrow> o_IsClosed (askObj w' ar)) \<and> (sb \<noteq> BidUndone \<longrightarrow> o_IsClosed (bidObj w' br))"
  proof (rule PerformOrderFill_cases [OF run])
    assume s: "same_but_users w w'" "sa \<noteq> AskDone" "sb \<noteq> BidDone"
      "sa = AskAlreadyClosed \<longrightarrow> o_IsClosed (askObj w ar)" "sb = BidAlreadyClosed \<longrightarrow> o_IsClosed (bidObj w br)"
    then have "askObj w' = askObj w" "bidObj w' = bidObj w" "allStocks w' = allStocks w"
      by (simp_all add: same_but_users_def)
    then show ?thesis using s(2-5) nr by (cases sa; cases sb) (simp_all add: evolves_def)
  next
    fix w1
    assume t: "same_but_users w w1" "\<not> o_IsClosed (askObj w1 ar)" "\<not> o_IsClosed (bidObj w1 br)"
      "fill_outcome ar br price qty w1 sa sb tr w'"
    have "askObj w1 = askObj w" "bidObj w1 = bidObj w" "allStocks w1 = allStocks w" "nextRef w1 = nextRef w"
      using t(1) by (simp_all add: same_but_users_def)
    then show ?thesis using fill_outcome_evolves [OF t(4,2,3)] nr by (simp add: evolves_def)
  qed
  then show "evolves w w'" "\<forall>r. same_prio (askObj w r) (askObj w' r)" "\<forall>r. same_prio (bidObj w r) (bidObj w' r)"
    "sa \<noteq> AskUndone \<longrightarrow> o_IsClosed (askObj w' ar)" "sb \<noteq> BidUndone \<longrightarrow> o_IsClosed (bidObj w' br)" by blast+
qed

interpretation fills: fill_order PerformOrderFillTransaction
proof (unfold_locales, goal_cases)
  case (1 w a b p q)
  then show ?case by (rule PerformOrderFill_total)
next
  case (2 a b p q w res w')
  obtain sa sb tr where "res = (sa, sb, tr)" by (cases res) auto
  then show ?case using PerformOrderFill_evolves(1-3) [of a b p q w sa sb tr w'] 2 by simp
next
  case (3 a b p q w sa sb tr w')
  then show ?case using PerformOrderFill_evolves(4,5) by blast
qed

section \<open>The accounts\<close>

lemma total_of_taxes:
  assumes "\<forall>x \<in> set (rows_of tt). tax_row i x"
  shows "total_of j (rows_of tt) = (if j = i then - tax_amount tt else 0)"
  using assms by (cases tt) (auto simp: rows_of_def tax_amount_def tax_row_def)

lemma traded_accounts:
  assumes b: "both_users ar br w" and tr: "traded ar br price qty w w' tr'"
  shows "keeps_accounts w w'"
proof -
  let ?a = "askObj w ar" and ?b = "bidObj w br"
  let ?au = "o_UserId ?a" and ?bu = "o_UserId ?b"
  obtain u v where u: "users w ?au = Some u" and v: "users w ?bu = Some v" and ne: "?au \<noteq> ?bu"
    using b by (auto simp: both_users_def)
  obtain reserved askTax bidTax t where x:
    "users w' = (users w)(?au \<mapsto> taxed askTax (fill_asking_user price qty u),
                          ?bu \<mapsto> taxed bidTax (fill_bidding_user price qty reserved v))"
    "\<forall>x \<in> set (rows_of askTax). tax_row (u_Id u) x" "\<forall>x \<in> set (rows_of bidTax). tax_row (u_Id v) x"
    "adds_tx ([GetTransactionRef ?au (o_StockId ?a) OrderFillTransaction (- qty) 0 price 0 (price * qty) t,
               GetTransactionRef ?bu (o_StockId ?b) OrderFillTransaction 0 qty price (- reserved)
                    (- (price * qty) + reserved) t] @ rows_of askTax @ rows_of bidTax) (db w) (db w')"
    "Users (db w') = upsert u_Id (usr w' ?bu) (upsert u_Id (usr w' ?au) (Users (db w)))"
    using tr unfolding traded_def Let_def usr_Some [OF u] usr_Some [OF v] by blast
  let ?u' = "taxed askTax (fill_asking_user price qty u)"
  let ?v' = "taxed bidTax (fill_bidding_user price qty reserved v)"
  have us: "usr w' ?au = ?u'" "usr w' ?bu = ?v'" using x(1) ne by (simp_all add: usr_def)
  define trs where "trs = [GetTransactionRef ?au (o_StockId ?a) OrderFillTransaction (- qty) 0 price 0 (price * qty) t,
               GetTransactionRef ?bu (o_StockId ?b) OrderFillTransaction 0 qty price (- reserved)
                    (- (price * qty) + reserved) t] @ rows_of askTax @ rows_of bidTax"
  show ?thesis
  proof (cases "keyed w")
    case False
    then show ?thesis by (simp add: keeps_accounts_def)
  next
    case True
    then have ids: "u_Id u = ?au \<or> u_Id u = 0" "u_Id v = ?bu \<or> u_Id v = 0"
      using u v by (auto simp: keyed_def)
    show ?thesis
    proof (rule keeps_accounts_two [OF ne u _ v _ x(1)])
      show "adds_tx trs (db w) (db w')" using x(4) by (simp add: trs_def)
      show "Users (db w') = upsert u_Id ?v' (upsert u_Id ?u' (Users (db w)))" using x(5) us by simp
      show "t_UserId y = ?au \<or> t_UserId y = ?bu \<or> t_UserId y = 0" if "y \<in> set trs" for y
        using that x(2,3) ids by (auto simp: trs_def ledger_simps tax_row_def)
      show "u_Cash ?u' = u_Cash u + total_of ?au trs" if "u_Id u = ?au" "?au \<noteq> 0"
      proof -
        have "u_Id v \<noteq> ?au" using ids(2) ne that(2) by auto
        then show ?thesis using that ne
          by (simp add: trs_def ledger_simps total_of_taxes [OF x(2)] total_of_taxes [OF x(3)]
              taxed_def fill_asking_user_def mult.commute)
      qed
      show "u_Cash ?v' = u_Cash v + total_of ?bu trs" if "u_Id v = ?bu" "?bu \<noteq> 0"
      proof -
        have "u_Id u \<noteq> ?bu" using ids(1) ne that(2) by auto
        then show ?thesis using that ne
          by (simp add: trs_def ledger_simps total_of_taxes [OF x(2)] total_of_taxes [OF x(3)]
              taxed_def fill_bidding_user_def cash_left_def)
      qed
    qed (simp_all add: taxed_def fill_asking_user_def fill_bidding_user_def)
  qed
qed

lemma refunded_accounts:
  assumes b: "both_users ar br w" and r: "bid_refunded br w w'"
  shows "keeps_accounts w w'"
proof -
  let ?b = "bidObj w br"
  let ?bu = "o_UserId ?b"
  obtain v where v: "users w ?bu = Some v" using b by (auto simp: both_users_def)
  obtain m t where x: "users w' = (users w)(?bu \<mapsto> refund_user m v)"
    "adds_tx [refund_tx (u_Id v) (o_StockId ?b) m t] (db w) (db w')"
    "Users (db w') = upsert u_Id (refund_user m v) (Users (db w))"
    using r unfolding bid_refunded_def Let_def usr_Some [OF v] by blast
  show ?thesis
  proof (cases "keyed w")
    case False
    then show ?thesis by (simp add: keeps_accounts_def)
  next
    case True
    then have "u_Id v = ?bu \<or> u_Id v = 0" using v by (auto simp: keyed_def)
    then show ?thesis
      by (intro keeps_accounts_one [OF v x(1) _ _ _ x(2)])
        (auto simp: x(3) refund_user_def refund_tx_def ledger_simps)
  qed
qed

lemma PerformOrderFill_accounts:
  assumes run: "PerformOrderFillTransaction ar br price qty w = Some ((sa, sb, tr), w')"
  shows "keeps_accounts w w'"
proof (rule PerformOrderFill_cases [OF run])
  fix w1
  assume t: "keeps_accounts w w1" "both_users ar br w1" "fill_outcome ar br price qty w1 sa sb tr w'"
  have "keeps_accounts w1 w'"
    using t(3) traded_accounts [OF t(2)] refunded_accounts [OF t(2)]
    by (auto simp: fill_outcome_def restored_def intro: keeps_accounts_undone)
  then show ?thesis using t(1) keeps_accounts_trans by blast
qed

section \<open>What a trade moves\<close>

text \<open>Shares are neither made nor lost: what leaves the asker's reserve arrives at the bidder.\<close>

lemma tax_rows_no_shares:
  assumes "\<forall>x \<in> set (rows_of tt). tax_row i x"
  shows "sum_list (map (\<lambda>x. t_StockQuantity x + t_ReservedStockQuantity x) (filter P (rows_of tt))) = 0"
  using assms by (cases tt) (auto simp: rows_of_def tax_row_def)

lemma traded_shares:
  assumes tr: "traded ar br price qty w w' tr'" and s: "o_StockId (askObj w ar) = o_StockId (bidObj w br)"
  shows "sum_tx (\<lambda>x. t_StockQuantity x + t_ReservedStockQuantity x) (\<lambda>x. t_StockId x = sid) (db w') =
    sum_tx (\<lambda>x. t_StockQuantity x + t_ReservedStockQuantity x) (\<lambda>x. t_StockId x = sid) (db w)"
proof -
  let ?a = "askObj w ar" and ?b = "bidObj w br"
  let ?au = "o_UserId ?a" and ?bu = "o_UserId ?b"
  obtain reserved askTax bidTax t where x:
    "\<forall>x \<in> set (rows_of askTax). tax_row (u_Id (usr w ?au)) x" "\<forall>x \<in> set (rows_of bidTax). tax_row (u_Id (usr w ?bu)) x"
    "adds_tx ([GetTransactionRef ?au (o_StockId ?a) OrderFillTransaction (- qty) 0 price 0 (price * qty) t,
               GetTransactionRef ?bu (o_StockId ?b) OrderFillTransaction 0 qty price (- reserved)
                    (- (price * qty) + reserved) t] @ rows_of askTax @ rows_of bidTax) (db w) (db w')"
    using tr unfolding traded_def Let_def by blast
  note add = sum_tx_adds [OF x(3), of "\<lambda>x. t_StockQuantity x + t_ReservedStockQuantity x" "\<lambda>x. t_StockId x = sid"]
  have "filter (\<lambda>x. t_StockId x = sid) (rows_of askTax @ rows_of bidTax) =
      filter (\<lambda>x. t_StockId x = sid) (rows_of askTax) @ filter (\<lambda>x. t_StockId x = sid) (rows_of bidTax)" by simp
  then show ?thesis
    using add tax_rows_no_shares [OF x(1), of "\<lambda>x. t_StockId x = sid"] tax_rows_no_shares [OF x(2), of "\<lambda>x. t_StockId x = sid"]
    by (simp add: ledger_simps s)
qed

text \<open>The trade seen from the state the fill was called in, when both users are in memory.\<close>

lemma PerformOrderFill_traded:
  assumes run: "PerformOrderFillTransaction ar br price qty w = Some ((sa, sb, Some tr), w')"
    and u: "users w (o_UserId (askObj w ar)) = Some ua" "users w (o_UserId (bidObj w br)) = Some ub"
  obtains w1 where "same_but_users w w1" "traded ar br price qty w1 w' tr"
    "usr w1 (o_UserId (askObj w ar)) = ua" "usr w1 (o_UserId (bidObj w br)) = ub"
    "sa = (if o_IsClosed (askObj w' ar) then AskDone else AskUndone)"
    "sb = (if o_IsClosed (bidObj w' br) then BidDone else BidUndone)"
proof (rule PerformOrderFill_cases [OF run])
  fix w1 assume s: "same_but_users w w1" and f: "fill_outcome ar br price qty w1 sa sb (Some tr) w'"
  have "usr w1 (o_UserId (askObj w ar)) = ua" "usr w1 (o_UserId (bidObj w br)) = ub"
    using s u by (auto simp: same_but_users_def)
  then show ?thesis using that [OF s] f by (auto simp: fill_outcome_def)
qed simp

end
