(* ===== verification/Order_Frames.thy ===== *)
theory Order_Frames
  imports Cancelling Exchange_Proofs Trading
begin

text \<open>
  What the operations of the \<^verbatim>\<open>models\<close> package leave of the order objects. The matching engine
  keeps references to them in its queues, and a queue is in order as long as the priorities
  of its orders stay what they are. \<open>objs_kept A B\<close> says that of the objects there were, only
  asks in \<open>A\<close> and bids in \<open>B\<close> have changed in priority, and none has changed its stock.
\<close>

definition objs_kept :: "ref set \<Rightarrow> ref set \<Rightarrow> world \<Rightarrow> world \<Rightarrow> bool" where
  "objs_kept A B w w' \<longleftrightarrow> nextRef w \<le> nextRef w' \<and> dom (allStocks w') = dom (allStocks w) \<and>
     (\<forall>r < nextRef w. o_StockId (askObj w' r) = o_StockId (askObj w r) \<and>
        o_StockId (bidObj w' r) = o_StockId (bidObj w r) \<and>
        (r \<notin> A \<longrightarrow> same_prio (askObj w r) (askObj w' r)) \<and> (r \<notin> B \<longrightarrow> same_prio (bidObj w r) (bidObj w' r)))"

lemma objs_keptI:
  assumes "nextRef w' = nextRef w" "dom (allStocks w') = dom (allStocks w)"
    and "\<And>r. o_StockId (askObj w' r) = o_StockId (askObj w r)" "\<And>r. o_StockId (bidObj w' r) = o_StockId (bidObj w r)"
    and "\<And>r. r \<notin> A \<Longrightarrow> same_prio (askObj w r) (askObj w' r)" "\<And>r. r \<notin> B \<Longrightarrow> same_prio (bidObj w r) (bidObj w' r)"
  shows "objs_kept A B w w'"
  using assms by (simp add: objs_kept_def)

lemma objs_kept_same:
  "askObj w' = askObj w \<Longrightarrow> bidObj w' = bidObj w \<Longrightarrow> nextRef w' = nextRef w \<Longrightarrow>
   dom (allStocks w') = dom (allStocks w) \<Longrightarrow> objs_kept A B w w'"
  by (simp add: objs_kept_def)

lemma objs_kept_refl [simp]: "objs_kept A B w w"
  by (simp add: objs_kept_def)

lemma objs_kept_trans: "objs_kept A B w w1 \<Longrightarrow> objs_kept A B w1 w2 \<Longrightarrow> objs_kept A B w w2"
  by (auto simp: objs_kept_def same_prio_def)

lemma objs_kept_mono: "objs_kept A B w w' \<Longrightarrow> A \<subseteq> A' \<Longrightarrow> B \<subseteq> B' \<Longrightarrow> objs_kept A' B' w w'"
  unfolding objs_kept_def by blast

lemma objs_kept_mem: "same_mem w w' \<Longrightarrow> objs_kept A B w w'"
  by (rule objs_kept_same) (simp_all add: same_mem_def)

lemma objs_kept_users: "same_but_users w w' \<Longrightarrow> objs_kept A B w w'"
  by (rule objs_kept_same) (simp_all add: same_but_users_def)

lemma objs_kept_db [simp]:
  "objs_kept A B w (w'\<lparr>db := d\<rparr>) = objs_kept A B w w'" "objs_kept A B (w\<lparr>db := d\<rparr>) w' = objs_kept A B w w'"
  "objs_kept A B w (set_user i u w') = objs_kept A B w w'" "objs_kept A B (set_user i u w) w' = objs_kept A B w w'"
  by (simp_all add: objs_kept_def set_user_def)

text \<open>New objects are not among those there were.\<close>

lemma objs_kept_new:
  "objs_kept A B w (snd (new_ask x w))" "objs_kept A B w (snd (new_bid x w))"
  by (auto simp: objs_kept_def new_ask_def new_bid_def set_ask_def set_bid_def)

lemma objs_kept_drop:
  "objs_kept A B w w' \<Longrightarrow> nextRef w \<le> r \<Longrightarrow> objs_kept (A - {r}) (B - {r}) w w'"
  unfolding objs_kept_def by (metis Diff_iff insertI1 leD singletonD)

section \<open>Operations of a transaction\<close>

definition keeps_objs :: "ref set \<Rightarrow> ref set \<Rightarrow> txop \<Rightarrow> bool" where
  "keeps_objs A B op \<longleftrightarrow> (\<forall>w t ok w' t'. op (w, t) = (ok, w', t') \<longrightarrow> objs_kept A B w w')"

lemma keeps_objsD: "keeps_objs A B op \<Longrightarrow> op (w, t) = (ok, w', t') \<Longrightarrow> objs_kept A B w w'"
  unfolding keeps_objs_def by blast

lemma keeps_objs_quiet [simp]: "quiet op \<Longrightarrow> keeps_objs A B op"
  unfolding keeps_objs_def by (blast dest: quietD objs_kept_mem)

lemma keeps_objs_changed [simp]: "keeps_objs A B (save_changed i f)"
  unfolding keeps_objs_def save_changed_def
proof (intro allI impI)
  fix w t ok w' t'
  assume "(\<lambda>(w, t). tx_save (save_user (f (usr w i))) (set_user i (f (usr w i)) w, t)) (w, t) = (ok, w', t')"
  then have "tx_save (save_user (f (usr w i))) (set_user i (f (usr w i)) w, t) = (ok, w', t')" by simp
  from keeps_objsD [OF keeps_objs_quiet [OF quiet_save] this, of A B] show "objs_kept A B w w'" by simp
qed

lemma keeps_objs_cash [simp]:
  "keeps_objs A B (SubtractUserCash i m)" "keeps_objs A B (AddUserReservedCash i m)"
  by (simp_all add: SubtractUserCash_changed AddUserReservedCash_changed)

lemma keeps_objs_create [simp]: "keeps_objs {r} B (createAsk r)" "keeps_objs A {r} (createBid r)"
proof -
  have "objs_kept {r} B w w'" if run: "createAsk r (w, t) = (ok, w', t')" for w t ok w' t'
  proof -
    note f = createAsk_frame [OF run]
    have "nextRef w' = nextRef w"
      using run by (auto simp: createAsk_def Let_def set_ask_def dest!: db_ok_nextRef split: prod.splits if_splits)
    then show ?thesis using f(2,3,6) by (intro objs_keptI) auto
  qed
  then show "keeps_objs {r} B (createAsk r)" by (simp add: keeps_objs_def)
  have "objs_kept A {r} w w'" if run: "createBid r (w, t) = (ok, w', t')" for w t ok w' t'
  proof -
    note f = createBid_frame [OF run]
    have "nextRef w' = nextRef w"
      using run by (auto simp: createBid_def Let_def set_bid_def dest!: db_ok_nextRef split: prod.splits if_splits)
    then show ?thesis using f(2,3,6) by (intro objs_keptI) auto
  qed
  then show "keeps_objs A {r} (createBid r)" by (simp add: keeps_objs_def)
qed

lemma keeps_objs_seq:
  "list_all (keeps_objs A B) ops \<Longrightarrow> tx_seq ops (w, t) = (ok, w', t') \<Longrightarrow> objs_kept A B w w'"
proof (induction ops arbitrary: w t)
  case (Cons op ops)
  obtain ok1 w1 t1 where s: "op (w, t) = (ok1, w1, t1)" by (metis prod.exhaust)
  have 1: "objs_kept A B w w1" using Cons.prems(1) s keeps_objsD by fastforce
  show ?case
  proof (cases ok1)
    case True
    then have "objs_kept A B w1 w'" using Cons s by simp
    then show ?thesis using 1 objs_kept_trans by blast
  qed (use Cons.prems s 1 in simp)
qed simp

lemma keeps_objs_run:
  assumes "list_all (keeps_objs A B) ops" "tx_run ops w = (ok, w')"
  shows "objs_kept A B w w'"
proof -
  obtain ok1 w1 t1 where s: "tx_seq ops (w, db w) = (ok1, w1, t1)" by (metis prod.exhaust)
  obtain ok2 w2 where c: "db_ok w1 = (ok2, w2)" by fastforce
  have 1: "objs_kept A B w w1" by (rule keeps_objs_seq [OF assms(1) s])
  have "objs_kept A B w1 w2" using db_ok_same [OF c] objs_kept_mem by blast
  then have "objs_kept A B w w2" using 1 objs_kept_trans by blast
  then show ?thesis using assms(2) s c 1 by (auto simp: tx_run_def split: bool.splits if_splits)
qed

section \<open>Placing\<close>

lemma keeps_objs_place [simp]: "keeps_objs A B (place_op g tr isAsk)"
  by simp

lemma keeps_objs_placing:
  "list_all (keeps_objs {r} {}) (ask_order_ops i r fee short price w)"
  "list_all (keeps_objs {} {r}) (bid_order_ops i r fee m w)"
  by (simp_all add: ask_order_ops_eq bid_order_ops_eq)

lemma PlaceAsk_commit_objs:
  assumes "PlaceAsk_commit i r fee short price w = (res, w')"
  shows "objs_kept {r} {} w w'"
proof -
  obtain ok w1 where t: "tx_run (ask_order_ops i r fee short price w) w = (ok, w1)" by fastforce
  note k = keeps_objs_run [OF keeps_objs_placing(1) t]
  show ?thesis using assms t k by (auto simp: PlaceAsk_commit_def Let_def split: if_splits)
qed

lemma PlaceBid_commit_objs:
  assumes "PlaceBid_commit i r fee m w = (res, w')"
  shows "objs_kept {} {r} w w'"
proof -
  obtain ok w1 where t: "tx_run (bid_order_ops i r fee m w) w = (ok, w1)" by fastforce
  note k = keeps_objs_run [OF keeps_objs_placing(2) t]
  show ?thesis using assms t k by (auto simp: PlaceBid_commit_def Let_def split: if_splits)
qed

lemma order_price_check_stock:
  "order_price_check x w = Some e \<Longrightarrow> o_StockId x \<in> dom (allStocks w)"
  by (auto simp: order_price_check_def bind_eq_Some_conv)

lemma PlaceAskOrder_objs:
  assumes run: "PlaceAskOrder i r w = Some ((oid, e), w')"
  shows "objs_kept {r} {} w w'" "e = None \<Longrightarrow> o_StockId (askObj w r) \<in> dom (allStocks w)"
proof -
  have "objs_kept {r} {} w w' \<and> (e = None \<longrightarrow> o_StockId (askObj w r) \<in> dom (allStocks w))"
  proof (cases rule: PlaceAskOrder_cases [OF run])
    case (1 w1)
    then show ?thesis using objs_kept_users objs_kept_mem objs_kept_trans by blast
  next
    case (2 w1 w2 u fee short price)
    then have "objs_kept {r} {} w w1"
      using getUserExclusively_frame(1) objs_kept_users by blast
    then show ?thesis
      using objs_kept_mem [OF 2(2)] PlaceAsk_commit_objs [OF 2(7)] objs_kept_trans order_price_check_stock [OF 2(8)]
      by blast
  qed
  then show "objs_kept {r} {} w w'" "e = None \<Longrightarrow> o_StockId (askObj w r) \<in> dom (allStocks w)" by simp_all
qed

lemma PlaceBidOrder_objs:
  assumes run: "PlaceBidOrder i r w = Some ((oid, e), w')"
  shows "objs_kept {} {r} w w'" "e = None \<Longrightarrow> o_StockId (bidObj w r) \<in> dom (allStocks w)"
proof -
  have "objs_kept {} {r} w w' \<and> (e = None \<longrightarrow> o_StockId (bidObj w r) \<in> dom (allStocks w))"
  proof (cases rule: PlaceBidOrder_cases [OF run])
    case 1
    then show ?thesis using objs_kept_users by blast
  next
    case (2 w1 u price)
    then have "objs_kept {} {r} w w1"
      using getUserExclusively_frame(1) objs_kept_users by blast
    then show ?thesis
      using PlaceBid_commit_objs [OF 2(6)] objs_kept_trans order_price_check_stock [OF 2(7)] by blast
  qed
  then show "objs_kept {} {r} w w'" "e = None \<Longrightarrow> o_StockId (bidObj w r) \<in> dom (allStocks w)" by simp_all
qed

section \<open>Cancelling\<close>

lemma getAsk_objs: "getAsk i w = (r, w') \<Longrightarrow> objs_kept A B w w'"
  by (auto simp: getAsk_def new_ask_def set_ask_def Let_def objs_kept_def same_mem_def dest!: db_ok_same
      split: option.splits prod.splits)

lemma getBid_objs: "getBid i w = (r, w') \<Longrightarrow> objs_kept A B w w'"
  by (auto simp: getBid_def new_bid_def set_bid_def Let_def objs_kept_def same_mem_def dest!: db_ok_same
      split: option.splits prod.splits)

lemma Ask_Close_objs:
  assumes run: "Ask_Close r (w, t) = (e, w', t')"
  shows "objs_kept A B w w'"
proof -
  have "nextRef w' = nextRef w"
    using run by (auto simp: Ask_Close_def Let_def set_ask_def dest!: db_ok_nextRef split: prod.splits if_splits)
  moreover obtain k u where "askObj w' = (askObj w)(r := (askObj w r)\<lparr>o_IsClosed := k, o_UpdatedAt := u\<rparr>)"
    using Ask_Close_frame(6) [OF run] by blast
  ultimately show ?thesis using Ask_Close_frame(2,3) [OF run] by (intro objs_keptI) (auto simp: same_prio_def)
qed

lemma Bid_Close_objs:
  assumes run: "Bid_Close r (w, t) = (e, w', t')"
  shows "objs_kept A B w w'"
proof -
  obtain k u where "bidObj w' = (bidObj w)(r := (bidObj w r)\<lparr>o_IsClosed := k, o_UpdatedAt := u\<rparr>)"
    using Bid_Close_frame(6) [OF run] by blast
  then show ?thesis using Bid_Close_frame(2,3) [OF run] Bid_Close_nextRef [OF run]
    by (intro objs_keptI) (auto simp: same_prio_def)
qed

lemma saveBidCancel_objs:
  assumes run: "saveBidCancelOrderTransaction r i (w, t) = (e, w', t')"
  shows "objs_kept A B w w'"
  using saveBidCancel_frame(1-3) [OF run] saveBidCancel_nextRef [OF run] by (intro objs_kept_same) simp_all

lemma commit_tx_objs: "commit_tx (w, t) = (ok, w') \<Longrightarrow> objs_kept A B w w'"
  by (auto simp: commit_tx_def Let_def split: prod.splits if_splits dest!: db_ok_same intro: objs_kept_mem)

lemma CancelAsk_objs:
  assumes run: "CancelAsk i oid w = (res, w')"
  shows "objs_kept A B w w'"
proof -
  obtain r w1 where g: "getAsk oid w = (r, w1)" by fastforce
  obtain e w2 t2 where c: "Ask_Close r (w1, db w1) = (e, w2, t2)" by (metis prod.exhaust)
  obtain ok w3 t3 where s: "saveAskCancelOrderTransaction r i (w2, t2) = (ok, w3, t3)" by (metis prod.exhaust)
  obtain ok4 w4 where m: "commit_tx (w3, t3) = (ok4, w4)" by fastforce
  have "quiet (saveAskCancelOrderTransaction r i)"
    by (auto simp: quiet_def saveAskCancelOrderTransaction_def Let_def dest: quietD [OF quiet_insert])
  then have "keeps_objs A B (saveAskCancelOrderTransaction r i)" by simp
  then have k: "objs_kept A B w w1" "objs_kept A B w1 w2" "objs_kept A B w2 w3" "objs_kept A B w3 w4"
    using getAsk_objs [OF g] Ask_Close_objs [OF c] keeps_objsD s commit_tx_objs [OF m] by blast+
  have "w' \<in> {w1, w2, w3, w4}" using run g c s m by (auto simp: CancelAsk_def Let_def split: if_splits)
  then show ?thesis using k objs_kept_trans by blast
qed

lemma CancelBid_objs:
  assumes run: "CancelBid i oid w = (res, w')"
  shows "objs_kept A B w w'"
proof -
  obtain r w1 where g: "getBid oid w = (r, w1)" by fastforce
  obtain e w2 t2 where c: "Bid_Close r (w1, db w1) = (e, w2, t2)" by (metis prod.exhaust)
  obtain e3 w3 t3 where s: "saveBidCancelOrderTransaction r i (w2, t2) = (e3, w3, t3)" by (metis prod.exhaust)
  obtain ok4 w4 where m: "commit_tx (w3, t3) = (ok4, w4)" by fastforce
  have k: "objs_kept A B w w1" "objs_kept A B w1 w2" "objs_kept A B w2 w3" "objs_kept A B w3 w4"
    using getBid_objs [OF g] Bid_Close_objs [OF c] saveBidCancel_objs [OF s] commit_tx_objs [OF m] by blast+
  have "\<exists>u. w' \<in> {w1, w2, set_user i u w3, w4, set_user i u w4}"
    using run g c s m by (auto simp: CancelBid_def Let_def split: if_splits)
  then obtain u where "w' \<in> {w1, w2, set_user i u w3, w4, set_user i u w4}" by blast
  then show ?thesis
  proof (elim insertE emptyE)
    show "w' = w1 \<Longrightarrow> ?thesis" "w' = w2 \<Longrightarrow> ?thesis" "w' = w4 \<Longrightarrow> ?thesis"
      "w' = set_user i u w3 \<Longrightarrow> ?thesis" "w' = set_user i u w4 \<Longrightarrow> ?thesis"
      using k objs_kept_trans objs_kept_db(3) by metis+
  qed
qed

lemma CancelOrder_objs:
  assumes run: "CancelOrder i oid isAsk w = (res, w')"
  shows "objs_kept A B w w'"
proof -
  obtain ue w1 where g: "getUserExclusively i w = (ue, w1)" by fastforce
  have 1: "objs_kept A B w w1" using getUserExclusively_frame(1) [OF g] objs_kept_users by blast
  obtain ra wa where a: "CancelAsk i oid w1 = (ra, wa)" by fastforce
  obtain rb wb where b: "CancelBid i oid w1 = (rb, wb)" by fastforce
  have "w' \<in> {w1, wa, wb}" using run g a b by (auto simp: CancelOrder_def split: if_splits prod.splits)
  then show ?thesis using 1 CancelAsk_objs [OF a] CancelBid_objs [OF b] objs_kept_trans by blast
qed

section \<open>Other operations\<close>

lemma objs_kept_set_stock:
  "sid \<in> dom (allStocks w) \<Longrightarrow> objs_kept A B w (set_stock sid s (set_user i u w))"
  by (intro objs_kept_same) (auto simp: set_stock_def set_user_def)

lemma tax_objs: "getTaxForBiddingUser s q p i w t = (r, w') \<Longrightarrow> objs_kept A B w w'"
  using tax_frame(2) [of s q p i w t "fst r" "snd r" w'] by (intro objs_kept_same) (auto simp: same_mem_def)

lemma buy_commit_objs:
  assumes run: "buy_commit i sid s q w = (r, w')" and s: "sid \<in> dom (allStocks w)"
  shows "objs_kept A B w w'"
proof -
  define u1 where "u1 = (usr w i)\<lparr>u_Cash := u_Cash (usr w i) - s_CurrentPrice s * q\<rparr>"
  define s1 where "s1 = s\<lparr>s_StocksInExchange := s_StocksInExchange s - q, s_StocksInMarket := s_StocksInMarket s + q, s_UpdatedAt := now w\<rparr>"
  define w1 where "w1 = set_stock sid s1 (set_user i u1 w)"
  obtain x tt w2 where t: "getTaxForBiddingUser sid q (s_CurrentPrice s) i w1 (db w1) = ((x, tt), w2)"
    by (metis prod.exhaust)
  obtain ok w3 where op: "tx_run (buy_ops x (bought_tx i sid s q (now w)) tt (usr w2 i) s1) w2 = (ok, w3)" by fastforce
  have k1: "objs_kept A B w w1" unfolding w1_def by (rule objs_kept_set_stock [OF s])
  have "objs_kept A B w1 w3" using tax_objs [OF t] tx_run_frame(1) [OF quiet_buy_ops op] objs_kept_mem objs_kept_trans by blast
  then have k3: "objs_kept A B w w3" using k1 objs_kept_trans by blast
  then have s3: "sid \<in> dom (allStocks w3)" using s by (simp add: objs_kept_def)
  have "w' = w3 \<or> (\<exists>s2 u2. w' = set_stock sid s2 (set_user i u2 w3))"
    using run t op by (auto simp: buy_commit_def Let_def bought_tx_def ledger_simps u1_def s1_def w1_def split: if_splits)
  moreover have "objs_kept A B w (set_stock sid s2 (set_user i u2 w3))" for s2 u2
    using objs_kept_set_stock [OF s3] k3 objs_kept_trans by blast
  ultimately show ?thesis using k3 by blast
qed


lemma PerformBuy_objs:
  assumes run: "PerformBuyFromExchangeTransaction i sid q w = Some (r, w')"
  shows "objs_kept A B w w'"
proof (cases rule: PerformBuy_cases [OF run])
  case 1
  then show ?thesis using objs_kept_users by blast
next
  case (2 w1 u s)
  then show ?thesis
    using buy_commit_objs [OF 2(8)] objs_kept_users getUserExclusively_frame(1) [OF 2(1)] objs_kept_trans by blast
qed

lemma mortgage_commit_objs:
  assumes run: "mortgage_commit i s q p m (w, t) = (r, w')"
  shows "objs_kept A B w w'"
proof -
  define u1 where "u1 = (usr w i)\<lparr>u_Cash := u_Cash (usr w i) + m\<rparr>"
  let ?ops = "[tx_insert (insert_tx (mortgage_tx i s q p m (now w))), tx_save (save_user u1)]"
  obtain ok w1 t1 where op: "tx_seq ?ops (set_user i u1 w, t) = (ok, w1, t1)" by (metis prod.exhaust)
  obtain ok2 w2 where c: "(if ok then db_ok w1 else (False, w1)) = (ok2, w2)" by fastforce
  have "same_mem (set_user i u1 w) w1" using quiet_seq [OF _ op] by simp
  moreover have "same_mem w1 w2" using c db_ok_same by (auto split: if_splits)
  ultimately have "objs_kept A B (set_user i u1 w) w2" using same_mem_trans objs_kept_mem by blast
  then have k: "objs_kept A B w w2" by simp
  have "w' = w2\<lparr>db := t1\<rparr> \<or> (\<exists>u. w' = set_user i u w2)"
    using run op c unfolding mortgage_commit_def Let_def mortgage_tx_def u1_def
    by (auto split: if_splits simp del: tx_seq.simps)
  then show ?thesis using k by auto
qed

lemma PerformMortgage_objs:
  assumes run: "PerformMortgageTransaction i s q p w = Some (r, w')"
  shows "objs_kept A B w w'"
proof (cases rule: PerformMortgage_cases [OF run])
  case (1 e)
  then show ?thesis using objs_kept_users objs_kept_mem objs_kept_trans by blast
next
  case (2 w1 w2 t u price m)
  have "objs_kept A B w w1" using objs_kept_users getUserExclusively_frame(1) [OF 2(1)] by blast
  moreover have "objs_kept A B w1 w'"
    using mortgage_commit_objs [OF 2(8)] objs_kept_mem [OF 2(3)] objs_kept_trans by blast
  ultimately show ?thesis using objs_kept_trans by blast
qed

lemma TriggerStoploss_objs:
  "TriggerStoploss_ask r w = (e, w') \<Longrightarrow> objs_kept {r} B w w'"
  "TriggerStoploss_bid r w = (e, w') \<Longrightarrow> objs_kept A {r} w w'"
proof -
  assume "TriggerStoploss_ask r w = (e, w')"
  from TriggerStoploss_ask_objs [OF this] show "objs_kept {r} B w w'" by (intro objs_keptI) auto
next
  assume "TriggerStoploss_bid r w = (e, w')"
  from TriggerStoploss_bid_objs [OF this] show "objs_kept A {r} w w'" by (intro objs_keptI) auto
qed

text \<open>Matching in a book.\<close>

lemma evolves_objs:
  assumes "evolves w w'" "own_prios ob w w'"
  shows "objs_kept (set_mset (ask_refs ob)) (set_mset (bid_refs ob)) w w'"
  using assms by (intro objs_keptI) (auto simp: evolves_def kin_def own_prios_def)

end
