(* ===== verification/Matching_Accounts.thy ===== *)
theory Matching_Accounts
  imports Trading
begin

text \<open>
  Matching keeps the accounts: with a fill function that does, so do triggering stop-losses,
  trades and the loops over an incoming order. The contract of the fill function is extended
  by this law, and the program's function satisfies it.
\<close>

locale accounting_fill = fill_order +
  assumes accounts: "fill a b p q w = Some (res, w') \<Longrightarrow> keeps_accounts w w'"

section \<open>Triggering\<close>

lemma TriggerStoploss_accounts:
  "TriggerStoploss_ask r w = (e, w') \<Longrightarrow> keeps_accounts w w'"
  "TriggerStoploss_bid r w = (e, w') \<Longrightarrow> keeps_accounts w w'"
proof -
  assume run: "TriggerStoploss_ask r w = (e, w')"
  show "keeps_accounts w w'"
  proof (cases "o_OrderType (askObj w r) = StopLoss")
    case False
    then show ?thesis using run by (simp add: TriggerStoploss_ask_def Let_def)
  next
    case True
    let ?x = "(askObj w r)\<lparr>o_OrderType := StopLossActive, o_UpdatedAt := now w\<rparr>"
    obtain ok w1 where c: "db_ok (set_ask r ?x w) = (ok, w1)" by fastforce
    have "users w1 = users w" "db w1 = db w" using db_ok_same [OF c] by (simp_all add: same_mem_def ledger_simps)
    moreover have "w' = (if ok then w1\<lparr>db := save_ask ?x (db w1)\<rparr> else w1)"
      using run True c by (auto simp: TriggerStoploss_ask_def Let_def)
    ultimately show ?thesis by (intro keeps_accounts_same) (simp_all add: ledger_simps)
  qed
next
  assume run: "TriggerStoploss_bid r w = (e, w')"
  show "keeps_accounts w w'"
  proof (cases "o_OrderType (bidObj w r) = StopLoss")
    case False
    then show ?thesis using run by (simp add: TriggerStoploss_bid_def Let_def)
  next
    case True
    let ?x = "(bidObj w r)\<lparr>o_OrderType := StopLossActive, o_UpdatedAt := now w\<rparr>"
    obtain ok w1 where c: "db_ok (set_bid r ?x w) = (ok, w1)" by fastforce
    have "users w1 = users w" "db w1 = db w" using db_ok_same [OF c] by (simp_all add: same_mem_def ledger_simps)
    moreover have "w' = (if ok then w1\<lparr>db := save_bid ?x (db w1)\<rparr> else w1)"
      using run True c by (auto simp: TriggerStoploss_bid_def Let_def)
    ultimately show ?thesis by (intro keeps_accounts_same) (simp_all add: ledger_simps)
  qed
qed

lemma triggerAsks_accounts:
  assumes "triggerAsks p ob w = Some y"
  shows "keeps_accounts w (snd y)"
proof (rule triggerAsks.raw_induct [OF _ assms, where P = "\<lambda>p ob w y. keeps_accounts w (snd y)"], goal_cases)
  case (1 rec p ob w y)
  obtain top where h: "pq_Head (askStoploss ob) = Some top" using 1(2) by (cases "pq_Head (askStoploss ob)") auto
  show ?case
  proof (cases "\<exists>r. top = Some r \<and> p \<le> o_Price (askObj w r)")
    case False
    then have "snd y = w" using 1(2) h by (cases top) auto
    then show ?thesis by simp
  next
    case True
    then obtain r where top: "top = Some r" "p \<le> o_Price (askObj w r)" by blast
    obtain r' ob1 where r: "rec p ob1 (snd (TriggerStoploss_ask r' w)) = Some y"
      using 1(2) unfolding h top(1) by (simp add: top(2) bind_eq_Some_conv Let_def) blast
    have "keeps_accounts w (snd (TriggerStoploss_ask r' w))"
      by (rule TriggerStoploss_accounts(1) [OF surjective_pairing])
    from keeps_accounts_trans [OF this 1(1) [OF r]] show ?thesis .
  qed
qed

lemma triggerBids_accounts:
  assumes "triggerBids p ob w = Some y"
  shows "keeps_accounts w (snd y)"
proof (rule triggerBids.raw_induct [OF _ assms, where P = "\<lambda>p ob w y. keeps_accounts w (snd y)"], goal_cases)
  case (1 rec p ob w y)
  obtain top where h: "pq_Head (bidStoploss ob) = Some top" using 1(2) by (cases "pq_Head (bidStoploss ob)") auto
  show ?case
  proof (cases "\<exists>r. top = Some r \<and> p \<ge> o_Price (bidObj w r)")
    case False
    then have "snd y = w" using 1(2) h by (cases top) auto
    then show ?thesis by simp
  next
    case True
    then obtain r where top: "top = Some r" "p \<ge> o_Price (bidObj w r)" by blast
    obtain r' ob1 where r: "rec p ob1 (snd (TriggerStoploss_bid r' w)) = Some y"
      using 1(2) unfolding h top(1) by (simp add: top(2) bind_eq_Some_conv Let_def) blast
    have "keeps_accounts w (snd (TriggerStoploss_bid r' w))"
      by (rule TriggerStoploss_accounts(2) [OF surjective_pairing])
    from keeps_accounts_trans [OF this 1(1) [OF r]] show ?thesis .
  qed
qed

lemma triggerStopLosses_accounts:
  assumes "triggerStopLosses tr ob w = Some (ob', w')"
  shows "keeps_accounts w w'"
proof -
  obtain ob1 w1 where "triggerAsks (t_Price tr) ob w = Some (ob1, w1)" "triggerBids (t_Price tr) ob1 w1 = Some (ob', w')"
    using assms by (auto simp: triggerStopLosses_def bind_eq_Some_conv)
  then show ?thesis using triggerAsks_accounts triggerBids_accounts keeps_accounts_trans by fastforce
qed

section \<open>Trades and loops\<close>

context accounting_fill
begin

lemma makeTrade_accounts:
  assumes run: "makeTrade fill ar br ia ib ob w = Some (d, ob', w')"
  shows "keeps_accounts w w'"
proof -
  obtain p q where pq: "getTradePriceAndQty (askObj w ar) (bidObj w br) w = (p, q)" by fastforce
  obtain sa sb tr w1 where f: "fill ar br p q w = Some ((sa, sb, tr), w1)"
    using run pq by (auto simp: makeTrade_def Let_def bind_eq_Some_conv)
  show ?thesis
  proof (cases tr)
    case None
    then have "w' = w1" using run pq f by (auto simp: makeTrade_def Let_def split: if_splits)
    then show ?thesis using accounts [OF f] by simp
  next
    case (Some t)
    then obtain ob1 where "triggerStopLosses t ob1 w1 = Some (ob', w')"
      using run pq f by (fastforce simp: makeTrade_def Let_def bind_eq_Some_conv)
    from triggerStopLosses_accounts [OF this] show ?thesis using accounts [OF f] keeps_accounts_trans by blast
  qed
qed

lemma processAsk_loop_accounts:
  assumes "processAsk_loop fill ar askDone ob w = Some y"
  shows "keeps_accounts w (snd y)"
proof (rule processAsk_loop.raw_induct [OF _ assms,
      where P = "\<lambda>f ar askDone ob w y. f = fill \<longrightarrow> keeps_accounts w (snd y)", rule_format], goal_cases)
  case (1 rec f ar askDone ob w y)
  obtain top same ob1 where g: "getTopMatchingBid ar w ob = Some (top, same, ob1)"
    using 1(2) by (cases "getTopMatchingBid ar w ob") auto
  show ?case
  proof (cases top)
    case None
    then have "snd y = w" using 1(2) g by (cases askDone) (auto simp: bind_eq_Some_conv)
    then show ?thesis by simp
  next
    case (Some br)
    then obtain ad bd ob2 w2 where m: "makeTrade f ar br True False ob1 w = Some ((ad, bd), ob2, w2)"
      using 1(2) g by (cases "makeTrade f ar br True False ob1 w") auto
    obtain ob4 where
      r: "(if \<not> ad \<and> \<not> bd then Some (ob4, w2) else if ad then Some (ob4, w2) else rec f ar ad ob4 w2) = Some y"
      using 1(2) g Some m by (cases ad; cases bd) (auto simp: bind_eq_Some_conv Let_def)
    have k: "keeps_accounts w w2" using makeTrade_accounts m 1(3) by blast
    show ?thesis
    proof (cases "\<not> ad \<and> bd")
      case True
      then have "rec f ar ad ob4 w2 = Some y" using r by simp
      from 1(1) [OF this] show ?thesis using k 1(3) keeps_accounts_trans by blast
    next
      case False
      then show ?thesis using r k by (auto split: if_splits)
    qed
  qed
qed simp

lemma processBid_loop_accounts:
  assumes "processBid_loop fill br bidDone ob w = Some y"
  shows "keeps_accounts w (snd y)"
proof (rule processBid_loop.raw_induct [OF _ assms,
      where P = "\<lambda>f br bidDone ob w y. f = fill \<longrightarrow> keeps_accounts w (snd y)", rule_format], goal_cases)
  case (1 rec f br bidDone ob w y)
  obtain top same ob1 where g: "getTopMatchingAsk br w ob = Some (top, same, ob1)"
    using 1(2) by (cases "getTopMatchingAsk br w ob") auto
  show ?case
  proof (cases top)
    case None
    then have "snd y = w" using 1(2) g by (cases bidDone) (auto simp: bind_eq_Some_conv)
    then show ?thesis by simp
  next
    case (Some ar)
    then obtain ad bd ob2 w2 where m: "makeTrade f ar br False True ob1 w = Some ((ad, bd), ob2, w2)"
      using 1(2) g by (cases "makeTrade f ar br False True ob1 w") auto
    obtain ob4 where
      r: "(if \<not> ad \<and> \<not> bd then Some (ob4, w2) else if bd then Some (ob4, w2) else rec f br bd ob4 w2) = Some y"
      using 1(2) g Some m by (cases ad; cases bd) (auto simp: bind_eq_Some_conv Let_def)
    have k: "keeps_accounts w w2" using makeTrade_accounts m 1(3) by blast
    show ?thesis
    proof (cases "\<not> bd \<and> ad")
      case True
      then have "rec f br bd ob4 w2 = Some y" using r by simp
      from 1(1) [OF this] show ?thesis using k 1(3) keeps_accounts_trans by blast
    next
      case False
      then show ?thesis using r k by (auto split: if_splits)
    qed
  qed
qed simp

lemma processAsk_accounts: "processAsk fill ar ob w = Some (ob', w') \<Longrightarrow> keeps_accounts w w'"
  unfolding processAsk_def by (drule processAsk_loop_accounts) simp

lemma processBid_accounts: "processBid fill br ob w = Some (ob', w') \<Longrightarrow> keeps_accounts w w'"
  unfolding processBid_def by (drule processBid_loop_accounts) simp

lemma waitForOrder_accounts: "waitForOrder fill pick ob w = Some (ob', w') \<Longrightarrow> keeps_accounts w w'"
  by (auto simp: waitForOrder_def split: prod.splits bool.splits if_splits
      dest: processAsk_accounts processBid_accounts)

end

interpretation book: accounting_fill PerformOrderFillTransaction
proof (unfold_locales, goal_cases)
  case (1 a b p q w res w')
  then show ?case using PerformOrderFill_accounts by (cases res) blast
qed

end
