(* ===== verification/Server_Machine.thy ===== *)
theory Server_Machine
  imports Server
begin

text \<open>
  The steps of the server, its invariant and its progress. The environment chooses which step
  comes next, the time, and which calls to the database fail.
\<close>

inductive server_step :: "server \<Rightarrow> server \<Rightarrow> bool" where
  place: "PlaceOrder i rq sv = Some (res, sv') \<Longrightarrow> server_step sv sv'"
| pass_ask: "k < length (sv_asks sv) \<Longrightarrow> add_placed_ask k sv = Some sv' \<Longrightarrow> server_step sv sv'"
| pass_bid: "k < length (sv_bids sv) \<Longrightarrow> add_placed_bid k sv = Some sv' \<Longrightarrow> server_step sv sv'"
| cancel: "CancelOrder_request i oid isAsk sv = Some (st, sv') \<Longrightarrow> server_step sv sv'"
| round: "sv_engine sv s = Some ob \<Longrightarrow>
    waitForOrder PerformOrderFillTransaction pick ob (sv_world sv) = Some (ob', w') \<Longrightarrow>
    server_step sv (sv\<lparr>sv_engine := (sv_engine sv)(s \<mapsto> ob'), sv_world := w'\<rparr>)"
| buy: "BuyStocksFromExchange i s q (sv_world sv) = Some (res, w') \<Longrightarrow> server_step sv (sv\<lparr>sv_world := w'\<rparr>)"
| mortgage: "MortgageStocks i s q (sv_world sv) = Some (res, w') \<Longrightarrow> server_step sv (sv\<lparr>sv_world := w'\<rparr>)"
| retrieve: "RetrieveMortgageStocks i s q p (sv_world sv) = Some (res, w') \<Longrightarrow> server_step sv (sv\<lparr>sv_world := w'\<rparr>)"
| square_off: "SquareOffLends (sv_world sv) = Some (err, w') \<Longrightarrow> server_step sv (sv\<lparr>sv_world := w'\<rparr>)"
| environment: "server_step sv (sv\<lparr>sv_world := (sv_world sv)\<lparr>now := t, outcomes := os, isMarketOpen := b\<rparr>\<rparr>)"

inductive_cases server_stepE: "server_step sv sv'"

definition asks_waiting :: "engine \<Rightarrow> world \<Rightarrow> ref list \<Rightarrow> bool" where
  "asks_waiting e w rs \<longleftrightarrow> distinct rs \<and> (\<forall>r \<in> set rs. r < nextRef w \<and> o_StockId (askObj w r) \<in> dom e \<and>
     (\<forall>s ob. e s = Some ob \<longrightarrow> r \<notin># ask_live ob))"

definition bids_waiting :: "engine \<Rightarrow> world \<Rightarrow> ref list \<Rightarrow> bool" where
  "bids_waiting e w rs \<longleftrightarrow> distinct rs \<and> (\<forall>r \<in> set rs. r < nextRef w \<and> o_StockId (bidObj w r) \<in> dom e \<and>
     (\<forall>s ob. e s = Some ob \<longrightarrow> r \<notin># bid_live ob))"

definition server_ok :: "server \<Rightarrow> bool" where
  "server_ok sv \<longleftrightarrow>
     (\<forall>s ob. sv_engine sv s = Some ob \<longrightarrow> book_good s (sv_world sv) ob) \<and>
     dom (allStocks (sv_world sv)) \<subseteq> dom (sv_engine sv) \<and>
     asks_waiting (sv_engine sv) (sv_world sv) (sv_asks sv) \<and> bids_waiting (sv_engine sv) (sv_world sv) (sv_bids sv)"

section \<open>Parts of the invariant\<close>

lemma waiting_kept:
  assumes "objs_kept A B w w'"
  shows "asks_waiting e w rs \<Longrightarrow> asks_waiting e w' rs" "bids_waiting e w rs \<Longrightarrow> bids_waiting e w' rs"
  using assms unfolding asks_waiting_def bids_waiting_def objs_kept_def by (metis order_less_le_trans)+

text \<open>A step that changes the state of the \<^verbatim>\<open>models\<close> package only.\<close>

lemma server_ok_world:
  assumes ok: "server_ok sv" and k: "objs_kept {} {} (sv_world sv) w'"
  shows "server_ok (sv\<lparr>sv_world := w'\<rparr>)"
  using ok book_good_kept [OF _ k] waiting_kept [OF k] k by (auto simp: server_ok_def objs_kept_def)

text \<open>A new order waits to be passed to the engine.\<close>

lemma waiting_new:
  "asks_waiting e w rs \<Longrightarrow> (\<And>s ob. e s = Some ob \<Longrightarrow> book_good s w ob) \<Longrightarrow> objs_kept {} {} w w' \<Longrightarrow>
   nextRef w < nextRef w' \<Longrightarrow> o_StockId (askObj w' (nextRef w)) \<in> dom e \<Longrightarrow> asks_waiting e w' (rs @ [nextRef w])"
  "bids_waiting e w rs \<Longrightarrow> (\<And>s ob. e s = Some ob \<Longrightarrow> book_good s w ob) \<Longrightarrow> objs_kept {} {} w w' \<Longrightarrow>
   nextRef w < nextRef w' \<Longrightarrow> o_StockId (bidObj w' (nextRef w)) \<in> dom e \<Longrightarrow> bids_waiting e w' (rs @ [nextRef w])"
proof -
  assume a: "asks_waiting e w rs" "\<And>s ob. e s = Some ob \<Longrightarrow> book_good s w ob" "objs_kept {} {} w w'"
    "nextRef w < nextRef w'" "o_StockId (askObj w' (nextRef w)) \<in> dom e"
  have "nextRef w \<notin># ask_live ob" if "e s = Some ob" for s ob
    using a(2) [OF that] by (auto simp: book_good_def)
  moreover have "nextRef w \<notin> set rs" using a(1) by (auto simp: asks_waiting_def)
  ultimately show "asks_waiting e w' (rs @ [nextRef w])"
    using waiting_kept(1) [OF a(3,1)] a(4,5) by (auto simp: asks_waiting_def)
next
  assume a: "bids_waiting e w rs" "\<And>s ob. e s = Some ob \<Longrightarrow> book_good s w ob" "objs_kept {} {} w w'"
    "nextRef w < nextRef w'" "o_StockId (bidObj w' (nextRef w)) \<in> dom e"
  have "nextRef w \<notin># bid_live ob" if "e s = Some ob" for s ob
    using a(2) [OF that] by (auto simp: book_good_def)
  moreover have "nextRef w \<notin> set rs" using a(1) by (auto simp: bids_waiting_def)
  ultimately show "bids_waiting e w' (rs @ [nextRef w])"
    using waiting_kept(2) [OF a(3,1)] a(4,5) by (auto simp: bids_waiting_def)
qed

text \<open>The books of two stocks share no order.\<close>

lemma books_apart:
  assumes "book_good s w ob" "book_good s' w ob'" "s \<noteq> s'"
  shows "r \<in># ask_live ob \<Longrightarrow> r \<notin># ask_live ob'" "r \<in># bid_live ob \<Longrightarrow> r \<notin># bid_live ob'"
  using assms by (auto simp: book_good_def)

text \<open>A book that knows fewer orders takes the place of another.\<close>

lemma waiting_book:
  assumes e: "e s = Some ob"
  shows "asks_waiting e w rs \<Longrightarrow> ask_live ob' \<subseteq># ask_live ob \<Longrightarrow> asks_waiting (e(s \<mapsto> ob')) w rs"
    "bids_waiting e w rs \<Longrightarrow> bid_live ob' \<subseteq># bid_live ob \<Longrightarrow> bids_waiting (e(s \<mapsto> ob')) w rs"
proof -
  assume a: "asks_waiting e w rs" "ask_live ob' \<subseteq># ask_live ob"
  have "r \<notin># ask_live ob'" if "r \<in> set rs" for r
    using a(1) e that mset_subset_eqD [OF a(2)] unfolding asks_waiting_def by blast
  then show "asks_waiting (e(s \<mapsto> ob')) w rs" using a(1) by (simp add: asks_waiting_def)
next
  assume a: "bids_waiting e w rs" "bid_live ob' \<subseteq># bid_live ob"
  have "r \<notin># bid_live ob'" if "r \<in> set rs" for r
    using a(1) e that mset_subset_eqD [OF a(2)] unfolding bids_waiting_def by blast
  then show "bids_waiting (e(s \<mapsto> ob')) w rs" using a(1) by (simp add: bids_waiting_def)
qed

text \<open>One book works on its own orders: the others stay well formed.\<close>

lemma server_ok_round:
  assumes ok: "server_ok sv" and e: "sv_engine sv s = Some ob" and b': "book_good s w' ob'"
    and k: "objs_kept (set_mset (ask_refs ob)) (set_mset (bid_refs ob)) (sv_world sv) w'"
    and l: "ask_live ob' \<subseteq># ask_live ob" "bid_live ob' \<subseteq># bid_live ob"
  shows "server_ok (sv\<lparr>sv_engine := (sv_engine sv)(s \<mapsto> ob'), sv_world := w'\<rparr>)"
proof -
  have b: "book_good s (sv_world sv) ob" using ok e by (simp add: server_ok_def)
  have "book_good s' w' ob2" if "s' \<noteq> s" "sv_engine sv s' = Some ob2" for s' ob2
  proof (rule book_good_kept [OF _ k])
    show b2: "book_good s' (sv_world sv) ob2" using ok that by (simp add: server_ok_def)
    note ap = books_apart [OF b2 b that(1)]
    show "r \<in># ask_live ob2 \<Longrightarrow> r \<notin> set_mset (ask_refs ob)" "r \<in># bid_live ob2 \<Longrightarrow> r \<notin> set_mset (bid_refs ob)" for r
      using ap [of r] by (auto simp: ask_live_def bid_live_def)
  qed
  moreover have "asks_waiting ((sv_engine sv)(s \<mapsto> ob')) w' (sv_asks sv)" "bids_waiting ((sv_engine sv)(s \<mapsto> ob')) w' (sv_bids sv)"
    using waiting_book [of "sv_engine sv" s ob, OF e] waiting_kept [OF k] ok l unfolding server_ok_def by blast+
  ultimately show ?thesis using ok b' k by (auto simp: server_ok_def objs_kept_def)
qed

lemma round_ok:
  assumes ok: "server_ok sv" and e: "sv_engine sv s = Some ob"
  obtains ob' w' where "waitForOrder PerformOrderFillTransaction pick ob (sv_world sv) = Some (ob', w')"
    "server_ok (sv\<lparr>sv_engine := (sv_engine sv)(s \<mapsto> ob'), sv_world := w'\<rparr>)"
    "case pick of (True, i) \<Rightarrow> i < length (ob_askChan ob) \<longrightarrow> length (ob_askChan ob') < length (ob_askChan ob)
     | (False, i) \<Rightarrow> i < length (ob_bidChan ob) \<longrightarrow> length (ob_bidChan ob') < length (ob_bidChan ob)"
proof -
  have b: "book_good s (sv_world sv) ob" using ok e by (simp add: server_ok_def)
  obtain side i where p: "pick = (side, i)" by fastforce
  consider "side" "i < length (ob_askChan ob)" | "\<not> side" "i < length (ob_bidChan ob)"
    | "waitForOrder PerformOrderFillTransaction pick ob (sv_world sv) = Some (ob, sv_world sv)"
      "side \<longrightarrow> \<not> i < length (ob_askChan ob)" "\<not> side \<longrightarrow> \<not> i < length (ob_bidChan ob)"
    by (cases side) (auto simp: p waitForOrder_def)
  then show ?thesis
  proof cases
    case 1
    then have "pick = (True, i)" using p by simp
    with waitForAsk_good [OF b 1(2)] server_ok_round [OF ok e] that show ?thesis by (metis (no_types, lifting) old.prod.case bool.case)
  next
    case 2
    then have "pick = (False, i)" using p by simp
    with waitForBid_good [OF b 2(2)] server_ok_round [OF ok e] that show ?thesis by (metis (no_types, lifting) old.prod.case bool.case)
  next
    case 3
    have "server_ok (sv\<lparr>sv_engine := (sv_engine sv)(s \<mapsto> ob), sv_world := sv_world sv\<rparr>)"
      by (rule server_ok_round [OF ok e b]) simp_all
    then show ?thesis using that 3 p by (cases side) auto
  qed
qed


section \<open>Passing orders to the engine\<close>

lemma add_placed_ask_ok:
  assumes ok: "server_ok sv" and k: "k < length (sv_asks sv)"
  obtains sv' where "add_placed_ask k sv = Some sv'" "server_ok sv'" "keeps_accounts (sv_world sv) (sv_world sv')"
proof -
  let ?r = "sv_asks sv ! k" and ?rs = "take k (sv_asks sv) @ drop (Suc k) (sv_asks sv)"
  let ?w = "sv_world sv" and ?e = "sv_engine sv"
  have w: "asks_waiting ?e ?w (sv_asks sv)" using ok by (simp add: server_ok_def)
  have sp: "sv_asks sv = take k (sv_asks sv) @ ?r # drop (Suc k) (sv_asks sv)" by (rule id_take_nth_drop [OF k])
  have "distinct (take k (sv_asks sv) @ ?r # drop (Suc k) (sv_asks sv))" using w sp by (simp add: asks_waiting_def)
  then have d: "distinct ?rs" "?r \<notin> set ?rs" by simp_all
  have sub: "set ?rs \<subseteq> set (sv_asks sv)" using set_take_subset set_drop_subset by fastforce
  have r: "?r < nextRef ?w" "o_StockId (askObj ?w ?r) \<in> dom ?e" "\<And>s ob. ?e s = Some ob \<Longrightarrow> ?r \<notin># ask_live ob"
    using w nth_mem [OF k] unfolding asks_waiting_def by blast+
  define s where "s = o_StockId (askObj ?w ?r)"
  obtain ob where ob: "?e s = Some ob" using r(2) by (auto simp: s_def)
  have b: "book_good s ?w ob" using ok ob by (simp add: server_ok_def)
  obtain ob' w' where a: "AddAskOrder ?r ob ?w = Some (ob', w')" "book_good s w' ob'" "objs_kept {?r} {} ?w w'"
    "ask_live ob' = add_mset ?r (ask_live ob)" "bid_live ob' = bid_live ob" "keeps_accounts ?w w'"
    by (rule AddAskOrder_good [OF b r(1) s_def [symmetric] r(3) [OF ob]])
  let ?sv = "sv\<lparr>sv_engine := ?e(s \<mapsto> ob'), sv_world := w', sv_asks := ?rs\<rparr>"
  have run: "add_placed_ask k sv = Some ?sv"
    using ob a(1) by (simp add: add_placed_ask_def engine_AddAskOrder_def s_def)
  have others: "book_good s' w' ob2" if "s' \<noteq> s" "?e s' = Some ob2" for s' ob2
    using book_good_kept [OF _ a(3), of s' ob2] ok that r(3) by (auto simp: server_ok_def)
  have "asks_waiting (?e(s \<mapsto> ob')) w' ?rs"
  proof -
    have "q < nextRef w' \<and> o_StockId (askObj w' q) \<in> dom ?e \<and> (\<forall>s ob. ?e s = Some ob \<longrightarrow> q \<notin># ask_live ob)" if "q \<in> set ?rs" for q
      using waiting_kept(1) [OF a(3) w] that sub unfolding asks_waiting_def by blast
    then show ?thesis using d ob unfolding asks_waiting_def by (auto simp: a(4))
  qed
  moreover have "bids_waiting (?e(s \<mapsto> ob')) w' (sv_bids sv)"
    using waiting_book(2) [of ?e s ob, OF ob] waiting_kept(2) [OF a(3)] ok a(5) by (simp add: server_ok_def)
  ultimately have "server_ok ?sv" using ok others a(2,3) by (auto simp: server_ok_def objs_kept_def)
  then show ?thesis using that [OF run] a(6) by simp
qed

lemma add_placed_bid_ok:
  assumes ok: "server_ok sv" and k: "k < length (sv_bids sv)"
  obtains sv' where "add_placed_bid k sv = Some sv'" "server_ok sv'" "keeps_accounts (sv_world sv) (sv_world sv')"
proof -
  let ?r = "sv_bids sv ! k" and ?rs = "take k (sv_bids sv) @ drop (Suc k) (sv_bids sv)"
  let ?w = "sv_world sv" and ?e = "sv_engine sv"
  have w: "bids_waiting ?e ?w (sv_bids sv)" using ok by (simp add: server_ok_def)
  have sp: "sv_bids sv = take k (sv_bids sv) @ ?r # drop (Suc k) (sv_bids sv)" by (rule id_take_nth_drop [OF k])
  have "distinct (take k (sv_bids sv) @ ?r # drop (Suc k) (sv_bids sv))" using w sp by (simp add: bids_waiting_def)
  then have d: "distinct ?rs" "?r \<notin> set ?rs" by simp_all
  have sub: "set ?rs \<subseteq> set (sv_bids sv)" using set_take_subset set_drop_subset by fastforce
  have r: "?r < nextRef ?w" "o_StockId (bidObj ?w ?r) \<in> dom ?e" "\<And>s ob. ?e s = Some ob \<Longrightarrow> ?r \<notin># bid_live ob"
    using w nth_mem [OF k] unfolding bids_waiting_def by blast+
  define s where "s = o_StockId (bidObj ?w ?r)"
  obtain ob where ob: "?e s = Some ob" using r(2) by (auto simp: s_def)
  have b: "book_good s ?w ob" using ok ob by (simp add: server_ok_def)
  obtain ob' w' where a: "AddBidOrder ?r ob ?w = Some (ob', w')" "book_good s w' ob'" "objs_kept {} {?r} ?w w'"
    "bid_live ob' = add_mset ?r (bid_live ob)" "ask_live ob' = ask_live ob" "keeps_accounts ?w w'"
    by (rule AddBidOrder_good [OF b r(1) s_def [symmetric] r(3) [OF ob]])
  let ?sv = "sv\<lparr>sv_engine := ?e(s \<mapsto> ob'), sv_world := w', sv_bids := ?rs\<rparr>"
  have run: "add_placed_bid k sv = Some ?sv"
    using ob a(1) by (simp add: add_placed_bid_def engine_AddBidOrder_def s_def)
  have others: "book_good s' w' ob2" if "s' \<noteq> s" "?e s' = Some ob2" for s' ob2
    using book_good_kept [OF _ a(3), of s' ob2] ok that r(3) by (auto simp: server_ok_def)
  have "bids_waiting (?e(s \<mapsto> ob')) w' ?rs"
  proof -
    have "q < nextRef w' \<and> o_StockId (bidObj w' q) \<in> dom ?e \<and> (\<forall>s ob. ?e s = Some ob \<longrightarrow> q \<notin># bid_live ob)" if "q \<in> set ?rs" for q
      using waiting_kept(2) [OF a(3) w] that sub unfolding bids_waiting_def by blast
    then show ?thesis using d ob unfolding bids_waiting_def by (auto simp: a(4))
  qed
  moreover have "asks_waiting (?e(s \<mapsto> ob')) w' (sv_asks sv)"
    using waiting_book(1) [of ?e s ob, OF ob] waiting_kept(1) [OF a(3)] ok a(5) by (simp add: server_ok_def)
  ultimately have "server_ok ?sv" using ok others a(2,3) by (auto simp: server_ok_def objs_kept_def)
  then show ?thesis using that [OF run] a(6) by simp
qed

section \<open>Requests\<close>

lemma keeps_accounts_new: "keeps_accounts w (snd (new_ask x w))" "keeps_accounts w (snd (new_bid x w))"
  by (rule keeps_accounts_same; simp add: new_ask_def new_bid_def set_ask_def set_bid_def)+

lemma PlaceOrder_ok:
  assumes ok: "server_ok sv" and run: "PlaceOrder i rq sv = Some (res, sv')"
  shows "server_ok sv'" "keeps_accounts (sv_world sv) (sv_world sv')"
proof -
  let ?w = "sv_world sv" and ?x = "order_of_request i rq"
  have "server_ok sv' \<and> keeps_accounts ?w (sv_world sv')"
  proof (cases "sv' = sv")
    case False
    then have c: "request_check i ?w = Some None" using run by (auto simp: PlaceOrder_def Let_def bind_eq_Some_conv split: option.splits)
    have books: "\<And>s ob. sv_engine sv s = Some ob \<Longrightarrow> book_good s ?w ob" using ok by (simp add: server_ok_def)
    show ?thesis
    proof (cases "rq_IsAsk rq")
      case True
      let ?r = "nextRef ?w"
      define w1 where "w1 = snd (new_ask ?x ?w)"
      then have n: "new_ask ?x ?w = (?r, w1)" by (simp add: new_ask_def)
      obtain oid err w2 where p: "PlaceAskOrder i ?r w1 = Some ((oid, err), w2)"
        and sv': "sv' = sv\<lparr>sv_world := w2, sv_asks := (if err = None then sv_asks sv @ [?r] else sv_asks sv)\<rparr>"
        using run c True n by (auto simp: PlaceOrder_def Let_def bind_eq_Some_conv)
      note pf = PlaceAskOrder_objs [OF p]
      have "objs_kept {?r} {} ?w w2" using objs_kept_new(1) pf(1) objs_kept_trans unfolding w1_def by blast
      from objs_kept_drop [OF this order_refl] have k: "objs_kept {} {} ?w w2" by simp
      have acc: "keeps_accounts ?w w2" using keeps_accounts_new(1) PlaceAskOrder_accounts [OF p] keeps_accounts_trans unfolding w1_def by blast
      have nr: "nextRef ?w < nextRef w1" "nextRef w1 \<le> nextRef w2" using pf(1) by (auto simp: w1_def new_ask_def objs_kept_def)
      have base: "server_ok (sv\<lparr>sv_world := w2\<rparr>)" by (rule server_ok_world [OF ok k])
      show ?thesis
      proof (cases err)
        case None
        then have "o_StockId (askObj w1 ?r) \<in> dom (allStocks w1)" using pf(2) by simp
        moreover have "allStocks w1 = allStocks ?w" by (simp add: w1_def new_ask_def set_ask_def)
        moreover have "o_StockId (askObj w2 ?r) = o_StockId (askObj w1 ?r)" using pf(1) nr(1) by (simp add: objs_kept_def)
        ultimately have "o_StockId (askObj w2 ?r) \<in> dom (sv_engine sv)" using ok by (auto simp: server_ok_def)
        then have "asks_waiting (sv_engine sv) w2 (sv_asks sv @ [?r])"
          using waiting_new(1) [OF _ books k] ok nr by (simp add: server_ok_def)
        then show ?thesis using base acc None by (simp add: sv' server_ok_def)
      qed (use base acc in \<open>simp add: sv' server_ok_def\<close>)
    next
      case False
      let ?r = "nextRef ?w"
      define w1 where "w1 = snd (new_bid ?x ?w)"
      then have n: "new_bid ?x ?w = (?r, w1)" by (simp add: new_bid_def)
      obtain oid err w2 where p: "PlaceBidOrder i ?r w1 = Some ((oid, err), w2)"
        and sv': "sv' = sv\<lparr>sv_world := w2, sv_bids := (if err = None then sv_bids sv @ [?r] else sv_bids sv)\<rparr>"
        using run c False n by (auto simp: PlaceOrder_def Let_def bind_eq_Some_conv)
      note pf = PlaceBidOrder_objs [OF p]
      have "objs_kept {} {?r} ?w w2" using objs_kept_new(2) pf(1) objs_kept_trans unfolding w1_def by blast
      from objs_kept_drop [OF this order_refl] have k: "objs_kept {} {} ?w w2" by simp
      have acc: "keeps_accounts ?w w2" using keeps_accounts_new(2) PlaceBidOrder_accounts [OF p] keeps_accounts_trans unfolding w1_def by blast
      have nr: "nextRef ?w < nextRef w1" "nextRef w1 \<le> nextRef w2" using pf(1) by (auto simp: w1_def new_bid_def objs_kept_def)
      have base: "server_ok (sv\<lparr>sv_world := w2\<rparr>)" by (rule server_ok_world [OF ok k])
      show ?thesis
      proof (cases err)
        case None
        then have "o_StockId (bidObj w1 ?r) \<in> dom (allStocks w1)" using pf(2) by simp
        moreover have "allStocks w1 = allStocks ?w" by (simp add: w1_def new_bid_def set_bid_def)
        moreover have "o_StockId (bidObj w2 ?r) = o_StockId (bidObj w1 ?r)" using pf(1) nr(1) by (simp add: objs_kept_def)
        ultimately have "o_StockId (bidObj w2 ?r) \<in> dom (sv_engine sv)" using ok by (auto simp: server_ok_def)
        then have "bids_waiting (sv_engine sv) w2 (sv_bids sv @ [?r])"
          using waiting_new(2) [OF _ books k] ok nr by (simp add: server_ok_def)
        then show ?thesis using base acc None by (simp add: sv' server_ok_def)
      qed (use base acc in \<open>simp add: sv' server_ok_def\<close>)
    qed
  qed (use ok in simp)
  then show "server_ok sv'" "keeps_accounts (sv_world sv) (sv_world sv')" by simp_all
qed

text \<open>A cancelled order stays in the queues of its book; only the depth changes.\<close>

lemma server_ok_depth:
  assumes ok: "server_ok sv" and e: "sv_engine sv s = Some ob"
    and l: "ask_live ob' = ask_live ob" "bid_live ob' = bid_live ob" and g: "\<And>w. book_good s w ob \<Longrightarrow> book_good s w ob'"
  shows "server_ok (sv\<lparr>sv_engine := (sv_engine sv)(s \<mapsto> ob')\<rparr>)"
proof -
  have "book_good s (sv_world sv) ob'" using ok e g by (simp add: server_ok_def)
  from server_ok_round [OF ok e this] show ?thesis using l by simp
qed

lemma engine_cancel_ok:
  assumes ok: "server_ok sv"
  shows "engine_CancelAskOrder r w (sv_engine sv) = Some e \<Longrightarrow> server_ok (sv\<lparr>sv_engine := e\<rparr>)"
    "engine_CancelBidOrder r w (sv_engine sv) = Some e \<Longrightarrow> server_ok (sv\<lparr>sv_engine := e\<rparr>)"
  by (auto simp: engine_CancelAskOrder_def engine_CancelBidOrder_def bind_eq_Some_conv CancelAskOrder_def
      CancelBidOrder_def Let_def closeAskDepth_def closeBidDepth_def intro!: server_ok_depth [OF ok])

lemma CancelOrder_request_ok:
  assumes ok: "server_ok sv" and run: "CancelOrder_request i oid isAsk sv = Some (st, sv')"
  shows "server_ok sv'" "keeps_accounts (sv_world sv) (sv_world sv')"
proof -
  obtain ask bid err w1 where c: "CancelOrder i oid isAsk (sv_world sv) = ((ask, bid, err), w1)" by (metis prod.collapse)
  let ?sv = "sv\<lparr>sv_world := w1\<rparr>"
  have base: "server_ok ?sv" by (rule server_ok_world [OF ok CancelOrder_objs [OF c]])
  have acc: "keeps_accounts (sv_world sv) w1" by (rule CancelOrder_accounts [OF c])
  have "sv' = sv \<or> sv' = ?sv \<or> (\<exists>r e. (engine_CancelAskOrder r w1 (sv_engine ?sv) = Some e \<or>
      engine_CancelBidOrder r w1 (sv_engine ?sv) = Some e) \<and> sv' = ?sv\<lparr>sv_engine := e\<rparr>)"
  proof (cases "request_check i (sv_world sv) = Some None \<and> err = None")
    case True
    then show ?thesis
      using run c by (cases isAsk) (auto simp: CancelOrder_request_def Let_def bind_eq_Some_conv)
  next
    case False
    then show ?thesis
      using run c by (auto simp: CancelOrder_request_def Let_def bind_eq_Some_conv split: option.splits)
  qed
  then have "server_ok sv' \<and> keeps_accounts (sv_world sv) (sv_world sv')"
    using ok base acc engine_cancel_ok [OF base] by auto
  then show "server_ok sv'" "keeps_accounts (sv_world sv) (sv_world sv')" by simp_all
qed

text \<open>Requests that leave the orders alone.\<close>

lemma stock_request_ok:
  "BuyStocksFromExchange i s q w = Some (res, w') \<Longrightarrow> objs_kept {} {} w w' \<and> keeps_accounts w w'"
  "MortgageStocks i s q w = Some (res, w') \<Longrightarrow> objs_kept {} {} w w' \<and> keeps_accounts w w'"
  "RetrieveMortgageStocks i s q p w = Some (res, w') \<Longrightarrow> objs_kept {} {} w w' \<and> keeps_accounts w w'"
  by (auto simp: BuyStocksFromExchange_def MortgageStocks_def RetrieveMortgageStocks_def bind_eq_Some_conv
      split: option.splits dest: PerformBuy_objs PerformBuy_accounts PerformMortgage_objs PerformMortgage_accounts)

section \<open>Every step\<close>

lemma server_step_ok:
  assumes ok: "server_ok sv" and st: "server_step sv sv'"
  shows "server_ok sv' \<and> keeps_accounts (sv_world sv) (sv_world sv')"
  using st
proof cases
  case (place i rq res)
  then show ?thesis using PlaceOrder_ok [OF ok] by blast
next
  case (pass_ask k)
  then show ?thesis using add_placed_ask_ok [OF ok] by (metis option.inject)
next
  case (pass_bid k)
  then show ?thesis using add_placed_bid_ok [OF ok] by (metis option.inject)
next
  case (cancel i oid isAsk st)
  then show ?thesis using CancelOrder_request_ok [OF ok] by blast
next
  case (round s ob pick ob' w')
  from round_ok [OF ok round(2), of pick] round(3)
  have "server_ok sv'" unfolding round(1) by (metis option.inject prod.inject)
  then show ?thesis using book.waitForOrder_accounts [OF round(3)] by (simp add: round(1))
next
  case (buy i s q res w')
  then show ?thesis using stock_request_ok(1) [OF buy(2)] server_ok_world [OF ok] by simp
next
  case (mortgage i s q res w')
  then show ?thesis using stock_request_ok(2) [OF mortgage(2)] server_ok_world [OF ok] by simp
next
  case (retrieve i s q p res w')
  then show ?thesis using stock_request_ok(3) [OF retrieve(2)] server_ok_world [OF ok] by simp
next
  case (square_off err w')
  then show ?thesis using SquareOffLends_kept [OF square_off(2)] server_ok_world [OF ok] by simp
next
  case environment
  then obtain t os b where environment: "sv' = sv\<lparr>sv_world := (sv_world sv)\<lparr>now := t, outcomes := os, isMarketOpen := b\<rparr>\<rparr>"
    by blast
  have "keeps_accounts (sv_world sv) (sv_world sv')" unfolding environment by (rule keeps_accounts_same) simp_all
  moreover have "objs_kept {} {} (sv_world sv) ((sv_world sv)\<lparr>now := t, outcomes := os, isMarketOpen := b\<rparr>)"
    by (rule objs_kept_same) simp_all
  ultimately show ?thesis using server_ok_world [OF ok] unfolding environment by simp
qed

lemma server_steps_ok:
  assumes "server_step\<^sup>*\<^sup>* sv sv'" "server_ok sv"
  shows "server_ok sv' \<and> keeps_accounts (sv_world sv) (sv_world sv')"
  using assms by (induction rule: rtranclp_induct) (auto dest: server_step_ok intro: keeps_accounts_trans)

end
