(* ===== verification/Engine_Start.thy ===== *)
theory Engine_Start
  imports Server_Machine
begin

text \<open>
  The start of the server: \<^verbatim>\<open>NewMatchingEngine\<close> loads the open orders of the database into one
  book per stock and starts the books, each of which first matches the orders it was given.
  The state it ends in is one the invariant \<open>server_ok\<close> holds of.
\<close>

section \<open>Accounts during the first matching\<close>

context accounting_fill
begin

lemma clear_loop_accounts:
  assumes "clear_loop fill bidTop askTop same ob w = Some y"
  shows "keeps_accounts w (snd y)"
proof (rule clear_loop.raw_induct [OF _ assms,
      where P = "\<lambda>f bidTop askTop same ob w y. f = fill \<longrightarrow> keeps_accounts w (snd y)", rule_format], goal_cases)
  case (1 rec f bidTop askTop same ob w y)
  show ?case
  proof (cases "bidTop = None \<or> askTop = None")
    case True
    then have "snd y = w" using 1(2) by (cases bidTop; cases askTop) (auto simp: bind_eq_Some_conv)
    then show ?thesis by simp
  next
    case False
    then obtain br ar where top: "bidTop = Some br" "askTop = Some ar" by auto
    then obtain ad bd ob2 w2 where m: "makeTrade f ar br False False ob w = Some ((ad, bd), ob2, w2)"
      using 1(2) by (cases "makeTrade f ar br False False ob w") auto
    have k: "keeps_accounts w w2" using makeTrade_accounts m 1(3) by blast
    obtain ob3 where o3: "addBackAsks same w2 ob2 = Some ob3"
      using 1(2) top m by (cases "addBackAsks same w2 ob2") auto
    show ?thesis
    proof (cases "ad \<or> bd")
      case False
      then have "y = (ob3, w2)" using 1(2) top m o3 by simp
      then show ?thesis using k by simp
    next
      case True
      then obtain b a s ob5 where "rec f b a s ob5 w2 = Some y"
        using 1(2) top m o3 by (auto simp: bind_eq_Some_conv Let_def split: option.splits if_splits)
      from 1(1) [OF this] show ?thesis using k 1(3) keeps_accounts_trans by blast
    qed
  qed
qed simp

lemma StartStockMatching_accounts:
  assumes "StartStockMatching fill ob w = Some (ob', w')"
  shows "keeps_accounts w w'"
  using assms clear_loop_accounts
  by (fastforce simp: StartStockMatching_def clearExistingOrders_def bind_eq_Some_conv split: option.splits)

end

section \<open>The objects of the open orders\<close>

lemma in_upt: "a \<le> r \<Longrightarrow> r < a + n \<Longrightarrow> \<exists>k < n. r = a + k" for a :: nat
  by (auto dest: le_Suc_ex)

lemma load_asks_objs:
  "load_asks xs w = (rs, w') \<Longrightarrow>
   rs = [nextRef w ..< nextRef w + length xs] \<and> nextRef w' = nextRef w + length xs \<and>
   (\<forall>k < length xs. askObj w' (nextRef w + k) = xs ! k) \<and> (\<forall>r < nextRef w. askObj w' r = askObj w r) \<and>
   bidObj w' = bidObj w \<and> users w' = users w \<and> db w' = db w \<and> allStocks w' = allStocks w \<and> outcomes w' = outcomes w"
proof (induction xs arbitrary: w rs)
  case (Cons x xs)
  let ?w1 = "(snd (new_ask x w))\<lparr>asksMap := (asksMap (snd (new_ask x w)))(o_Id x \<mapsto> nextRef w)\<rparr>"
  obtain rs' where l: "load_asks xs ?w1 = (rs', w')" "rs = nextRef w # rs'"
    using Cons.prems by (auto simp: new_ask_def split: prod.splits)
  have n: "nextRef ?w1 = Suc (nextRef w)" "askObj ?w1 = (askObj w)(nextRef w := x)"
    by (simp_all add: new_ask_def set_ask_def)
  note IH = Cons.IH [OF l(1), unfolded n]
  have "askObj w' (nextRef w + k) = (x # xs) ! k" if "k < length (x # xs)" for k
    using IH that by (cases k) auto
  moreover have "rs = [nextRef w ..< nextRef w + length (x # xs)]" using IH l(2) by (simp add: upt_conv_Cons del: upt_Suc)
  ultimately show ?case using IH by (auto simp: new_ask_def set_ask_def simp del: upt_Suc)
qed simp

lemma load_bids_objs:
  "load_bids xs w = (rs, w') \<Longrightarrow>
   rs = [nextRef w ..< nextRef w + length xs] \<and> nextRef w' = nextRef w + length xs \<and>
   (\<forall>k < length xs. bidObj w' (nextRef w + k) = xs ! k) \<and> (\<forall>r < nextRef w. bidObj w' r = bidObj w r) \<and>
   askObj w' = askObj w \<and> users w' = users w \<and> db w' = db w \<and> allStocks w' = allStocks w \<and> outcomes w' = outcomes w"
proof (induction xs arbitrary: w rs)
  case (Cons x xs)
  let ?w1 = "(snd (new_bid x w))\<lparr>bidsMap := (bidsMap (snd (new_bid x w)))(o_Id x \<mapsto> nextRef w)\<rparr>"
  obtain rs' where l: "load_bids xs ?w1 = (rs', w')" "rs = nextRef w # rs'"
    using Cons.prems by (auto simp: new_bid_def split: prod.splits)
  have n: "nextRef ?w1 = Suc (nextRef w)" "bidObj ?w1 = (bidObj w)(nextRef w := x)"
    by (simp_all add: new_bid_def set_bid_def)
  note IH = Cons.IH [OF l(1), unfolded n]
  have "bidObj w' (nextRef w + k) = (x # xs) ! k" if "k < length (x # xs)" for k
    using IH that by (cases k) auto
  moreover have "rs = [nextRef w ..< nextRef w + length (x # xs)]" using IH l(2) by (simp add: upt_conv_Cons del: upt_Suc)
  ultimately show ?case using IH by (auto simp: new_bid_def set_bid_def simp del: upt_Suc)
qed simp

section \<open>Books\<close>

lemma fresh_book_good:
  assumes "s \<in> dom (allStocks w)"
  shows "book_good s w (NewOrderBook s d)" "ask_live (NewOrderBook s d) = {#}" "bid_live (NewOrderBook s d) = {#}"
proof -
  have "pq_comparator (NewAskPQueue MINPQ) = askComparator" "pq_comparator (NewAskPQueue MAXPQ) = bidComparator"
    "pq_comparator (NewBidPQueue MAXPQ) = bidComparator" "pq_comparator (NewBidPQueue MINPQ) = askComparator"
    by (simp_all add: NewAskPQueue_def NewBidPQueue_def)
  then show "book_good s w (NewOrderBook s d)" "ask_live (NewOrderBook s d) = {#}" "bid_live (NewOrderBook s d) = {#}"
    using assms by (simp_all add: book_good_def book_ok_def book_inv_def side_inv_def queue_ok_def NewOrderBook_def
        queue_simps uniq_def ask_live_def bid_live_def)
qed

lemma LoadOldTransactions_depth: "\<exists>d. LoadOldTransactions txs ob = ob\<lparr>depth_of := d\<rparr>"
proof (induction txs arbitrary: ob)
  case Nil
  show ?case by (rule exI [of _ "depth_of ob"]) simp
next
  case (Cons tx txs)
  show ?case
    using Cons.IH [of "ob\<lparr>depth_of := depth_AddTrade (t_Price tx) (- t_StockQuantity tx) (t_CreatedAt tx) (depth_of ob)\<rparr>"]
    by simp
qed

definition fresh_books :: "engine \<Rightarrow> bool" where
  "fresh_books e \<longleftrightarrow> (\<forall>s ob. e s = Some ob \<longrightarrow> (\<exists>d. ob = NewOrderBook s d))"

lemma new_books_fresh:
  "new_books ids m e w = (e', w') \<Longrightarrow> fresh_books e \<Longrightarrow>
   fresh_books e' \<and> dom e' = dom e \<union> set ids \<and> same_mem w w' \<and> db w' = db w"
proof (induction ids arbitrary: m e w)
  case (Cons s ids)
  obtain d m1 where d: "GetMarketDepthStream s m = (d, m1)" by fastforce
  obtain tx w1 where g: "GetAskTransactionsForStock s 15 w = (tx, w1)" by fastforce
  define ob where "ob = (case tx of Inl _ \<Rightarrow> NewOrderBook s d | Inr txs \<Rightarrow> LoadOldTransactions txs (NewOrderBook s d))"
  have "\<exists>d. ob = NewOrderBook s d"
    using LoadOldTransactions_depth [of _ "NewOrderBook s d"] by (auto simp: ob_def NewOrderBook_def split: sum.splits)
  then have f: "fresh_books (e(s \<mapsto> ob))" using Cons.prems(2) by (auto simp: fresh_books_def)
  have r: "new_books ids m1 (e(s \<mapsto> ob)) w1 = (e', w')" using Cons.prems(1) d g by (simp add: ob_def Let_def)
  have "same_mem w w1 \<and> db w1 = db w" using g by (auto simp: GetAskTransactionsForStock_def Let_def dest: db_ok_same split: prod.splits if_splits)
  then show ?case using Cons.IH [OF r f] by (auto simp: same_mem_def)
qed (simp add: same_mem_def)

text \<open>An old order is pushed on the queue of its kind.\<close>

lemma LoadOldAsk_good:
  assumes b: "book_good s w ob" and r: "r < nextRef w" "o_StockId (askObj w r) = s" "r \<notin># ask_live ob"
  obtains ob' where "LoadOldAsk r w ob = Some ob'" "book_good s w ob'"
    "ask_live ob' = add_mset r (ask_live ob)" "bid_live ob' = bid_live ob"
proof -
  have sa: "side_inv (askObj w) askComparator bidComparator (asks ob) (askStoploss ob)"
    using b by (simp add: book_good_def book_ok_def book_inv_def)
  have n: "r \<notin># pq_refs (asks ob)" "r \<notin># pq_refs (askStoploss ob)" using r(3) by (simp_all add: ask_live_def)
  show ?thesis
  proof (cases "o_OrderType (askObj w r) = StopLoss")
    case True
    obtain q where q: "pq_Push (askObj w) r (askStoploss ob) = Some q" "queue_ok (askObj w) bidComparator q"
      "pq_refs q = add_mset r (pq_refs (askStoploss ob))"
      using queue_push [of "askObj w" bidComparator "askStoploss ob" r] sa by (auto simp: side_inv_def)
    let ?ob = "ob\<lparr>askStoploss := q\<rparr>"
    have live: "ask_live ?ob = add_mset r (ask_live ob)" "bid_live ?ob = bid_live ob"
      by (simp_all add: ask_live_def bid_live_def q(3))
    have "side_inv (askObj w) askComparator bidComparator (asks ob) q"
      using sa q(2,3) n True by (simp add: side_inv_def uniq_add_mset)
    then have "book_ok w ?ob" using b r(2) by (auto simp: book_good_def book_ok_def book_inv_def q(3))
    then have "book_good s w ?ob" using b r by (auto simp: book_good_def live uniq_add_mset)
    then show ?thesis using that [of ?ob] live True q(1) by (simp add: LoadOldAsk_def)
  next
    case False
    obtain q where q: "pq_Push (askObj w) r (asks ob) = Some q" "pq_refs q = add_mset r (pq_refs (asks ob))"
      "side_inv (askObj w) askComparator bidComparator q (askStoploss ob)"
      by (rule side_inv_rest [OF sa, of r]) (use n in simp)
    let ?ob = "ob\<lparr>asks := q\<rparr>"
    have live: "ask_live ?ob = add_mset r (ask_live ob)" "bid_live ?ob = bid_live ob"
      by (simp_all add: ask_live_def bid_live_def q(2))
    have "book_ok w ?ob" using b r(2) q by (auto simp: book_good_def book_ok_def book_inv_def)
    then have "book_good s w ?ob" using b r by (auto simp: book_good_def live uniq_add_mset)
    then show ?thesis using that [of "addAskToDepth (askObj w r) ?ob"] live False q(1)
      by (simp add: LoadOldAsk_def addAskToDepth_def)
  qed
qed

lemma LoadOldBid_good:
  assumes b: "book_good s w ob" and r: "r < nextRef w" "o_StockId (bidObj w r) = s" "r \<notin># bid_live ob"
  obtains ob' where "LoadOldBid r w ob = Some ob'" "book_good s w ob'"
    "bid_live ob' = add_mset r (bid_live ob)" "ask_live ob' = ask_live ob"
proof -
  have sb: "side_inv (bidObj w) bidComparator askComparator (bids ob) (bidStoploss ob)"
    using b by (simp add: book_good_def book_ok_def book_inv_def)
  have n: "r \<notin># pq_refs (bids ob)" "r \<notin># pq_refs (bidStoploss ob)" using r(3) by (simp_all add: bid_live_def)
  show ?thesis
  proof (cases "o_OrderType (bidObj w r) = StopLoss")
    case True
    obtain q where q: "pq_Push (bidObj w) r (bidStoploss ob) = Some q" "queue_ok (bidObj w) askComparator q"
      "pq_refs q = add_mset r (pq_refs (bidStoploss ob))"
      using queue_push [of "bidObj w" askComparator "bidStoploss ob" r] sb by (auto simp: side_inv_def)
    let ?ob = "ob\<lparr>bidStoploss := q\<rparr>"
    have live: "bid_live ?ob = add_mset r (bid_live ob)" "ask_live ?ob = ask_live ob"
      by (simp_all add: ask_live_def bid_live_def q(3))
    have "side_inv (bidObj w) bidComparator askComparator (bids ob) q"
      using sb q(2,3) n True by (simp add: side_inv_def uniq_add_mset)
    then have "book_ok w ?ob" using b by (auto simp: book_good_def book_ok_def book_inv_def)
    then have "book_good s w ?ob" using b r by (auto simp: book_good_def live uniq_add_mset)
    then show ?thesis using that [of ?ob] live True q(1) by (simp add: LoadOldBid_def)
  next
    case False
    obtain q where q: "pq_Push (bidObj w) r (bids ob) = Some q" "pq_refs q = add_mset r (pq_refs (bids ob))"
      "side_inv (bidObj w) bidComparator askComparator q (bidStoploss ob)"
      by (rule side_inv_rest [OF sb, of r]) (use n in simp)
    let ?ob = "ob\<lparr>bids := q\<rparr>"
    have live: "bid_live ?ob = add_mset r (bid_live ob)" "ask_live ?ob = ask_live ob"
      by (simp_all add: ask_live_def bid_live_def q(2))
    have "book_ok w ?ob" using b q by (auto simp: book_good_def book_ok_def book_inv_def)
    then have "book_good s w ?ob" using b r by (auto simp: book_good_def live uniq_add_mset)
    then show ?thesis using that [of "addBidToDepth (bidObj w r) ?ob"] live False q(1)
      by (simp add: LoadOldBid_def addBidToDepth_def)
  qed
qed

section \<open>Loading\<close>

lemma load_old_asks_good:
  "(\<And>s ob. e s = Some ob \<Longrightarrow> book_good s w ob) \<Longrightarrow> asks_waiting e w rs \<Longrightarrow>
   \<exists>e'. load_old_asks rs w e = Some e' \<and> dom e' = dom e \<and>
     (\<forall>s ob'. e' s = Some ob' \<longrightarrow> book_good s w ob' \<and> (\<exists>ob. e s = Some ob \<and> bid_live ob' = bid_live ob))"
proof (induction rs arbitrary: e)
  case (Cons r rs)
  define s where "s = o_StockId (askObj w r)"
  have r: "r < nextRef w" "s \<in> dom e" "\<And>s ob. e s = Some ob \<Longrightarrow> r \<notin># ask_live ob" "r \<notin> set rs" "distinct rs"
    using Cons.prems(2) by (auto simp: asks_waiting_def s_def)
  then obtain ob where ob: "e s = Some ob" by blast
  obtain ob' where l: "LoadOldAsk r w ob = Some ob'" "book_good s w ob'"
    "ask_live ob' = add_mset r (ask_live ob)" "bid_live ob' = bid_live ob"
    by (rule LoadOldAsk_good [OF Cons.prems(1) [OF ob] r(1) s_def [symmetric] r(3) [OF ob]])
  let ?e = "e(s \<mapsto> ob')"
  have d: "dom ?e = dom e" using ob by auto
  have "asks_waiting ?e w rs" using Cons.prems(2) r(4,5) ob unfolding asks_waiting_def d by (auto simp: l(3))
  moreover have "book_good s' w ob2" if "?e s' = Some ob2" for s' ob2
    using that l(2) Cons.prems(1) by (cases "s' = s") auto
  ultimately obtain e' where IH: "load_old_asks rs w ?e = Some e'" "dom e' = dom ?e"
    "\<forall>s ob'. e' s = Some ob' \<longrightarrow> book_good s w ob' \<and> (\<exists>ob. ?e s = Some ob \<and> bid_live ob' = bid_live ob)"
    using Cons.IH by blast
  have "\<exists>ob. e s' = Some ob \<and> bid_live ob2 = bid_live ob" if "e' s' = Some ob2" for s' ob2
    using IH(3) [rule_format, OF that] l(4) ob by (cases "s' = s") auto
  then show ?case using IH ob l(1) d by (auto simp: s_def [symmetric])
qed simp

lemma load_old_bids_good:
  "(\<And>s ob. e s = Some ob \<Longrightarrow> book_good s w ob) \<Longrightarrow> bids_waiting e w rs \<Longrightarrow>
   \<exists>e'. load_old_bids rs w e = Some e' \<and> dom e' = dom e \<and> (\<forall>s ob'. e' s = Some ob' \<longrightarrow> book_good s w ob')"
proof (induction rs arbitrary: e)
  case (Cons r rs)
  define s where "s = o_StockId (bidObj w r)"
  have r: "r < nextRef w" "s \<in> dom e" "\<And>s ob. e s = Some ob \<Longrightarrow> r \<notin># bid_live ob" "r \<notin> set rs" "distinct rs"
    using Cons.prems(2) by (auto simp: bids_waiting_def s_def)
  then obtain ob where ob: "e s = Some ob" by blast
  obtain ob' where l: "LoadOldBid r w ob = Some ob'" "book_good s w ob'"
    "bid_live ob' = add_mset r (bid_live ob)" "ask_live ob' = ask_live ob"
    by (rule LoadOldBid_good [OF Cons.prems(1) [OF ob] r(1) s_def [symmetric] r(3) [OF ob]])
  let ?e = "e(s \<mapsto> ob')"
  have d: "dom ?e = dom e" using ob by auto
  have "bids_waiting ?e w rs" using Cons.prems(2) r(4,5) ob unfolding bids_waiting_def d by (auto simp: l(3))
  moreover have "book_good s' w ob2" if "?e s' = Some ob2" for s' ob2
    using that l(2) Cons.prems(1) by (cases "s' = s") auto
  ultimately have "\<exists>e'. load_old_bids rs w ?e = Some e' \<and> dom e' = dom ?e \<and> (\<forall>s ob'. e' s = Some ob' \<longrightarrow> book_good s w ob')"
    using Cons.IH by blast
  then show ?case using ob l(1) d by (simp add: s_def [symmetric])
qed simp

text \<open>What the server finds when it starts: the stocks are loaded, and an open order is of a listed stock.\<close>

definition start_ok :: "world \<Rightarrow> bool" where
  "start_ok w \<longleftrightarrow> set (map s_Id (Stocks (db w))) = dom (allStocks w) \<and>
     (\<forall>x \<in> set (Asks (db w)) \<union> set (Bids (db w)). \<not> o_IsClosed x \<longrightarrow> o_StockId x \<in> dom (allStocks w))"

lemma loadOldOrders_good:
  assumes st: "start_ok w" and db: "list_all id (take 3 (outcomes w))"
  obtains e w' where "loadOldOrders m w = Some (e, w')" "users w' = users w" "db w' = db w" "dom e = dom (allStocks w')"
    "server_ok \<lparr>sv_engine = e, sv_asks = [], sv_bids = [], sv_world = w'\<rparr>" "dom (allStocks w') = dom (allStocks w)"
proof -
  obtain w1 w2 w3 where o1: "db_ok w = (True, w1)" and o2: "db_ok w1 = (True, w2)" 
    and o3: "\<And>w2'. outcomes w2' = outcomes w2 \<Longrightarrow> \<exists>w3. db_ok w2' = (True, w3)"
    using db by (cases "outcomes w"; cases "tl (outcomes w)"; cases "tl (tl (outcomes w))") (auto simp: db_ok_def)
  note s1 = db_ok_same [OF o1] and s2 = db_ok_same [OF o2]
  define xs where "xs = filter (\<lambda>x. \<not> o_IsClosed x) (Asks (db w))"
  define ys where "ys = filter (\<lambda>x. \<not> o_IsClosed x) (Bids (db w))"
  obtain as v where la: "load_asks xs w2 = (as, v)" by fastforce
  note A = load_asks_objs [OF la]
  obtain v' where o3': "db_ok v = (True, v')" using o3 [of v] A by blast
  note s3 = db_ok_same [OF o3']
  obtain bs u where lb: "load_bids ys v' = (bs, u)" by fastforce
  note B = load_bids_objs [OF lb]
  let ?ids = "map s_Id (Stocks (db w))"
  obtain e w4 where nb: "new_books ?ids m Map.empty u = (e, w4)" by fastforce
  have fr: "fresh_books e" "dom e = set ?ids" "same_mem u w4" "db w4 = db u"
    using new_books_fresh [OF nb] by (auto simp: fresh_books_def)
  have same: "users w4 = users w" "db w4 = db w" "allStocks w4 = allStocks w" "nextRef w4 = nextRef u"
    "askObj w4 = askObj v" "bidObj w4 = bidObj u" "nextRef u = nextRef v + length ys" "nextRef v = nextRef w + length xs"
    "nextRef v' = nextRef v"
    using fr(3,4) A B s1 s2 s3 by (simp_all add: same_mem_def)
  have dom: "dom e = dom (allStocks w4)" using fr(2) st same(3) by (simp add: start_ok_def)
  have good: "book_good s w4 ob \<and> ask_live ob = {#} \<and> bid_live ob = {#}" if es: "e s = Some ob" for s ob
  proof -
    have "s \<in> dom (allStocks w4)" using es dom by blast
    moreover obtain d where "ob = NewOrderBook s d" using es fr(1) by (auto simp: fresh_books_def)
    ultimately show ?thesis using fresh_book_good by simp
  qed
  have stk: "\<not> o_IsClosed x \<Longrightarrow> x \<in> set (Asks (db w)) \<union> set (Bids (db w)) \<Longrightarrow> o_StockId x \<in> dom e" for x
    using st dom same(3) by (simp add: start_ok_def)
  have wa: "asks_waiting e w4 as"
    unfolding asks_waiting_def
  proof (intro conjI ballI)
    show "distinct as" using A by simp
    fix r assume "r \<in> set as"
    then have "nextRef w2 \<le> r" "r < nextRef w2 + length xs" using A by simp_all
    then obtain k where k: "k < length xs" "r = nextRef w + k"
      using in_upt [of "nextRef w2" r "length xs"] s1 s2 by (auto simp: same_mem_def)
    then have "askObj w4 r = xs ! k" using A same(5) s1 s2 by (simp add: same_mem_def)
    moreover have "o_StockId (xs ! k) \<in> dom e"
    proof (rule stk)
      have "xs ! k \<in> set xs" using k(1) by simp
      then show "\<not> o_IsClosed (xs ! k)" "xs ! k \<in> set (Asks (db w)) \<union> set (Bids (db w))" by (auto simp: xs_def)
    qed
    ultimately show "r < nextRef w4" "o_StockId (askObj w4 r) \<in> dom e" "\<forall>s ob. e s = Some ob \<longrightarrow> r \<notin># ask_live ob"
      using k same good by auto
  qed
  have wb: "bids_waiting e w4 bs"
    unfolding bids_waiting_def
  proof (intro conjI ballI)
    show "distinct bs" using B by simp
    fix r assume "r \<in> set bs"
    then have "nextRef v \<le> r" "r < nextRef v + length ys" using B same(9) by simp_all
    then obtain k where k: "k < length ys" "r = nextRef v + k"
      using in_upt [of "nextRef v" r "length ys"] by blast
    then have "bidObj w4 r = ys ! k" using B same(6,9) by simp
    moreover have "o_StockId (ys ! k) \<in> dom e"
    proof (rule stk)
      have "ys ! k \<in> set ys" using k(1) by simp
      then show "\<not> o_IsClosed (ys ! k)" "ys ! k \<in> set (Asks (db w)) \<union> set (Bids (db w))" by (auto simp: ys_def)
    qed
    ultimately show "r < nextRef w4" "o_StockId (bidObj w4 r) \<in> dom e" "\<forall>s ob. e s = Some ob \<longrightarrow> r \<notin># bid_live ob"
      using k same good by auto
  qed
  obtain e1 where e1: "load_old_asks as w4 e = Some e1" "dom e1 = dom e"
    "\<forall>s ob'. e1 s = Some ob' \<longrightarrow> book_good s w4 ob' \<and> (\<exists>ob. e s = Some ob \<and> bid_live ob' = bid_live ob)"
    using load_old_asks_good [OF _ wa] good by blast
  have "bids_waiting e1 w4 bs" using wb e1(2,3) unfolding bids_waiting_def by metis
  then obtain e2 where e2: "load_old_bids bs w4 e1 = Some e2" "dom e2 = dom e1"
    "\<forall>s ob'. e2 s = Some ob' \<longrightarrow> book_good s w4 ob'"
    using load_old_bids_good [of e1 w4 bs] e1(3) by blast
  have run: "loadOldOrders m w = Some (e2, w4)"
    using o1 o2 o3' la lb nb e1(1) e2(1) A s1 s2 s3
    by (simp add: loadOldOrders_def GetAllOpenAsks_def GetAllOpenBids_def xs_def ys_def)
  have "server_ok \<lparr>sv_engine = e2, sv_asks = [], sv_bids = [], sv_world = w4\<rparr>"
    using e2 e1(2) dom by (simp add: server_ok_def asks_waiting_def bids_waiting_def)
  then show ?thesis using that [OF run] same e2(2) e1(2) dom by simp
qed

section \<open>Starting the books\<close>

lemma start_book_good:
  assumes b: "book_good s w ob"
  obtains ob' w' where "StartStockMatching PerformOrderFillTransaction ob w = Some (ob', w')" "book_good s w' ob'"
    "objs_kept (set_mset (ask_refs ob)) (set_mset (bid_refs ob)) w w'"
    "ask_live ob' \<subseteq># ask_live ob" "bid_live ob' \<subseteq># bid_live ob" "keeps_accounts w w'"
proof -
  have "book_ok w ob" using b by (simp add: book_good_def)
  then obtain ob' w' where c: "clearExistingOrders PerformOrderFillTransaction ob w = Some (ob', w')"
    "cleared {#} w ob w' ob'" by (rule fills.clearExistingOrders_ok)
  have run: "StartStockMatching PerformOrderFillTransaction ob w = Some (ob', w')"
    using c(1) by (simp add: StartStockMatching_def)
  have k: "objs_kept (set_mset (ask_refs ob)) (set_mset (bid_refs ob)) w w'"
    using c(2) evolves_objs by (simp add: cleared_def)
  have l: "ask_live ob' \<subseteq># ask_live ob" "bid_live ob' \<subseteq># bid_live ob"
    using c(2) by (simp_all add: cleared_def same_book_def ask_live_def bid_live_def)
  have "book_good s w' ob'" by (rule book_good_shrink [OF b k l]) (use c(2) b in \<open>simp_all add: cleared_def same_book_def book_good_def\<close>)
  then show ?thesis using that run k l book.StartStockMatching_accounts [OF run] by blast
qed

lemma start_books_ok:
  "server_ok sv \<Longrightarrow> set ss \<subseteq> dom (sv_engine sv) \<Longrightarrow>
   \<exists>e' w'. start_books PerformOrderFillTransaction ss (sv_engine sv) (sv_world sv) = Some (e', w') \<and>
     server_ok (sv\<lparr>sv_engine := e', sv_world := w'\<rparr>) \<and> keeps_accounts (sv_world sv) w' \<and> dom e' = dom (sv_engine sv)"
proof (induction ss arbitrary: sv)
  case (Cons s ss)
  then obtain ob where ob: "sv_engine sv s = Some ob" by auto
  then have b: "book_good s (sv_world sv) ob" using Cons.prems(1) by (simp add: server_ok_def)
  obtain ob' w1 where 1: "StartStockMatching PerformOrderFillTransaction ob (sv_world sv) = Some (ob', w1)" "book_good s w1 ob'"
    "objs_kept (set_mset (ask_refs ob)) (set_mset (bid_refs ob)) (sv_world sv) w1"
    "ask_live ob' \<subseteq># ask_live ob" "bid_live ob' \<subseteq># bid_live ob" "keeps_accounts (sv_world sv) w1"
    by (rule start_book_good [OF b])
  let ?sv = "sv\<lparr>sv_engine := (sv_engine sv)(s \<mapsto> ob'), sv_world := w1\<rparr>"
  have ok: "server_ok ?sv" by (rule server_ok_round [OF Cons.prems(1) ob 1(2-5)])
  have d: "dom (sv_engine ?sv) = dom (sv_engine sv)" using ob by auto
  then have "set ss \<subseteq> dom (sv_engine ?sv)" using Cons.prems(2) by simp
  from Cons.IH [OF ok this] obtain e' w' where
    "start_books PerformOrderFillTransaction ss (sv_engine ?sv) (sv_world ?sv) = Some (e', w')"
    "server_ok (?sv\<lparr>sv_engine := e', sv_world := w'\<rparr>)" "keeps_accounts (sv_world ?sv) w'" "dom e' = dom (sv_engine ?sv)" by blast
  then show ?case using ob 1(1) d keeps_accounts_trans [OF 1(6)] by simp
qed simp

lemma NewMatchingEngine_ok:
  assumes st: "start_ok w" and db: "list_all id (take 3 (outcomes w))" and sch: "set schedule \<subseteq> dom (allStocks w)"
  obtains e w' where "NewMatchingEngine PerformOrderFillTransaction schedule m w = Some (e, w')"
    "server_ok \<lparr>sv_engine = e, sv_asks = [], sv_bids = [], sv_world = w'\<rparr>" "keeps_accounts w w'"
    "dom e = dom (allStocks w')"
proof -
  obtain e w1 where l: "loadOldOrders m w = Some (e, w1)" "users w1 = users w" "db w1 = db w" "dom e = dom (allStocks w1)"
    "server_ok \<lparr>sv_engine = e, sv_asks = [], sv_bids = [], sv_world = w1\<rparr>" "dom (allStocks w1) = dom (allStocks w)"
    by (rule loadOldOrders_good [OF st db])
  have "set schedule \<subseteq> dom (sv_engine \<lparr>sv_engine = e, sv_asks = [], sv_bids = [], sv_world = w1\<rparr>)"
    using sch l(4,6) by simp
  from start_books_ok [OF l(5) this] obtain e' w' where s:
    "start_books PerformOrderFillTransaction schedule e w1 = Some (e', w')"
    "server_ok \<lparr>sv_engine = e', sv_asks = [], sv_bids = [], sv_world = w'\<rparr>" "keeps_accounts w1 w'" "dom e' = dom e"
    by auto
  have k: "keeps_accounts w w'" using keeps_accounts_trans [OF keeps_accounts_same s(3)] l(2,3) by simp
  have "dom (allStocks w') \<subseteq> dom e'" using s(2) by (simp add: server_ok_def)
  moreover have "dom e' \<subseteq> dom (allStocks w')"
    using s(2) by (auto simp: server_ok_def book_good_def book_ok_def)
  ultimately show ?thesis using that [OF _ s(2) k] l(1) s(1) by (simp add: NewMatchingEngine_def)
qed

end
