(* ===== verification/Demo.thy ===== *)
theory Demo
  imports Matching_Accounts Short_Sell Exchange Placing
begin

text \<open>
  A small concrete state, at which the properties are instantiated: one stock at price 100
  with 40 shares in the bank for short sells, the users 1 and 2 with 10000 each, an open ask
  of user 1 and an open bid of user 2 for 5 shares, and no order in the book yet.
\<close>

definition demo_stock :: stock where
  "demo_stock = \<lparr>s_Id = 1, s_ShortName = ''ABC'', s_FullName = [], s_Description = [],
     s_CurrentPrice = 100, s_DayHigh = 100, s_DayLow = 100, s_AllTimeHigh = 100, s_AllTimeLow = 100,
     s_StocksInExchange = 500, s_StocksInMarket = 500, s_PreviousDayClose = 100, s_UpOrDown = False,
     s_LastTradePrice = 100, s_RealAvgPrice = 100, s_CreatedAt = [], s_UpdatedAt = [],
     s_GivesDividends = False, s_IsBankrupt = False, s_open = 100, s_high = 100, s_low = 100, s_volume = 0\<rparr>"

definition demo_user :: "u32 \<Rightarrow> user" where
  "demo_user i = zero_user\<lparr>u_Id := i, u_Cash := 10000, u_Total := 10000\<rparr>"

definition demo_order :: "u32 \<Rightarrow> u32 \<Rightarrow> order" where
  "demo_order i uid = zero_order\<lparr>o_Id := i, o_UserId := uid, o_StockId := 1, o_Price := 100, o_StockQuantity := 5\<rparr>"

definition demo_tables :: tables where
  "demo_tables = \<lparr>Users = [demo_user 1, demo_user 2], Asks = [demo_order 1 1], Bids = [demo_order 2 2],
     Stocks = [demo_stock], Transactions = [], OrderDeposits = [], OrderFills = [], Summaries = [],
     ShortSellBank = [\<lparr>ssb_StockId = 1, ssb_AvailableStocks = 40\<rparr>],
     ShortSellLends = [\<lparr>sl_Id = 1, sl_StockId = 1, sl_UserId = 1, sl_StockQuantity = 3, sl_IsSquaredOff = False\<rparr>],
     Mortgages = [], IpoStocks = [], IpoBids = [], Configs = [], DailyChallenges = [], UserStates = [],
     EndOfDayValues = [], Leaderboard = [], DailyLeaderboard = [], StockHistories = []\<rparr>"

definition demo :: world where
  "demo = \<lparr>users = [1 \<mapsto> demo_user 1, 2 \<mapsto> demo_user 2], askObj = (\<lambda>r. demo_order 1 1),
     bidObj = (\<lambda>r. demo_order 2 2), nextRef = 1, asksMap = Map.empty, bidsMap = Map.empty,
     allStocks = [1 \<mapsto> demo_stock], avgLastPrice = [1 \<mapsto> 100], db = demo_tables, nextId = 10,
     outcomes = [], now = ''noon'', TotalUserCount = 2, isMarketOpen = True\<rparr>"

definition demo_book :: orderBook where
  "demo_book = NewOrderBook 1 newMarketDepthStream"

lemmas demo_defs = demo_def demo_tables_def demo_user_def demo_order_def demo_stock_def zero_user_def zero_order_def

lemma demo_book_empty:
  "ask_refs demo_book = {#}" "bid_refs demo_book = {#}" "pq_refs (asks demo_book) = {#}"
  "pq_refs (bids demo_book) = {#}" "pq_refs (askStoploss demo_book) = {#}" "pq_refs (bidStoploss demo_book) = {#}"
  by (simp_all add: demo_book_def NewOrderBook_def queue_simps)

lemma demo_book_ok: "book_ok w demo_book" if "1 \<in> dom (allStocks w)"
proof -
  have "pq_comparator (NewAskPQueue MINPQ) = askComparator" "pq_comparator (NewAskPQueue MAXPQ) = bidComparator"
    "pq_comparator (NewBidPQueue MAXPQ) = bidComparator" "pq_comparator (NewBidPQueue MINPQ) = askComparator"
    by (simp_all add: NewAskPQueue_def NewBidPQueue_def)
  then show ?thesis using that
    by (simp add: book_ok_def book_inv_def side_inv_def queue_ok_def demo_book_def NewOrderBook_def queue_simps uniq_def)
qed

text \<open>The same with the deposit of the bid in the ledger, so that the two orders can trade.\<close>

definition demo_placed :: world where
  "demo_placed = demo\<lparr>db := (db demo)\<lparr>
     Transactions := [\<lparr>t_Id = 1, t_UserId = 2, t_StockId = 1, t_Type = PlaceOrderTransaction,
        t_ReservedStockQuantity = 0, t_StockQuantity = 0, t_Price = 0, t_ReservedCashTotal = 500,
        t_Total = -500, t_CreatedAt = []\<rparr>],
     OrderDeposits := [\<lparr>od_TransactionId = 1, od_OrderId = 2, od_IsAsk = False, od_CreatedAt = []\<rparr>]\<rparr>\<rparr>"

lemma demo_trades:
  "\<exists>sa sb t w'. PerformOrderFillTransaction 0 0 100 5 demo_placed = Some ((sa, sb, Some t), w')"
proof (rule PerformOrderFill_live)
  let ?tr = "\<lparr>t_Id = 1, t_UserId = 2, t_StockId = 1, t_Type = PlaceOrderTransaction,
        t_ReservedStockQuantity = 0, t_StockQuantity = 0, t_Price = 0, t_ReservedCashTotal = 500,
        t_Total = -500, t_CreatedAt = []\<rparr>"
  show "deposit_rows (o_Id (bidObj demo_placed 0)) False (db demo_placed) = ?tr # []"
    by (simp add: demo_placed_def demo_defs deposit_rows_def)
  have "reserve_share 500 5 5 = 500" by code_simp
  then show "\<not> s_less (cash_left 100 5 (reserve_share (- t_Total ?tr) 5 (o_StockQuantity (bidObj demo_placed 0)))
      (usr demo_placed (o_UserId (bidObj demo_placed 0)))) 0"
    by (simp add: demo_placed_def demo_defs cash_left_def usr_def s_less_def)
qed (simp_all add: demo_placed_def demo_defs fillable_def)

end
