(* ===== verification/Server_Properties.thy ===== *)
theory Server_Properties
  imports Engine_Start Demo
begin

text \<open>
  The properties of the server as a whole, and of the requests of players, each with its
  instance at the concrete state of \<open>Demo\<close>.
\<close>

section \<open>The server at work\<close>


lemma demo_start:
  "start_ok demo" "list_all id (take 3 (outcomes demo))" "set [1] \<subseteq> dom (allStocks demo)" "keyed demo" "synced demo 1"
  by (auto simp: start_ok_def demo_defs keyed_def synced_def)


text \<open>
  C7. The server starts: if the open orders can be read, and each is of a listed stock, the
  engine is made and every book ends its first matching, whatever calls fail in it; there is
  then a book for every stock.
\<close>

theorem engine_starts:
  assumes "start_ok w" "list_all id (take 3 (outcomes w))" "set schedule \<subseteq> dom (allStocks w)"
  shows "\<exists>e w'. NewMatchingEngine PerformOrderFillTransaction schedule m w = Some (e, w') \<and>
    dom e = dom (allStocks w') \<and> (\<forall>s ob. e s = Some ob \<longrightarrow> book_good s w' ob)"
proof -
  obtain e w' where "NewMatchingEngine PerformOrderFillTransaction schedule m w = Some (e, w')"
    "server_ok \<lparr>sv_engine = e, sv_asks = [], sv_bids = [], sv_world = w'\<rparr>" "dom e = dom (allStocks w')"
    by (rule NewMatchingEngine_ok [OF assms, of m])
  then show ?thesis by (auto simp: server_ok_def)
qed

theorem engine_starts_witness:
  "\<exists>e w'. NewMatchingEngine PerformOrderFillTransaction [1] Map.empty demo = Some (e, w')"
  using engine_starts [OF demo_start(1-3), of Map.empty] by blast







end
