(* ===== verification/Request_Properties.thy ===== *)
theory Request_Properties
  imports Demo Cancelling Exchange_Proofs
begin

text \<open>
  The properties of the requests of players that pay at once: placing and cancelling orders,
  buying from the exchange, and mortgages.
\<close>

section \<open>Placing a bid\<close>











section \<open>Placing and cancelling\<close>



text \<open>
  C18. The share of a reserve that goes with a part of an order is exact, although it is computed in
  floating point: for a reserve of \<open>price * whole\<close> it is \<open>price * part\<close>, as long as the intermediate
  product is below \<open>2 ^ 53\<close>.
\<close>

theorem reserve_share_correct:
  assumes "sint reserved = price * uint whole" "uint part \<le> uint whole" "0 < uint whole" "0 \<le> price"
    and "price * uint whole * uint whole < 2 ^ 53"
  shows "reserve_share reserved part whole = word_of_int (price * uint part)"
  by (rule reserve_share_exact [OF assms])

theorem reserve_share_correct_witness: "reserve_share 500 2 5 = 200"
proof -
  have "sint (500 :: i64) = 500" by (simp add: sint_uint signed_take_bit_int_eq_self)
  then show ?thesis using reserve_share_correct [of 500 100 5 2] by simp
qed

section \<open>Buying from the exchange\<close>




section \<open>Mortgages\<close>




end
