(* ===== verification/Ipo.thy ===== *)
theory Ipo
  imports Accounts Ledger Stocks
begin

text \<open>
  Initial public offerings: \<^verbatim>\<open>models/Ipo.go\<close> and \<^verbatim>\<open>models/IpoBid.go\<close>. A player bids for one slot,
  and the price of the slot is reserved; when the bidding is closed the slots are allotted, the other
  bids are refunded, and the stock is listed at a price that depends on how many bid.

  A deferred \<^verbatim>\<open>close(ch)\<close> runs although the user could not be locked, when \<^verbatim>\<open>ch\<close> is nil: that panics,
  \<open>None\<close>. The transactions of bids are inserted with \<^verbatim>\<open>NULL\<close> for the stock, which gorm reads back as 0.
  The notifications are left out.
\<close>

section \<open>The stocks on offer\<close>

definition zero_ipo_stock :: ipo_stock where
  "zero_ipo_stock = \<lparr>is_Id = 0, is_ShortName = [], is_FullName = [], is_Description = [], is_CreatedAt = [],
     is_UpdatedAt = [], is_IsBiddable = False, is_SlotPrice = 0, is_StockPrice = 0, is_SlotQuantity = 0,
     is_StocksPerSlot = 0\<rparr>"

definition save_ipo_stock :: "ipo_stock \<Rightarrow> tables \<Rightarrow> tables" where
  "save_ipo_stock x t = t\<lparr>IpoStocks := upsert is_Id x (IpoStocks t)\<rparr>"

definition save_ipo_bid :: "ipo_bid \<Rightarrow> tables \<Rightarrow> tables" where
  "save_ipo_bid b t = t\<lparr>IpoBids := upsert ib_Id b (IpoBids t)\<rparr>"

definition insert_ipo_bid :: "ipo_bid \<Rightarrow> u32 \<Rightarrow> tables \<Rightarrow> tables" where
  "insert_ipo_bid b i t = t\<lparr>IpoBids := IpoBids t @ [b\<lparr>ib_Id := i\<rparr>]\<rparr>"

definition GetAllIpoStocks :: "world \<Rightarrow> (go_error + (u32 \<rightharpoonup> ipo_stock)) \<times> world" where
  "GetAllIpoStocks w =
     (let (ok, w1) = db_ok w
      in if \<not> ok then (Inl DbError, w1)
         else (Inr (fold (\<lambda>x m. m(is_Id x \<mapsto> x)) (IpoStocks (db w1)) Map.empty), w1))"

text \<open>\<^verbatim>\<open>First\<close> by primary key; the record, or why there is none.\<close>

definition first_ipo_stock :: "u32 \<Rightarrow> world \<Rightarrow> (go_error + ipo_stock) \<times> world" where
  "first_ipo_stock i w =
     (let (ok, w1) = db_ok w
      in if \<not> ok then (Inl DbError, w1)
         else (case row is_Id i (IpoStocks (db w1)) of None \<Rightarrow> (Inl RecordNotFound, w1) | Some x \<Rightarrow> (Inr x, w1)))"

definition AllowIpoBidding :: "u32 \<Rightarrow> world \<Rightarrow> go_error option \<times> world" where
  "AllowIpoBidding ipoStockId w =
     (let (r, w1) = first_ipo_stock ipoStockId w in
      (case r of
         Inl e \<Rightarrow> (Some e, w1)
       | Inr x \<Rightarrow>
           if is_IsBiddable x then (Some (IpoAlreadyOpenError ipoStockId), w1)
           else let x1 = x\<lparr>is_IsBiddable := True, is_UpdatedAt := now w1\<rparr>; (ok, w2) = db_ok w1
                in if ok then (None, w2\<lparr>db := save_ipo_stock x1 (db w2)\<rparr>) else (Some DbError, w2)))"

section \<open>Bids\<close>

text \<open>The query for the row just written, whose result is only shown to the user.\<close>

definition find_ipo_tx :: "u32 \<Rightarrow> i64 \<Rightarrow> txop" where
  "find_ipo_tx i tot = (\<lambda>(w, t). let (ok, w1) = db_ok w
     in (ok \<and> list_ex (\<lambda>x. t_UserId x = i \<and> t_Type x = IpoAllotmentTransaction \<and> t_Total x = tot) (Transactions t), w1, t))"

definition ipo_bid_tx :: "u32 \<Rightarrow> i64 \<Rightarrow> i64 \<Rightarrow> string \<Rightarrow> transaction" where
  "ipo_bid_tx i reserved tot t = GetTransactionRef i 0 IpoAllotmentTransaction 0 0 0 reserved tot t"

text \<open>
  The user is changed in memory and gets the old cash back when the transaction fails. The id the
  database gives the bid is returned as well, which in the code is a field of the bid.
\<close>

definition SaveNewIpoBidTransaction :: "ipo_bid \<Rightarrow> u32 \<Rightarrow> u64 \<Rightarrow> world \<Rightarrow> ((go_error option \<times> u32) \<times> world) option" where
  "SaveNewIpoBidTransaction bid i price w =
     (let (e, w1) = getUserExclusively i w in
      if e \<noteq> None then None
      else let u = usr w1 i;
               u1 = u\<lparr>u_Cash := u_Cash u - price, u_ReservedCash := u_ReservedCash u + price\<rparr>;
               (ok, w2) = tx_run
                 [tx_insert (insert_ipo_bid bid), tx_save (save_user u1),
                  tx_insert (insert_tx (ipo_bid_tx (u_Id u) price (- price) (now w1))),
                  find_ipo_tx (u_Id u) (- price)] (set_user i u1 w1)
           in Some (if ok then ((None, nextId w1), w2)
                    else ((Some DbError, nextId w1),
                          set_user i ((usr w2 i)\<lparr>u_Cash := u_Cash u, u_ReservedCash := u_ReservedCash u\<rparr>) w2)))"

definition SaveCancelledIpoBidTransaction :: "ipo_bid \<Rightarrow> u64 \<Rightarrow> world \<Rightarrow> (go_error option \<times> world) option" where
  "SaveCancelledIpoBidTransaction bid price w =
     (let i = ib_UserId bid; (e, w1) = getUserExclusively i w in
      if e \<noteq> None then None
      else let u = usr w1 i;
               u1 = u\<lparr>u_Cash := u_Cash u + price, u_ReservedCash := u_ReservedCash u - price\<rparr>;
               (ok, w2) = tx_run
                 [tx_save (save_ipo_bid bid), tx_save (save_user u1),
                  tx_insert (insert_tx (ipo_bid_tx (u_Id u) (- price) price (now w1))),
                  find_ipo_tx (u_Id u) (- price)] (set_user i u1 w1)
           in Some (if ok then (None, w2)
                    else (Some DbError,
                          set_user i ((usr w2 i)\<lparr>u_Cash := u_Cash u, u_ReservedCash := u_ReservedCash u\<rparr>) w2)))"

text \<open>
  The Boolean of the result says that the function returned with the user still locked: the return
  for too little cash comes before \<^verbatim>\<open>close(ch)\<close>. Errors of the query for the stock are ignored, and any
  error but \<^verbatim>\<open>RecordNotFound\<close> of the query for an older bid counts as a bid that was found.
\<close>

definition CreateIpoBid :: "u32 \<Rightarrow> u32 \<Rightarrow> u32 \<Rightarrow> world \<Rightarrow> ((go_error + u32) \<times> bool \<times> world) option" where
  "CreateIpoBid i ipoStockId slotQuantity w =
     (if slotQuantity \<noteq> 1 then Some (Inl IpoOrderStockLimitExceeded, False, w)
      else let (r, w1) = first_ipo_stock ipoStockId w;
               x = (case r of Inl _ \<Rightarrow> zero_ipo_stock | Inr x \<Rightarrow> x);
               (e, w2) = getUserExclusively i w1 in
        (case e of
           Some err \<Rightarrow> Some (Inl err, False, w2)
         | None \<Rightarrow>
             if u_Cash (usr w2 i) < is_SlotPrice x then Some (Inl NotEnoughCashError, True, w2)
             else if \<not> is_IsBiddable x then Some (Inl (IpoNotBiddableError ipoStockId), False, w2)
             else let (ok, w3) = db_ok w2 in
               if \<not> ok \<or> list_ex (\<lambda>b. ib_UserId b = i \<and> \<not> ib_IsClosed b \<and> ib_IpoStockId b = ipoStockId) (IpoBids (db w3))
               then Some (Inl IpoOrderStockLimitExceeded, False, w3)
               else let bid = \<lparr>ib_Id = 0, ib_UserId = i, ib_IpoStockId = ipoStockId, ib_SlotPrice = is_SlotPrice x,
                          ib_SlotQuantity = slotQuantity, ib_IsFulfilled = False, ib_IsClosed = False,
                          ib_CreatedAt = now w3, ib_UpdatedAt = now w3\<rparr>
                    in do { ((err, bidId), w4) \<leftarrow> SaveNewIpoBidTransaction bid i (ucast slotQuantity * is_SlotPrice x) w3;
                            Some (case err of None \<Rightarrow> (Inr bidId, False, w4) | Some y \<Rightarrow> (Inl y, False, w4)) }))"

definition CancelIpoBid :: "u32 \<Rightarrow> world \<Rightarrow> (go_error option \<times> world) option" where
  "CancelIpoBid ipoBidId w =
     (let (ok, w1) = db_ok w in
      if \<not> ok then Some (Some DbError, w1)
      else (case row ib_Id ipoBidId (IpoBids (db w1)) of
              None \<Rightarrow> Some (Some RecordNotFound, w1)
            | Some b \<Rightarrow>
                if ib_IsClosed b then Some (Some (AlreadyClosedError (ib_Id b)), w1)
                else let (r, w2) = first_ipo_stock (ib_IpoStockId b) w1;
                         x = (case r of Inl _ \<Rightarrow> zero_ipo_stock | Inr x \<Rightarrow> x) in
                  if \<not> is_IsBiddable x then Some (Some (IpoNotBiddableError (ib_IpoStockId b)), w2)
                  else SaveCancelledIpoBidTransaction (b\<lparr>ib_IsClosed := True, ib_UpdatedAt := now w2\<rparr>)
                         (ucast (ib_SlotQuantity b) * ib_SlotPrice b) w2))"

definition GetMyIpoBids :: "u32 \<Rightarrow> world \<Rightarrow> (go_error + ipo_bid list) \<times> world" where
  "GetMyIpoBids i w =
     (let (ok, w1) = db_ok w
      in if \<not> ok then (Inl DbError, w1) else (Inr (filter (\<lambda>b. ib_UserId b = i) (IpoBids (db w1))), w1))"

section \<open>Allotment\<close>

text \<open>The quotient of two counts as a \<^verbatim>\<open>float64\<close>, which is not a number when both are 0.\<close>

datatype ratio = Finite f64 | PosInf | NaN

definition count_ratio :: "nat \<Rightarrow> u32 \<Rightarrow> ratio" where
  "count_ratio n q =
     (if q = 0 then if n = 0 then NaN else PosInf
      else Finite (fdiv (fl64 (of_nat n)) (fl64 (of_int (uint q)))))"

fun ratio_le :: "ratio \<Rightarrow> f64 \<Rightarrow> bool" where
  "ratio_le (Finite x) c = (x \<le> c)" | "ratio_le _ c = False"

fun ratio_less :: "ratio \<Rightarrow> f64 \<Rightarrow> bool" where
  "ratio_less (Finite x) c = (x < c)" | "ratio_less _ c = False"

fun ratio_ge :: "ratio \<Rightarrow> f64 \<Rightarrow> bool" where
  "ratio_ge (Finite x) c = (c \<le> x)" | "ratio_ge PosInf c = True" | "ratio_ge NaN c = False"

fun ratio_gt :: "ratio \<Rightarrow> f64 \<Rightarrow> bool" where
  "ratio_gt (Finite x) c = (c < x)" | "ratio_gt PosInf c = True" | "ratio_gt NaN c = False"

definition listing_price :: "ratio \<Rightarrow> u64 \<Rightarrow> u64" where
  "listing_price r price =
     (if ratio_le r (fl64 (21 / 20)) \<and> ratio_ge r (fl64 (19 / 20)) then price
      else if ratio_less r (fl64 (6 / 5)) \<and> ratio_gt r (fl64 (21 / 20)) then price * 105 div 100
      else if ratio_less r (fl64 (19 / 20)) \<and> ratio_gt r (fl64 (4 / 5)) then price * 95 div 100
      else if ratio_ge r (fl64 (6 / 5)) then price * 110 div 100
      else price * 90 div 100)"

definition allotIpoSlotToUser :: "ipo_bid \<Rightarrow> u32 \<Rightarrow> u32 \<Rightarrow> u32 \<Rightarrow> i64 \<Rightarrow> u64 \<Rightarrow> world \<Rightarrow> (go_error option \<times> world) option" where
  "allotIpoSlotToUser bid newStockId slotQuantity stocksPerSlot cost stockPrice w =
     (let i = ib_UserId bid;
          tr = GetTransactionRef i newStockId IpoAllotmentTransaction 0 (ucast (slotQuantity * stocksPerSlot)) stockPrice
                 (- cost) 0 (now w);
          bid' = bid\<lparr>ib_IsFulfilled := True, ib_IsClosed := True, ib_UpdatedAt := now w\<rparr>;
          (e, w1) = getUserExclusively i w in
      if e \<noteq> None then None
      else let u = usr w1 i;
               u1 = u\<lparr>u_ReservedCash := u_ReservedCash u - cost\<rparr>;
               (ok, w2) = tx_run [tx_save (save_ipo_bid bid'), tx_save (save_user u1), tx_insert (insert_tx tr)]
                 (set_user i u1 w1)
           in Some (if ok then (None, w2)
                    else (Some DbError, set_user i ((usr w2 i)\<lparr>u_ReservedCash := u_ReservedCash u\<rparr>) w2)))"

definition RefundIpoSlotToUser :: "ipo_bid \<Rightarrow> u32 \<Rightarrow> i64 \<Rightarrow> world \<Rightarrow> (go_error option \<times> world) option" where
  "RefundIpoSlotToUser bid newStockId cost w =
     (let i = ib_UserId bid;
          tr = GetTransactionRef i newStockId IpoAllotmentTransaction 0 0 0 (- cost) cost (now w);
          bid' = bid\<lparr>ib_IsClosed := True, ib_UpdatedAt := now w\<rparr>;
          (e, w1) = getUserExclusively i w in
      if e \<noteq> None then None
      else let u = usr w1 i;
               u1 = u\<lparr>u_Cash := u_Cash u + cost, u_ReservedCash := u_ReservedCash u - cost\<rparr>;
               (ok, w2) = tx_run [tx_save (save_ipo_bid bid'), tx_save (save_user u1), tx_insert (insert_tx tr)]
                 (set_user i u1 w1)
           in Some (if ok then (None, w2)
                    else (Some DbError,
                          set_user i ((usr w2 i)\<lparr>u_Cash := u_Cash u, u_ReservedCash := u_ReservedCash u\<rparr>) w2)))"

fun allot_all :: "ipo_bid list \<Rightarrow> u32 \<Rightarrow> u32 \<Rightarrow> i64 \<Rightarrow> u64 \<Rightarrow> world \<Rightarrow> (go_error option \<times> world) option" where
  "allot_all [] newStockId stocksPerSlot cost price w = Some (None, w)"
| "allot_all (b # bs) newStockId stocksPerSlot cost price w =
     do { (e, w1) \<leftarrow> allotIpoSlotToUser b newStockId (ib_SlotQuantity b) stocksPerSlot cost price w;
          if e \<noteq> None then Some (e, w1) else allot_all bs newStockId stocksPerSlot cost price w1 }"

fun refund_all :: "ipo_bid list \<Rightarrow> u32 \<Rightarrow> i64 \<Rightarrow> world \<Rightarrow> (go_error option \<times> world) option" where
  "refund_all [] newStockId cost w = Some (None, w)"
| "refund_all (b # bs) newStockId cost w =
     do { (e, w1) \<leftarrow> RefundIpoSlotToUser b newStockId cost w;
          if e \<noteq> None then Some (e, w1) else refund_all bs newStockId cost w1 }"

definition open_ipo_bids :: "u32 \<Rightarrow> tables \<Rightarrow> ipo_bid list" where
  "open_ipo_bids ipoStockId t = filter (\<lambda>b. ib_IpoStockId b = ipoStockId \<and> \<not> ib_IsClosed b) (IpoBids t)"

definition listed_stock :: "ipo_stock \<Rightarrow> u64 \<Rightarrow> string \<Rightarrow> stock" where
  "listed_stock x price t =
     \<lparr>s_Id = 0, s_ShortName = is_ShortName x, s_FullName = is_FullName x, s_Description = is_Description x,
      s_CurrentPrice = price, s_DayHigh = price, s_DayLow = price, s_AllTimeHigh = price, s_AllTimeLow = price,
      s_StocksInExchange = 0, s_StocksInMarket = 0, s_PreviousDayClose = price, s_UpOrDown = True,
      s_LastTradePrice = price, s_RealAvgPrice = f_of_u64 price, s_CreatedAt = t, s_UpdatedAt = t,
      s_GivesDividends = False, s_IsBankrupt = False, s_open = 0, s_high = 0, s_low = 0, s_volume = 0\<rparr>"

text \<open>
  The slots go to the bidders: to all of them if the offer is not oversubscribed, otherwise to as many
  as there are slots, in the random order of the query (\<open>shuffle\<close>), and the others are refunded. The
  result is the error, or the number of stocks in the market.
\<close>

definition allot_bids ::
  "(ipo_bid list \<Rightarrow> ipo_bid list) \<Rightarrow> ipo_stock \<Rightarrow> ratio \<Rightarrow> ipo_bid list \<Rightarrow> u32 \<Rightarrow> u64 \<Rightarrow> world \<Rightarrow>
   ((go_error + u64) \<times> world) option" where
  "allot_bids shuffle x r bids newStockId price w =
     (let cost = is_SlotPrice x in
      if ratio_le r 1
      then do { (e, w1) \<leftarrow> allot_all bids newStockId (is_StocksPerSlot x) cost price w;
                Some (case e of Some err \<Rightarrow> (Inl err, w1)
                      | None \<Rightarrow> (Inr (ucast (of_nat (length bids) * is_StocksPerSlot x)), w1)) }
      else let (ok, w1) = db_ok w in
        if \<not> ok then Some (Inl DbError, w1)
        else do { (e, w2) \<leftarrow> allot_all (take (unat (is_SlotQuantity x)) (shuffle (open_ipo_bids (is_Id x) (db w1))))
                    newStockId (is_StocksPerSlot x) cost price w1;
                  (case e of
                     Some err \<Rightarrow> Some (Inl err, w2)
                   | None \<Rightarrow>
                       (let (ok2, w3) = db_ok w2 in
                        if \<not> ok2 then Some (Inl DbError, w3)
                        else do { (e2, w4) \<leftarrow> refund_all (filter (\<lambda>b. \<not> ib_IsFulfilled b) (open_ipo_bids (is_Id x) (db w3)))
                                    newStockId cost w3;
                                  Some (case e2 of Some err \<Rightarrow> (Inl err, w4)
                                        | None \<Rightarrow> (Inr (ucast (is_SlotQuantity x * is_StocksPerSlot x)), w4)) })) })"

definition AllotSlots :: "(ipo_bid list \<Rightarrow> ipo_bid list) \<Rightarrow> u32 \<Rightarrow> world \<Rightarrow> (go_error option \<times> world) option" where
  "AllotSlots shuffle ipoStockId w =
     (let (r, w1) = first_ipo_stock ipoStockId w in
      (case r of
         Inl e \<Rightarrow> Some (Some e, w1)
       | Inr x \<Rightarrow>
           if \<not> is_IsBiddable x then Some (Some (IpoNotBiddableError ipoStockId), w1)
           else let (ok1, w2) = db_ok w1 in
             if \<not> ok1 then Some (Some DbError, w2)
             else let w3 = w2\<lparr>db := save_ipo_stock (x\<lparr>is_IsBiddable := False, is_UpdatedAt := now w2\<rparr>) (db w2)\<rparr>;
                      (ok2, w4) = db_ok w3 in
               if \<not> ok2 then Some (Some DbError, w4)
               else let bids = open_ipo_bids ipoStockId (db w4);
                        ratio = count_ratio (length bids) (is_SlotQuantity x);
                        price = listing_price ratio (is_StockPrice x);
                        (ok3, w5) = db_ok w4 in
                 if \<not> ok3 then Some (Some DbError, w5)
                 else let s = (listed_stock x price (now w5))\<lparr>s_Id := nextId w5\<rparr>;
                          w6 = w5\<lparr>db := (db w5)\<lparr>Stocks := Stocks (db w5) @ [s]\<rparr>, nextId := nextId w5 + 1\<rparr> in
                   do { (a, w7) \<leftarrow> allot_bids shuffle x ratio bids (s_Id s) price w6;
                        (case a of
                           Inl err \<Rightarrow> Some (Some err, w7)
                         | Inr inMarket \<Rightarrow>
                             (let (ok4, w8) = db_ok w7 in
                              if \<not> ok4 then Some (Some DbError, w8)
                              else Some (None, snd (LoadStocks (w8\<lparr>db := save_stock
                                     (s\<lparr>s_StocksInMarket := inMarket, s_UpdatedAt := now w8\<rparr>) (db w8)\<rparr>)))) ) }))"

end
