(* ===== verification/Ipo_Proofs.thy ===== *)
theory Ipo_Proofs
  imports Ipo Steps Order_Frames
begin

text \<open>
  The outcomes of the transactions of an offering: each changes one user in memory, runs a
  transaction, and gives the user the old cash back if it fails. The lemma \<open>user_tx\<close> has this
  pattern once.
\<close>

section \<open>A transaction that changes one user\<close>

lemma user_tx:
  assumes run: "tx_run ops (set_user i u1 w1) = (ok, w2)" and u: "users w1 i = Some u" and id: "u_Id u1 = u_Id u"
    and q: "list_all quiet ops" and a: "acct_step i u1 u1 trs True (tx_seq ops)"
  shows "users w2 = (users w1)(i \<mapsto> u1)" "same_mem (set_user i u1 w1) w2"
    "ok \<Longrightarrow> adds_tx trs (db w1) (db w2)" "\<not> ok \<Longrightarrow> db w2 = db w1"
    "ok \<Longrightarrow> row u_Id j (Users (db w2)) = (if j = u_Id u then Some u1 else row u_Id j (Users (db w1)))"
proof -
  show m: "same_mem (set_user i u1 w1) w2" using tx_run_frame(1) [OF q run] .
  then show "users w2 = (users w1)(i \<mapsto> u1)" by (simp add: same_mem_def set_user_def)
  show "\<not> ok \<Longrightarrow> db w2 = db w1" using tx_run_frame(2) [OF q run] by (simp add: ledger_simps)
  have "users (set_user i u1 w1) i = Some u1" by (simp add: set_user_def)
  note r = acct_run [OF a _ this]
  show "ok \<Longrightarrow> adds_tx trs (db w1) (db w2)"
    "ok \<Longrightarrow> row u_Id j (Users (db w2)) = (if j = u_Id u then Some u1 else row u_Id j (Users (db w1)))"
    using r(2,3) run id by (simp_all add: ledger_simps)
qed

section \<open>The operations of the transactions\<close>

lemma quiet_find [simp]: "quiet (find_ipo_tx i m)"
  by (auto simp: quiet_def find_ipo_tx_def Let_def dest: db_ok_same split: prod.splits)

lemma find_True: "find_ipo_tx i m (w, t) = (True, w', t') \<Longrightarrow> t' = t"
  by (auto simp: find_ipo_tx_def Let_def split: prod.splits)

lemma acct_find [simp]: "acct_step i u u [] False (find_ipo_tx j m)"
  by (rule acct_other_table) (auto dest: find_True)

lemma acct_save_ipo [simp]: "acct_step i u u [] False (tx_save (save_ipo_bid b))"
  by (rule acct_other_table) (auto simp: save_ipo_bid_def dest!: tx_save_True)

lemma acct_insert_ipo [simp]: "acct_step i u u [] False (tx_insert (insert_ipo_bid b))"
  by (rule acct_other_table) (auto simp: insert_ipo_bid_def dest!: tx_insert_True)

definition close_ops :: "ipo_bid \<Rightarrow> user \<Rightarrow> transaction \<Rightarrow> txop list" where
  "close_ops b u tr = [tx_save (save_ipo_bid b), tx_save (save_user u), tx_insert (insert_tx tr)]"

lemma close_ops_ok:
  "list_all quiet (close_ops b u tr)" "acct_step i u u [tr] True (tx_seq (close_ops b u tr))"
proof -
  show "list_all quiet (close_ops b u tr)" by (simp add: close_ops_def)
  show "acct_step i u u [tr] True (tx_seq (close_ops b u tr))"
    using acct_Cons [OF acct_save_ipo [of i u b] acct_Cons [OF acct_save_user acct_Cons [OF acct_insert acct_Nil]]]
    by (simp add: close_ops_def del: tx_seq.simps)
qed

lemma close_ops_tables:
  assumes "tx_run (close_ops b u tr) w = (True, w')"
  shows "\<exists>k. db w' = insert_tx tr k (save_user u (save_ipo_bid b (db w)))"
proof -
  obtain w1 t1 where s: "tx_seq (close_ops b u tr) (w, db w) = (True, w1, t1)" "db w' = t1"
    by (rule tx_run_TrueE [OF assms])
  obtain wa ta where a: "tx_save (save_ipo_bid b) (w, db w) = (True, wa, ta)"
    "tx_seq [tx_save (save_user u), tx_insert (insert_tx tr)] (wa, ta) = (True, w1, t1)"
    using s(1) unfolding close_ops_def by (rule tx_seq_ConsE)
  obtain wb tb where b: "tx_save (save_user u) (wa, ta) = (True, wb, tb)" "tx_seq [tx_insert (insert_tx tr)] (wb, tb) = (True, w1, t1)"
    using a(2) by (rule tx_seq_ConsE)
  obtain wc tc where c: "tx_insert (insert_tx tr) (wb, tb) = (True, wc, tc)" "tx_seq [] (wc, tc) = (True, w1, t1)"
    using b(2) by (rule tx_seq_ConsE)
  have "ta = save_ipo_bid b (db w)" "tb = save_user u ta" "tc = insert_tx tr (nextId wb) tb" "tc = t1"
    using tx_save_True [OF a(1)] tx_save_True [OF b(1)] tx_insert_True [OF c(1)] c(2) by simp_all
  then show ?thesis using s(2) by blast
qed

section \<open>Outcomes\<close>

lemma keeps_one_user:
  assumes g: "getUserExclusively i w = (None, w1)" and u: "users w1 i = Some u" and id: "u_Id u1 = u_Id u"
    and r: "users w' = (users w1)(i \<mapsto> u1)" "adds_tx [tr] (db w1) (db w')"
      "\<And>j. row u_Id j (Users (db w')) = (if j = u_Id u then Some u1 else row u_Id j (Users (db w1)))"
    and tr: "t_UserId tr = i \<or> t_UserId tr = u_Id u" and cash: "u_Cash u1 = u_Cash u + t_Total tr"
  shows "keeps_accounts w w'"
proof -
  have "keeps_accounts w1 w'"
  proof (cases "u_Id u = i \<or> u_Id u = 0")
    case True
    show ?thesis
      by (rule acct_keeps [OF r u id]) (use tr True cash in auto)
  next
    case False
    then have "\<not> keyed w1" using u by (auto simp: keyed_def)
    then show ?thesis by (simp add: keeps_accounts_def)
  qed
  then show ?thesis using keeps_accounts_get [OF g] keeps_accounts_trans by blast
qed

text \<open>What the four operations share: \<open>undo\<close> takes the change of the user back.\<close>

lemma user_op_cases:
  assumes g: "getUserExclusively i w = (None, w1)" and u: "users w1 i = Some u" and id: "u_Id u1 = u_Id u"
    and ops: "list_all quiet ops" "acct_step i u1 u1 [tr] True (tx_seq ops)"
    and t: "tx_run ops (set_user i u1 w1) = (ok, w2)"
    and w': "w' = (if ok then w2 else set_user i (undo (usr w2 i)) w2)"
    and undo: "undo u1 = u" and tr: "t_UserId tr = i \<or> t_UserId tr = u_Id u" "u_Cash u1 = u_Cash u + t_Total tr"
  obtains (Failed) "\<not> ok" "users w' = users w1" "db w' = db w" "same_mem w1 w'" "keeps_accounts w w'"
  | (Done) ok "tx_run ops (set_user i u1 w1) = (True, w')" "users w' = (users w1)(i \<mapsto> u1)"
      "keeps_accounts w w'" "same_mem (set_user i u1 w1) w'" "adds_tx [tr] (db w) (db w')" "db w1 = db w"
proof -
  note f = getUserExclusively_frame [OF g] and ut = user_tx [OF t u id ops]
  have d: "db w1 = db w" using f(1) by (simp add: same_but_users_def)
  show ?thesis
  proof (cases ok)
    case True
    moreover have "keeps_accounts w w2"
      by (rule keeps_one_user [OF g u id ut(1) ut(3,5) [OF True]]) (use tr in simp_all)
    ultimately show ?thesis using Done w' t ut(1,2,3) d by simp
  next
    case False
    have "usr w2 i = u1" using ut(1) by (simp add: usr_def)
    then have us: "users w' = users w1" using False w' ut(1) u undo by (auto simp: set_user_def)
    have db: "db w' = db w" using False w' ut(4) [OF False] d by (simp add: ledger_simps)
    have m: "same_mem w1 w'" using us False w' ut(2) by (simp add: same_mem_def ledger_simps)
    have "keeps_accounts w1 w'" using keeps_accounts_undone [OF us] db d by simp
    then have "keeps_accounts w w'" using keeps_accounts_get [OF g] keeps_accounts_trans by blast
    then show ?thesis using Failed [OF False us db m] by simp
  qed
qed

lemma close_cases:
  assumes g: "getUserExclusively i w = (None, w1)" and u: "users w1 i = Some u" and id: "u_Id u1 = u_Id u"
    and t: "tx_run (close_ops b u1 tr) (set_user i u1 w1) = (ok, w2)"
    and r: "(e, w') = (if ok then (None, w2) else (Some DbError, set_user i (undo (usr w2 i)) w2))"
    and undo: "undo u1 = u" and tr: "t_UserId tr = i" "u_Cash u1 = u_Cash u + t_Total tr"
  obtains (Failed) "e \<noteq> None" "users w' = users w1" "db w' = db w" "same_mem w1 w'" "keeps_accounts w w'"
  | (Done) k where "e = None" "users w' = (users w1)(i \<mapsto> u1)" "db w' = insert_tx tr k (save_user u1 (save_ipo_bid b (db w)))"
      "keeps_accounts w w'" "same_mem (set_user i u1 w1) w'"
proof -
  have w': "w' = (if ok then w2 else set_user i (undo (usr w2 i)) w2)" using r by (cases ok) simp_all
  show ?thesis
  proof (rule user_op_cases [OF g u id close_ops_ok t w' undo], goal_cases)
    case 3
    then show ?thesis using Failed r by simp
  next
    case 4
    then show ?thesis using Done r close_ops_tables [OF 4(2)] by (auto simp: ledger_simps)
  qed (use tr in simp_all)
qed

lemma allotIpoSlot_cases:
  assumes run: "allotIpoSlotToUser b sid q n cost price w = Some (e, w')"
  obtains (Failed) w1 where "getUserExclusively (ib_UserId b) w = (None, w1)" "e \<noteq> None" "users w' = users w1"
      "db w' = db w" "same_mem w1 w'" "keeps_accounts w w'"
  | (Done) w1 u k where "getUserExclusively (ib_UserId b) w = (None, w1)" "users w1 (ib_UserId b) = Some u" "e = None"
      "users w' = (users w1)(ib_UserId b \<mapsto> u\<lparr>u_ReservedCash := u_ReservedCash u - cost\<rparr>)"
      "db w' = insert_tx (GetTransactionRef (ib_UserId b) sid IpoAllotmentTransaction 0 (ucast (q * n)) price (- cost) 0 (now w)) k
         (save_user (u\<lparr>u_ReservedCash := u_ReservedCash u - cost\<rparr>)
           (save_ipo_bid (b\<lparr>ib_IsFulfilled := True, ib_IsClosed := True, ib_UpdatedAt := now w\<rparr>) (db w)))"
      "keeps_accounts w w'" "same_mem (set_user (ib_UserId b) (u\<lparr>u_ReservedCash := u_ReservedCash u - cost\<rparr>) w1) w'"
proof -
  let ?i = "ib_UserId b"
  let ?tr = "GetTransactionRef ?i sid IpoAllotmentTransaction 0 (ucast (q * n)) price (- cost) 0 (now w)"
  let ?b = "b\<lparr>ib_IsFulfilled := True, ib_IsClosed := True, ib_UpdatedAt := now w\<rparr>"
  obtain w1 where g: "getUserExclusively ?i w = (None, w1)"
    using run by (cases "getUserExclusively ?i w") (auto simp: allotIpoSlotToUser_def Let_def split: if_splits)
  obtain u where u: "users w1 ?i = Some u" using getUserExclusively_frame(2) [OF g] by blast
  let ?u = "u\<lparr>u_ReservedCash := u_ReservedCash u - cost\<rparr>"
  obtain ok w2 where t: "tx_run (close_ops ?b ?u ?tr) (set_user ?i ?u w1) = (ok, w2)" by fastforce
  have uw: "usr w1 ?i = u" using u by (simp add: usr_def)
  have r: "(e, w') = (if ok then (None, w2) else (Some DbError, set_user ?i ((usr w2 ?i)\<lparr>u_ReservedCash := u_ReservedCash u\<rparr>) w2))"
    using run g t by (simp add: allotIpoSlotToUser_def Let_def uw close_ops_def split: if_splits)
  show ?thesis
    by (rule close_cases [where undo = "\<lambda>x. x\<lparr>u_ReservedCash := u_ReservedCash u\<rparr>", OF g u _ t r]) (use Failed [OF g] Done [OF g u] in \<open>simp_all add: GetTransactionRef_def\<close>)
qed

lemma RefundIpoSlot_cases:
  assumes run: "RefundIpoSlotToUser b sid cost w = Some (e, w')"
  obtains (Failed) w1 where "getUserExclusively (ib_UserId b) w = (None, w1)" "e \<noteq> None" "users w' = users w1"
      "db w' = db w" "same_mem w1 w'" "keeps_accounts w w'"
  | (Done) w1 u k where "getUserExclusively (ib_UserId b) w = (None, w1)" "users w1 (ib_UserId b) = Some u" "e = None"
      "users w' = (users w1)(ib_UserId b \<mapsto> u\<lparr>u_Cash := u_Cash u + cost, u_ReservedCash := u_ReservedCash u - cost\<rparr>)"
      "db w' = insert_tx (GetTransactionRef (ib_UserId b) sid IpoAllotmentTransaction 0 0 0 (- cost) cost (now w)) k
         (save_user (u\<lparr>u_Cash := u_Cash u + cost, u_ReservedCash := u_ReservedCash u - cost\<rparr>)
           (save_ipo_bid (b\<lparr>ib_IsClosed := True, ib_UpdatedAt := now w\<rparr>) (db w)))"
      "keeps_accounts w w'"
      "same_mem (set_user (ib_UserId b) (u\<lparr>u_Cash := u_Cash u + cost, u_ReservedCash := u_ReservedCash u - cost\<rparr>) w1) w'"
proof -
  let ?i = "ib_UserId b"
  let ?tr = "GetTransactionRef ?i sid IpoAllotmentTransaction 0 0 0 (- cost) cost (now w)"
  let ?b = "b\<lparr>ib_IsClosed := True, ib_UpdatedAt := now w\<rparr>"
  obtain w1 where g: "getUserExclusively ?i w = (None, w1)"
    using run by (cases "getUserExclusively ?i w") (auto simp: RefundIpoSlotToUser_def Let_def split: if_splits)
  obtain u where u: "users w1 ?i = Some u" using getUserExclusively_frame(2) [OF g] by blast
  let ?u = "u\<lparr>u_Cash := u_Cash u + cost, u_ReservedCash := u_ReservedCash u - cost\<rparr>"
  obtain ok w2 where t: "tx_run (close_ops ?b ?u ?tr) (set_user ?i ?u w1) = (ok, w2)" by fastforce
  have uw: "usr w1 ?i = u" using u by (simp add: usr_def)
  have r: "(e, w') = (if ok then (None, w2)
      else (Some DbError, set_user ?i ((usr w2 ?i)\<lparr>u_Cash := u_Cash u, u_ReservedCash := u_ReservedCash u\<rparr>) w2))"
    using run g t by (simp add: RefundIpoSlotToUser_def Let_def uw close_ops_def split: if_splits)
  show ?thesis
    by (rule close_cases [where undo = "\<lambda>x. x\<lparr>u_Cash := u_Cash u, u_ReservedCash := u_ReservedCash u\<rparr>", OF g u _ t r]) (use Failed [OF g] Done [OF g u] in \<open>simp_all add: GetTransactionRef_def\<close>)
qed

section \<open>Bids\<close>

lemma acct_ipo_ops:
  assumes "acct_step i u u [] False op"
  shows "acct_step i u u [tr] True (tx_seq [op, tx_save (save_user u), tx_insert (insert_tx tr), find_ipo_tx j m])"
  using acct_Cons [OF assms acct_Cons [OF acct_save_user acct_Cons [OF acct_insert acct_Cons [OF acct_find acct_Nil]]]]
  by (simp del: tx_seq.simps)

text \<open>The tables after the four operations of a new or cancelled bid.\<close>

lemma ipo_ops_tables:
  assumes "tx_run [op, tx_save (save_user u), tx_insert (insert_tx tr), find_ipo_tx j m] w = (True, w')"
    and op: "\<And>w1 t1. op (w, db w) = (True, w1, t1) \<Longrightarrow> t1 = f (db w)"
  shows "\<exists>k. db w' = insert_tx tr k (save_user u (f (db w)))"
proof -
  obtain w1 t1 where s: "tx_seq [op, tx_save (save_user u), tx_insert (insert_tx tr), find_ipo_tx j m] (w, db w) = (True, w1, t1)" "db w' = t1"
    by (rule tx_run_TrueE [OF assms(1)])
  obtain wa ta where a: "op (w, db w) = (True, wa, ta)"
    "tx_seq [tx_save (save_user u), tx_insert (insert_tx tr), find_ipo_tx j m] (wa, ta) = (True, w1, t1)"
    using s(1) by (rule tx_seq_ConsE)
  obtain wb tb where b: "tx_save (save_user u) (wa, ta) = (True, wb, tb)"
    "tx_seq [tx_insert (insert_tx tr), find_ipo_tx j m] (wb, tb) = (True, w1, t1)"
    using a(2) by (rule tx_seq_ConsE)
  obtain wc tc where c: "tx_insert (insert_tx tr) (wb, tb) = (True, wc, tc)" "tx_seq [find_ipo_tx j m] (wc, tc) = (True, w1, t1)"
    using b(2) by (rule tx_seq_ConsE)
  obtain wd td where d: "find_ipo_tx j m (wc, tc) = (True, wd, td)" "tx_seq [] (wd, td) = (True, w1, t1)"
    using c(2) by (rule tx_seq_ConsE)
  have "ta = f (db w)" "tb = save_user u ta" "tc = insert_tx tr (nextId wb) tb" "td = tc" "td = t1"
    using op [OF a(1)] tx_save_True [OF b(1)] tx_insert_True [OF c(1)] find_True [OF d(1)] d(2) by simp_all
  then show ?thesis using s(2) by blast
qed

lemma SaveNewIpoBid_cases:
  assumes run: "SaveNewIpoBidTransaction b i p w = Some ((e, oid), w')"
  obtains (Failed) w1 where "getUserExclusively i w = (None, w1)" "e \<noteq> None" "users w' = users w1"
      "db w' = db w" "same_mem w1 w'" "keeps_accounts w w'"
  | (Done) w1 u k where "getUserExclusively i w = (None, w1)" "users w1 i = Some u" "e = None" "oid = nextId w"
      "users w' = (users w1)(i \<mapsto> u\<lparr>u_Cash := u_Cash u - p, u_ReservedCash := u_ReservedCash u + p\<rparr>)"
      "db w' = insert_tx (ipo_bid_tx (u_Id u) p (- p) (now w)) k
         (save_user (u\<lparr>u_Cash := u_Cash u - p, u_ReservedCash := u_ReservedCash u + p\<rparr>) (insert_ipo_bid b (nextId w) (db w)))"
      "keeps_accounts w w'" "same_mem (set_user i (u\<lparr>u_Cash := u_Cash u - p, u_ReservedCash := u_ReservedCash u + p\<rparr>) w1) w'"
proof -
  obtain w1 where g: "getUserExclusively i w = (None, w1)"
    using run by (cases "getUserExclusively i w") (auto simp: SaveNewIpoBidTransaction_def Let_def split: if_splits)
  obtain u where u: "users w1 i = Some u" using getUserExclusively_frame(2) [OF g] by blast
  have n: "now w1 = now w" "nextId w1 = nextId w" using getUserExclusively_frame(1) [OF g] by (simp_all add: same_but_users_def)
  let ?u = "u\<lparr>u_Cash := u_Cash u - p, u_ReservedCash := u_ReservedCash u + p\<rparr>"
  let ?tr = "ipo_bid_tx (u_Id u) p (- p) (now w)"
  let ?ops = "[tx_insert (insert_ipo_bid b), tx_save (save_user ?u), tx_insert (insert_tx ?tr), find_ipo_tx (u_Id u) (- p)]"
  obtain ok w2 where t: "tx_run ?ops (set_user i ?u w1) = (ok, w2)" by fastforce
  have uw: "usr w1 i = u" using u by (simp add: usr_def)
  have r: "e = (if ok then None else Some DbError)" "oid = nextId w"
      "w' = (if ok then w2 else set_user i ((usr w2 i)\<lparr>u_Cash := u_Cash u, u_ReservedCash := u_ReservedCash u\<rparr>) w2)"
    using run g t by (simp_all add: SaveNewIpoBidTransaction_def Let_def uw n split: if_splits)
  have ops: "list_all quiet ?ops" "acct_step i ?u ?u [?tr] True (tx_seq ?ops)"
    using acct_ipo_ops [OF acct_insert_ipo] by simp_all
  show ?thesis
  proof (rule user_op_cases [where undo = "\<lambda>x. x\<lparr>u_Cash := u_Cash u, u_ReservedCash := u_ReservedCash u\<rparr>", OF g u _ ops t r(3)], goal_cases)
    case 5
    then show ?thesis using Failed [OF g] r(1) by simp
  next
    case 6
    obtain k where "db w' = insert_tx ?tr k (save_user ?u (insert_ipo_bid b (nextId (set_user i ?u w1)) (db (set_user i ?u w1))))"
      using ipo_ops_tables [OF 6(2)] tx_insert_True by blast
    then show ?thesis using Done [OF g u] r(1,2) 6 n by (simp add: ledger_simps)
  qed (simp_all add: ipo_bid_tx_def GetTransactionRef_def)
qed

lemma SaveCancelledIpoBid_cases:
  assumes run: "SaveCancelledIpoBidTransaction b p w = Some (e, w')"
  obtains (Failed) w1 where "getUserExclusively (ib_UserId b) w = (None, w1)" "e \<noteq> None" "users w' = users w1"
      "db w' = db w" "same_mem w1 w'" "keeps_accounts w w'"
  | (Done) w1 u k where "getUserExclusively (ib_UserId b) w = (None, w1)" "users w1 (ib_UserId b) = Some u" "e = None"
      "users w' = (users w1)(ib_UserId b \<mapsto> u\<lparr>u_Cash := u_Cash u + p, u_ReservedCash := u_ReservedCash u - p\<rparr>)"
      "db w' = insert_tx (ipo_bid_tx (u_Id u) (- p) p (now w)) k
         (save_user (u\<lparr>u_Cash := u_Cash u + p, u_ReservedCash := u_ReservedCash u - p\<rparr>) (save_ipo_bid b (db w)))"
      "keeps_accounts w w'"
      "same_mem (set_user (ib_UserId b) (u\<lparr>u_Cash := u_Cash u + p, u_ReservedCash := u_ReservedCash u - p\<rparr>) w1) w'"
proof -
  let ?i = "ib_UserId b"
  obtain w1 where g: "getUserExclusively ?i w = (None, w1)"
    using run by (cases "getUserExclusively ?i w") (auto simp: SaveCancelledIpoBidTransaction_def Let_def split: if_splits)
  obtain u where u: "users w1 ?i = Some u" using getUserExclusively_frame(2) [OF g] by blast
  have n: "now w1 = now w" using getUserExclusively_frame(1) [OF g] by (simp add: same_but_users_def)
  let ?u = "u\<lparr>u_Cash := u_Cash u + p, u_ReservedCash := u_ReservedCash u - p\<rparr>"
  let ?tr = "ipo_bid_tx (u_Id u) (- p) p (now w)"
  let ?ops = "[tx_save (save_ipo_bid b), tx_save (save_user ?u), tx_insert (insert_tx ?tr), find_ipo_tx (u_Id u) (- p)]"
  obtain ok w2 where t: "tx_run ?ops (set_user ?i ?u w1) = (ok, w2)" by fastforce
  have uw: "usr w1 ?i = u" using u by (simp add: usr_def)
  have r: "e = (if ok then None else Some DbError)"
      "w' = (if ok then w2 else set_user ?i ((usr w2 ?i)\<lparr>u_Cash := u_Cash u, u_ReservedCash := u_ReservedCash u\<rparr>) w2)"
    using run g t by (simp_all add: SaveCancelledIpoBidTransaction_def Let_def uw n split: if_splits)
  have ops: "list_all quiet ?ops" "acct_step ?i ?u ?u [?tr] True (tx_seq ?ops)"
    using acct_ipo_ops [OF acct_save_ipo] by simp_all
  show ?thesis
  proof (rule user_op_cases [where undo = "\<lambda>x. x\<lparr>u_Cash := u_Cash u, u_ReservedCash := u_ReservedCash u\<rparr>", OF g u _ ops t r(2)], goal_cases)
    case 5
    then show ?thesis using Failed [OF g] r(1) by simp
  next
    case 6
    obtain k where "db w' = insert_tx ?tr k (save_user ?u (save_ipo_bid b (db (set_user ?i ?u w1))))"
      using ipo_ops_tables [OF 6(2)] tx_save_True by blast
    then show ?thesis using Done [OF g u] r(1) 6 by (simp add: ledger_simps)
  qed (simp_all add: ipo_bid_tx_def GetTransactionRef_def)
qed

lemma first_ipo_stock_mem: "first_ipo_stock i w = (r, w') \<Longrightarrow> same_mem w w' \<and> db w' = db w"
  by (auto simp: first_ipo_stock_def Let_def dest: db_ok_same split: prod.splits if_splits option.splits)

lemma first_ipo_stock_row:
  "first_ipo_stock i w = (Inr x, w') \<Longrightarrow> row is_Id i (IpoStocks (db w)) = Some x \<and> is_Id x = i"
  by (auto simp: first_ipo_stock_def Let_def dest: db_ok_same row_key split: prod.splits if_splits option.splits)

text \<open>A bid is refused, and nothing is paid, or it is made.\<close>

lemma CreateIpoBid_cases:
  assumes run: "CreateIpoBid i sid q w = Some (r, held, w')"
  obtains (Refused) e where "r = Inl e" "db w' = db w" "keeps_accounts w w'" "objs_kept {} {} w w'"
      "held \<longleftrightarrow> e = NotEnoughCashError" "\<And>u. users w i = Some u \<Longrightarrow> users w' i = Some u"
  | (Made) x w3 bid oid where "r = Inr oid" "\<not> held" "q = 1" "row is_Id sid (IpoStocks (db w)) = Some x \<or> x = zero_ipo_stock"
      "is_IsBiddable x" "users w3 i \<noteq> None" "is_SlotPrice x \<le> u_Cash (usr w3 i)" "db w3 = db w" "keeps_accounts w w3"
      "objs_kept {} {} w w3" "\<And>u. users w i = Some u \<Longrightarrow> users w3 i = Some u"
      "users w i = None \<Longrightarrow> users w3 i = row u_Id i (Users (db w))" "now w3 = now w" "nextId w3 = nextId w"
      "bid = \<lparr>ib_Id = 0, ib_UserId = i, ib_IpoStockId = sid, ib_SlotPrice = is_SlotPrice x,
          ib_SlotQuantity = 1, ib_IsFulfilled = False, ib_IsClosed = False, ib_CreatedAt = now w, ib_UpdatedAt = now w\<rparr>"
      "\<not> list_ex (\<lambda>b. ib_UserId b = i \<and> \<not> ib_IsClosed b \<and> ib_IpoStockId b = sid) (IpoBids (db w))"
      "SaveNewIpoBidTransaction bid i (is_SlotPrice x) w3 = Some ((None, oid), w')"
proof (cases "q = 1")
  case False
  then show ?thesis using run Refused [of IpoOrderStockLimitExceeded] by (auto simp: CreateIpoBid_def)
next
  case q: True
  obtain r1 w1 where 1: "first_ipo_stock sid w = (r1, w1)" by fastforce
  note m1 = first_ipo_stock_mem [OF 1]
  define x where "x = (case r1 of Inl _ \<Rightarrow> zero_ipo_stock | Inr x \<Rightarrow> x)"
  obtain e w2 where 2: "getUserExclusively i w1 = (e, w2)" by fastforce
  note f2 = getUserExclusively_frame [OF 2]
  have k2: "keeps_accounts w w2" "objs_kept {} {} w w2" "db w2 = db w" "\<And>u. users w i = Some u \<Longrightarrow> users w2 i = Some u"
      "now w2 = now w"
    using m1 f2(1) keeps_accounts_get [OF 2] keeps_accounts_mem objs_kept_mem objs_kept_users keeps_accounts_trans objs_kept_trans
    by (blast, blast, simp_all add: same_but_users_def same_mem_def)
  obtain ok w3 where 3: "db_ok w2 = (ok, w3)" by fastforce
  note m3 = db_ok_same [OF 3]
  have k3: "keeps_accounts w w3" "objs_kept {} {} w w3" "db w3 = db w" "\<And>u. users w i = Some u \<Longrightarrow> users w3 i = Some u"
      "now w3 = now w" "users w3 = users w2"
    using m3 k2 keeps_accounts_mem objs_kept_mem keeps_accounts_trans objs_kept_trans
    by (blast, blast, simp_all add: same_mem_def)
  have id: "nextId w3 = nextId w"
    using m3 f2(1) 1 by (auto simp: same_but_users_def first_ipo_stock_def Let_def dest!: db_ok_same split: prod.splits if_splits option.splits)
  have slot: "ucast (1 :: u32) = (1 :: u64)" by simp
  have 4: "Some (r, held, w') =
     (case e of Some err \<Rightarrow> Some (Inl err, False, w2)
      | None \<Rightarrow> if u_Cash (usr w2 i) < is_SlotPrice x then Some (Inl NotEnoughCashError, True, w2)
        else if \<not> is_IsBiddable x then Some (Inl (IpoNotBiddableError sid), False, w2)
        else if \<not> ok \<or> list_ex (\<lambda>b. ib_UserId b = i \<and> \<not> ib_IsClosed b \<and> ib_IpoStockId b = sid) (IpoBids (db w3))
        then Some (Inl IpoOrderStockLimitExceeded, False, w3)
        else do { ((err, bidId), w4) \<leftarrow> SaveNewIpoBidTransaction
                    \<lparr>ib_Id = 0, ib_UserId = i, ib_IpoStockId = sid, ib_SlotPrice = is_SlotPrice x,
                     ib_SlotQuantity = 1, ib_IsFulfilled = False, ib_IsClosed = False, ib_CreatedAt = now w3, ib_UpdatedAt = now w3\<rparr>
                    i (is_SlotPrice x) w3;
                  Some (case err of None \<Rightarrow> (Inr bidId, False, w4) | Some y \<Rightarrow> (Inl y, False, w4)) })"
    unfolding run [symmetric] CreateIpoBid_def Let_def q 1 2 3 x_def prod.case slot mult_1 by (simp split del: if_split)
  show ?thesis
  proof (cases e)
    case (Some err)
    then have "err \<noteq> NotEnoughCashError" using 2 by (auto simp: getUserExclusively_def Let_def split: option.splits prod.splits if_splits)
    then show ?thesis using 4 Some Refused [of err] k2 by simp
  next
    case None
    consider (cash) "u_Cash (usr w2 i) < is_SlotPrice x" | (closed) "\<not> u_Cash (usr w2 i) < is_SlotPrice x" "\<not> is_IsBiddable x"
      | (dup) "\<not> u_Cash (usr w2 i) < is_SlotPrice x" "is_IsBiddable x"
          "\<not> ok \<or> list_ex (\<lambda>b. ib_UserId b = i \<and> \<not> ib_IsClosed b \<and> ib_IpoStockId b = sid) (IpoBids (db w3))"
      | (go) "\<not> u_Cash (usr w2 i) < is_SlotPrice x" "is_IsBiddable x"
          "\<not> (\<not> ok \<or> list_ex (\<lambda>b. ib_UserId b = i \<and> \<not> ib_IsClosed b \<and> ib_IpoStockId b = sid) (IpoBids (db w3)))" by blast
    then show ?thesis
    proof cases
      case cash
      then show ?thesis using 4 None Refused [of NotEnoughCashError] k2 by simp
    next
      case closed
      then show ?thesis using 4 None Refused [of "IpoNotBiddableError sid"] k2 by simp
    next
      case dup
      then have "(r, held, w') = (Inl IpoOrderStockLimitExceeded, False, w3)" using 4 None by simp
      then show ?thesis using Refused [of IpoOrderStockLimitExceeded] k3 by simp
    next
      case go
      let ?b = "\<lparr>ib_Id = 0, ib_UserId = i, ib_IpoStockId = sid, ib_SlotPrice = is_SlotPrice x,
          ib_SlotQuantity = 1, ib_IsFulfilled = False, ib_IsClosed = False, ib_CreatedAt = now w3, ib_UpdatedAt = now w3\<rparr>"
      have 5: "SaveNewIpoBidTransaction ?b i (is_SlotPrice x) w3 \<bind>
          (\<lambda>((err, bidId), w4). Some (case err of None \<Rightarrow> (Inr bidId, False, w4) | Some y \<Rightarrow> (Inl y, False, w4)))
        = Some (r, held, w')"
        using 4 None go by simp
      obtain err oid w4 where s: "SaveNewIpoBidTransaction ?b i (is_SlotPrice x) w3 = Some ((err, oid), w4)"
        and r: "(r, held, w') = (case err of None \<Rightarrow> (Inr oid, False, w4) | Some y \<Rightarrow> (Inl y, False, w4))"
        using 5 by (cases "SaveNewIpoBidTransaction ?b i (is_SlotPrice x) w3") auto
      show ?thesis
      proof (cases err)
        case None
        have "row is_Id sid (IpoStocks (db w)) = Some x \<or> x = zero_ipo_stock"
          using first_ipo_stock_row 1 by (cases r1) (auto simp: x_def)
        moreover have "users w i = None \<Longrightarrow> users w3 i = row u_Id i (Users (db w))"
          using f2(4) \<open>e = None\<close> m1 k3(6) by (simp add: same_mem_def)
        ultimately show ?thesis using Made [of oid x w3 ?b] s r None q go k3 f2(2) id by (simp add: usr_def not_less)
      next
        case (Some y)
        have "y = DbError" using s Some by (auto simp: SaveNewIpoBidTransaction_def Let_def split: if_splits prod.splits)
        moreover from s Some obtain w5 where "getUserExclusively i w3 = (None, w5)" "users w4 = users w5" "db w4 = db w3"
          "same_mem w5 w4" "keeps_accounts w3 w4"
          by (cases rule: SaveNewIpoBid_cases) auto
        moreover from this(1) have "w5 = w3" using k3(6) f2(2) by (auto simp: getUserExclusively_def)
        ultimately show ?thesis
          using Refused [of y] r Some k3 keeps_accounts_trans objs_kept_trans objs_kept_mem by simp
      qed
    qed
  qed
qed

text \<open>The same for a cancellation, which pays back what was reserved.\<close>

lemma CancelIpoBid_cases:
  assumes run: "CancelIpoBid k w = Some (e, w')"
  obtains (Refused) err where "e = Some err" "db w' = db w" "keeps_accounts w w'" "objs_kept {} {} w w'"
  | (Cancelled) b x w2 where "e = None" "row ib_Id k (IpoBids (db w)) = Some b" "\<not> ib_IsClosed b"
      "row is_Id (ib_IpoStockId b) (IpoStocks (db w)) = Some x" "is_IsBiddable x" "same_mem w w2" "db w2 = db w"
      "SaveCancelledIpoBidTransaction (b\<lparr>ib_IsClosed := True, ib_UpdatedAt := now w\<rparr>)
         (ucast (ib_SlotQuantity b) * ib_SlotPrice b) w2 = Some (None, w')"
proof -
  obtain ok w1 where 1: "db_ok w = (ok, w1)" by fastforce
  have m1: "same_mem w w1" "db w1 = db w" using db_ok_same [OF 1] by simp_all
  have k1: "keeps_accounts w w1" "objs_kept {} {} w w1" using m1 keeps_accounts_mem objs_kept_mem by blast+
  show ?thesis
  proof (cases "ok \<and> row ib_Id k (IpoBids (db w)) \<noteq> None")
    case False
    then show ?thesis using run 1 m1 k1 Refused by (auto simp: CancelIpoBid_def split: if_splits option.splits)
  next
    case True
    then obtain b where b: "row ib_Id k (IpoBids (db w)) = Some b" by blast
    obtain r w2 where 2: "first_ipo_stock (ib_IpoStockId b) w1 = (r, w2)" by fastforce
    have m2: "same_mem w w2" "db w2 = db w" "now w2 = now w"
      using first_ipo_stock_mem [OF 2] m1 same_mem_trans by (auto simp: same_mem_def)
    have k2: "keeps_accounts w w2" "objs_kept {} {} w w2" using m2 keeps_accounts_mem objs_kept_mem by blast+
    define x where "x = (case r of Inl _ \<Rightarrow> zero_ipo_stock | Inr x \<Rightarrow> x)"
    let ?b = "b\<lparr>ib_IsClosed := True, ib_UpdatedAt := now w\<rparr>"
    let ?p = "ucast (ib_SlotQuantity b) * ib_SlotPrice b"
    have 3: "(if ib_IsClosed b then Some (Some (AlreadyClosedError (ib_Id b)), w1)
        else if \<not> is_IsBiddable x then Some (Some (IpoNotBiddableError (ib_IpoStockId b)), w2)
        else SaveCancelledIpoBidTransaction ?b ?p w2) = Some (e, w')"
      unfolding run [symmetric] CancelIpoBid_def Let_def 1 prod.case m1(2) b option.case 2 x_def m2(3)
      using True by (simp split del: if_split)
    show ?thesis
    proof (cases "ib_IsClosed b \<or> \<not> is_IsBiddable x")
      case True
      then show ?thesis using 3 m1 m2 k1 k2 Refused by (auto split: if_splits)
    next
      case go: False
      then have s: "SaveCancelledIpoBidTransaction ?b ?p w2 = Some (e, w')" using 3 by simp
      have "r \<noteq> Inl err" for err using go by (auto simp: x_def zero_ipo_stock_def)
      then have "r = Inr x" by (cases r) (auto simp: x_def)
      then have x: "row is_Id (ib_IpoStockId b) (IpoStocks (db w)) = Some x" using first_ipo_stock_row [of "ib_IpoStockId b" w1 x w2] 2 m1 by simp
      from s show ?thesis
      proof (cases rule: SaveCancelledIpoBid_cases)
        case (Failed w3)
        have "objs_kept {} {} w2 w3" using getUserExclusively_frame(1) [OF Failed(1)] objs_kept_users by blast
        then have "objs_kept {} {} w w'" using k2(2) objs_kept_mem [OF Failed(5)] objs_kept_trans by blast
        moreover have "keeps_accounts w w'" using Failed(6) k2(1) keeps_accounts_trans by blast
        ultimately show ?thesis using Refused Failed(2,4) m2 by auto
      next
        case (Done w3 u j)
        then show ?thesis using Cancelled [OF _ b _ x _ m2(1,2)] go s by simp
      qed
    qed
  qed
qed

end
