(* ===== verification/Ipo_Allotment.thy ===== *)
theory Ipo_Allotment
  imports Ipo_Proofs
begin

text \<open>
  What closing the bids of an offering does, one bid after another: to the bids, to the ledger and
  to the users, who need not be in memory.
\<close>

section \<open>Bids that are closed\<close>

text \<open>
  \<open>closes pay bs trs w w'\<close>: the bids were overwritten by \<open>bs\<close>, the rows of \<open>trs\<close> were added to the
  ledger, and each user was changed by \<open>pay\<close> once for every bid of that user.
\<close>

definition put_bids :: "ipo_bid list \<Rightarrow> ipo_bid list \<Rightarrow> ipo_bid list" where
  "put_bids bs xs = foldl (\<lambda>xs b. upsert ib_Id b xs) xs bs"

definition bids_of :: "u32 \<Rightarrow> ipo_bid list \<Rightarrow> nat" where
  "bids_of j bs = length (filter (\<lambda>b. ib_UserId b = j) bs)"

definition closes :: "(user \<Rightarrow> user) \<Rightarrow> ipo_bid list \<Rightarrow> transaction list \<Rightarrow> world \<Rightarrow> world \<Rightarrow> bool" where
  "closes pay bs trs w w' \<longleftrightarrow> keeps_accounts w w' \<and> IpoBids (db w') = put_bids bs (IpoBids (db w)) \<and>
     adds_tx trs (db w) (db w') \<and> Stocks (db w') = Stocks (db w) \<and> IpoStocks (db w') = IpoStocks (db w) \<and>
     now w' = now w \<and> (keyed w \<longrightarrow> (\<forall>j. j \<noteq> 0 \<longrightarrow> loaded w' j = map_option (pay ^^ bids_of j bs) (loaded w j)))"

lemma closes_Nil: "same_mem w w' \<Longrightarrow> db w' = db w \<Longrightarrow> closes pay [] [] w w'"
  using keeps_accounts_mem [of w w']
  by (auto simp: closes_def put_bids_def bids_of_def adds_tx_same loaded_def same_mem_def option.map_id cong: option.case_cong)

lemma closes_append:
  assumes 1: "closes pay bs trs w w1" and 2: "closes pay bs' trs' w1 w'"
  shows "closes pay (bs @ bs') (trs @ trs') w w'"
proof -
  have k: "keyed w \<Longrightarrow> keyed w1" using 1 by (simp add: closes_def keeps_accounts_def)
  have "bids_of j (bs @ bs') = bids_of j bs' + bids_of j bs" for j by (simp add: bids_of_def)
  then show ?thesis
    using 1 2 k keeps_accounts_trans [of w w1 w'] adds_tx_trans [of trs "db w" "db w1" trs' "db w'"]
    by (auto simp: closes_def put_bids_def funpow_add option.map_comp)
qed

lemma closes_one:
  assumes g: "getUserExclusively (ib_UserId b) w = (None, w1)" and u: "users w1 (ib_UserId b) = Some u"
    and w': "users w' = (users w1)(ib_UserId b \<mapsto> pay u)" "keeps_accounts w w'" "now w' = now w"
    and db: "db w' = insert_tx tr k (save_user (pay u) (save_ipo_bid b (db w)))" and id: "u_Id (pay u) = u_Id u"
  shows "closes pay [b] [tr] w w'"
proof -
  have ld: "loaded w' j = map_option (pay ^^ bids_of j [b]) (loaded w j)" if "keyed w" "j \<noteq> 0" for j
  proof (cases "j = ib_UserId b")
    case True
    then show ?thesis using w'(1) u loaded_get(1) [OF g] by (simp add: loaded_def [of w'] bids_of_def)
  next
    case False
    have "keyed w1" using keeps_accounts_get [OF g] that by (simp add: keeps_accounts_def)
    then have "u_Id u \<noteq> j" using u False that(2) by (auto simp: keyed_def)
    moreover have "db w1 = db w" using getUserExclusively_frame(1) [OF g] by (simp add: same_but_users_def)
    ultimately have "loaded w' j = loaded w1 j"
      using False w'(1) id by (simp add: loaded_def db insert_tx_def save_user_def save_ipo_bid_def cong: option.case_cong)
    then show ?thesis using False loaded_get(2) [OF g] by (simp add: bids_of_def option.map_id cong: option.case_cong)
  qed
  have "adds_tx [tr] (db w) (db w')"
    by (auto simp: adds_tx_def db insert_tx_def save_user_def save_ipo_bid_def)
  with ld w'(2,3) show ?thesis
    by (auto simp: closes_def db put_bids_def insert_tx_def save_user_def save_ipo_bid_def)
qed

section \<open>The two loops\<close>

definition fulfil :: "string \<Rightarrow> ipo_bid \<Rightarrow> ipo_bid" where
  "fulfil t b = b\<lparr>ib_IsFulfilled := True, ib_IsClosed := True, ib_UpdatedAt := t\<rparr>"

definition shut :: "string \<Rightarrow> ipo_bid \<Rightarrow> ipo_bid" where
  "shut t b = b\<lparr>ib_IsClosed := True, ib_UpdatedAt := t\<rparr>"

definition allot_tx :: "u32 \<Rightarrow> u32 \<Rightarrow> i64 \<Rightarrow> u64 \<Rightarrow> string \<Rightarrow> ipo_bid \<Rightarrow> transaction" where
  "allot_tx sid n cost price t b = GetTransactionRef (ib_UserId b) sid IpoAllotmentTransaction 0
     (ucast (ib_SlotQuantity b * n)) price (- cost) 0 t"

definition ipo_refund_tx :: "u32 \<Rightarrow> i64 \<Rightarrow> string \<Rightarrow> ipo_bid \<Rightarrow> transaction" where
  "ipo_refund_tx sid cost t b = GetTransactionRef (ib_UserId b) sid IpoAllotmentTransaction 0 0 0 (- cost) cost t"

definition spend :: "i64 \<Rightarrow> user \<Rightarrow> user" where
  "spend cost u = u\<lparr>u_ReservedCash := u_ReservedCash u - cost\<rparr>"

definition get_back :: "i64 \<Rightarrow> user \<Rightarrow> user" where
  "get_back cost u = u\<lparr>u_Cash := u_Cash u + cost, u_ReservedCash := u_ReservedCash u - cost\<rparr>"

lemma allot_one:
  assumes run: "allotIpoSlotToUser b sid (ib_SlotQuantity b) n cost price w = Some (e, w')"
  shows "keeps_accounts w w'" "e = None \<Longrightarrow> closes (spend cost) [fulfil (now w) b] [allot_tx sid n cost price (now w) b] w w'"
proof -
  from run have "keeps_accounts w w' \<and> (e = None \<longrightarrow> closes (spend cost) [fulfil (now w) b] [allot_tx sid n cost price (now w) b] w w')"
  proof (cases rule: allotIpoSlot_cases)
    case (Done w1 u k)
    have "now w' = now w"
      using Done(7) getUserExclusively_frame(1) [OF Done(1)] by (simp add: same_mem_def ledger_simps same_but_users_def)
    moreover have "ib_UserId (fulfil (now w) b) = ib_UserId b" by (simp add: fulfil_def)
    ultimately have "closes (spend cost) [fulfil (now w) b] [allot_tx sid n cost price (now w) b] w w'"
      using Done by (intro closes_one [of _ w w1 u]) (simp_all add: spend_def allot_tx_def fulfil_def)
    then show ?thesis using Done(6) by simp
  qed auto
  then show "keeps_accounts w w'" "e = None \<Longrightarrow> closes (spend cost) [fulfil (now w) b] [allot_tx sid n cost price (now w) b] w w'"
    by simp_all
qed

lemma refund_one:
  assumes run: "RefundIpoSlotToUser b sid cost w = Some (e, w')"
  shows "keeps_accounts w w'" "e = None \<Longrightarrow> closes (get_back cost) [shut (now w) b] [ipo_refund_tx sid cost (now w) b] w w'"
proof -
  from run have "keeps_accounts w w' \<and> (e = None \<longrightarrow> closes (get_back cost) [shut (now w) b] [ipo_refund_tx sid cost (now w) b] w w')"
  proof (cases rule: RefundIpoSlot_cases)
    case (Done w1 u k)
    have "now w' = now w"
      using Done(7) getUserExclusively_frame(1) [OF Done(1)] by (simp add: same_mem_def ledger_simps same_but_users_def)
    moreover have "ib_UserId (shut (now w) b) = ib_UserId b" by (simp add: shut_def)
    ultimately have "closes (get_back cost) [shut (now w) b] [ipo_refund_tx sid cost (now w) b] w w'"
      using Done by (intro closes_one [of _ w w1 u]) (simp_all add: get_back_def ipo_refund_tx_def shut_def)
    then show ?thesis using Done(6) by simp
  qed auto
  then show "keeps_accounts w w'" "e = None \<Longrightarrow> closes (get_back cost) [shut (now w) b] [ipo_refund_tx sid cost (now w) b] w w'"
    by simp_all
qed

lemma closes_now: "closes pay bs trs w w' \<Longrightarrow> now w' = now w"
  by (simp add: closes_def)

lemma allot_all_closes:
  "allot_all bs sid n cost price w = Some (e, w') \<Longrightarrow> keeps_accounts w w' \<and>
   (e = None \<longrightarrow> closes (spend cost) (map (fulfil (now w)) bs) (map (allot_tx sid n cost price (now w)) bs) w w')"
proof (induction bs arbitrary: w)
  case Nil
  then show ?case by (simp add: closes_Nil)
next
  case (Cons b bs)
  obtain e1 w1 where 1: "allotIpoSlotToUser b sid (ib_SlotQuantity b) n cost price w = Some (e1, w1)"
    using Cons.prems by (cases "allotIpoSlotToUser b sid (ib_SlotQuantity b) n cost price w") auto
  note o = allot_one [OF 1]
  show ?case
  proof (cases e1)
    case (Some x)
    then show ?thesis using Cons.prems 1 o(1) by auto
  next
    case None
    then have "allot_all bs sid n cost price w1 = Some (e, w')" using Cons.prems 1 by simp
    from Cons.IH [OF this] show ?thesis
      using closes_append [OF o(2) [OF None]] closes_now [OF o(2) [OF None]] o(1) keeps_accounts_trans by fastforce
  qed
qed

lemma refund_all_closes:
  "refund_all bs sid cost w = Some (e, w') \<Longrightarrow> keeps_accounts w w' \<and>
   (e = None \<longrightarrow> closes (get_back cost) (map (shut (now w)) bs) (map (ipo_refund_tx sid cost (now w)) bs) w w')"
proof (induction bs arbitrary: w)
  case Nil
  then show ?case by (simp add: closes_Nil)
next
  case (Cons b bs)
  obtain e1 w1 where 1: "RefundIpoSlotToUser b sid cost w = Some (e1, w1)"
    using Cons.prems by (cases "RefundIpoSlotToUser b sid cost w") auto
  note o = refund_one [OF 1]
  show ?case
  proof (cases e1)
    case (Some x)
    then show ?thesis using Cons.prems 1 o(1) by auto
  next
    case None
    then have "refund_all bs sid cost w1 = Some (e, w')" using Cons.prems 1 by simp
    from Cons.IH [OF this] show ?thesis
      using closes_append [OF o(2) [OF None]] closes_now [OF o(2) [OF None]] o(1) keeps_accounts_trans by fastforce
  qed
qed

section \<open>The bids afterwards\<close>

lemma put_bids_map:
  assumes "distinct (map ib_Id xs)" "set bs \<subseteq> set xs" "\<And>b. ib_Id (f b) = ib_Id b"
  shows "put_bids (map f bs) xs = map (\<lambda>b. if b \<in> set bs then f b else b) xs"
  using assms(2)
proof (induction bs rule: rev_induct)
  case Nil
  then show ?case by (simp add: put_bids_def)
next
  case (snoc c bs)
  let ?g = "\<lambda>b. if b \<in> set bs then f b else b"
  have g: "ib_Id (?g b) = ib_Id b" for b using assms(3) by simp
  have c: "c \<in> set xs" using snoc.prems by simp
  have inj: "ib_Id b = ib_Id c \<longleftrightarrow> b = c" if "b \<in> set xs" for b
    using assms(1) that c by (auto simp: distinct_map inj_on_def)
  have "?g c \<in> set (map ?g xs)" using c by simp
  then have ex: "list_ex (\<lambda>y. ib_Id y = ib_Id (f c)) (map ?g xs)"
    unfolding list_ex_iff using g [of c] assms(3) [of c] by metis
  have up: "upsert ib_Id (f c) (map ?g xs) = map (\<lambda>b. if ib_Id b = ib_Id c then f c else ?g b) xs"
    unfolding upsert_def if_P [OF ex] map_map by (rule map_cong) (auto simp: assms(3))
  have "put_bids (map f (bs @ [c])) xs = upsert ib_Id (f c) (map ?g xs)"
    using snoc by (simp add: put_bids_def)
  also note up
  also have "map (\<lambda>b. if ib_Id b = ib_Id c then f c else ?g b) xs = map (\<lambda>b. if b \<in> set (bs @ [c]) then f b else b) xs"
    using inj by (auto intro!: map_cong)
  finally show ?case .
qed

text \<open>Whether there are more bids than slots, as the code decides it in floating point.\<close>

lemma count_ratio_finite:
  assumes "n < 2 ^ 53" "q \<noteq> 0"
  shows "count_ratio n q = Finite (fl64 (of_nat n / of_int (uint q)))"
proof -
  have "fl64 (of_nat n) = of_nat n" using fl64_of_int [of "int n"] assms(1) by simp
  moreover have "uint q < 2 ^ 53" using uint_lt2p [of q] by simp
  then have "fl64 (of_int (uint q)) = of_int (uint q)" by (intro fl64_of_int) simp_all
  ultimately show ?thesis using assms(2) by (simp add: count_ratio_def fdiv_def)
qed

lemma ratio_le_one:
  assumes "n < 2 ^ 53"
  shows "ratio_le (count_ratio n q) 1 \<longleftrightarrow> q \<noteq> 0 \<and> n \<le> unat q"
proof (cases "q = 0")
  case True
  then show ?thesis by (simp add: count_ratio_def)
next
  case False
  define m where "m = uint q"
  have m: "0 < m" "m < 2 ^ 32" "n \<le> unat q \<longleftrightarrow> int n \<le> m"
    using False uint_lt2p [of q] of_nat_le_iff [of n "unat q", where 'a = int] by (simp_all add: m_def word_neq_0_conv word_less_def)
  let ?x = "rat_of_nat n / of_int m"
  have "fl64 ?x \<le> 1" if "n \<le> unat q"
  proof -
    have "rat_of_nat n \<le> of_int m" using that m(3) of_int_le_iff [of "int n" m, where 'a = rat] by simp
    then show ?thesis using fl64_le_of_int [of ?x 1] m(1) by simp
  qed
  moreover have "1 < fl64 ?x" if "\<not> n \<le> unat q"
  proof (rule fl64_above_one)
    have "m + 1 \<le> int n" using that m(3) by simp
    then have "of_int m + 1 \<le> rat_of_nat n" using of_int_le_iff [of "m + 1" "int n", where 'a = rat] by simp
    then have x: "(of_int m + 1) / of_int m \<le> ?x" using m(1) by (intro divide_right_mono) simp_all
    have "1 / 2 ^ 32 \<le> 1 / rat_of_int m"
      using m(1,2) of_int_less_iff [of m "2 ^ 32", where 'a = rat] by (intro divide_left_mono) simp_all
    then have "1 + 1 / 2 ^ 32 \<le> 1 + 1 / rat_of_int m" by (rule add_left_mono)
    also have "\<dots> = (of_int m + 1) / of_int m" using m(1) by (simp add: add_divide_distrib)
    also note x
    finally show "1 + 1 / 2 ^ 32 \<le> ?x" .
  qed
  ultimately show ?thesis using count_ratio_finite [OF assms False, folded m_def] False by (cases "n \<le> unat q") auto
qed

section \<open>Winners and losers\<close>

text \<open>How the open bids of a stock were divided, and what was done with each part.\<close>

definition allotted :: "ipo_stock \<Rightarrow> ipo_bid list \<Rightarrow> ipo_bid list \<Rightarrow> ipo_bid list \<Rightarrow> u32 \<Rightarrow> u64 \<Rightarrow> world \<Rightarrow> world \<Rightarrow> bool" where
  "allotted x os winners losers newId price w w' \<longleftrightarrow> set winners \<subseteq> set os \<and>
     distinct winners \<and> losers = filter (\<lambda>b. b \<notin> set winners) os \<and>
     length winners = min (length os) (unat (is_SlotQuantity x)) \<and>
     (\<exists>w1. closes (spend (is_SlotPrice x)) (map (fulfil (now w)) winners)
             (map (allot_tx newId (is_StocksPerSlot x) (is_SlotPrice x) price (now w)) winners) w w1 \<and>
           closes (get_back (is_SlotPrice x)) (map (shut (now w)) losers)
             (map (ipo_refund_tx newId (is_SlotPrice x) (now w)) losers) w1 w')"

lemma open_after_winners:
  assumes bids: "IpoBids t' = map (\<lambda>b. if b \<in> set ws then fulfil n b else b) (IpoBids t)"
    and f: "list_all (\<lambda>b. ib_IsFulfilled b \<longrightarrow> ib_IsClosed b) (IpoBids t)"
  shows "filter (\<lambda>b. \<not> ib_IsFulfilled b) (open_ipo_bids sid t') = filter (\<lambda>b. b \<notin> set ws) (open_ipo_bids sid t)"
proof -
  have "filter (\<lambda>b. \<not> ib_IsFulfilled b) (filter (\<lambda>b. ib_IpoStockId b = sid \<and> \<not> ib_IsClosed b)
        (map (\<lambda>b. if b \<in> set ws then fulfil n b else b) xs)) =
      filter (\<lambda>b. b \<notin> set ws) (filter (\<lambda>b. ib_IpoStockId b = sid \<and> \<not> ib_IsClosed b) xs)"
    if "list_all (\<lambda>b. ib_IsFulfilled b \<longrightarrow> ib_IsClosed b) xs" for xs
    using that by (induction xs) (auto simp: fulfil_def)
  then show ?thesis using f by (simp add: open_ipo_bids_def bids)
qed

lemma closes_same_left: "same_mem w0 w \<Longrightarrow> db w = db w0 \<Longrightarrow> closes pay bs trs w w' \<Longrightarrow> closes pay bs trs w0 w'"
  using closes_append [OF closes_Nil [of w0 w pay]] by fastforce

lemma closes_same_right: "closes pay bs trs w w0 \<Longrightarrow> same_mem w0 w' \<Longrightarrow> db w' = db w0 \<Longrightarrow> closes pay bs trs w w'"
  using closes_append [OF _ closes_Nil [of w0 w' pay]] by fastforce

lemma allot_bids_cases:
  assumes run: "allot_bids shuffle x (count_ratio (length os) (is_SlotQuantity x)) os newId price w = Some (a, w')"
    and bids: "os = open_ipo_bids (is_Id x) (db w)" and n: "length os < 2 ^ 53"
    and d: "distinct (map ib_Id (IpoBids (db w)))" and f: "list_all (\<lambda>b. ib_IsFulfilled b \<longrightarrow> ib_IsClosed b) (IpoBids (db w))"
    and sh: "mset (shuffle os) = mset os"
  shows "case a of Inl err \<Rightarrow> keeps_accounts w w'
    | Inr m \<Rightarrow> \<exists>ws ls. m = ucast (of_nat (length ws) * is_StocksPerSlot x) \<and> allotted x os ws ls newId price w w'"
proof -
  let ?q = "is_SlotQuantity x" and ?n = "is_StocksPerSlot x" and ?cost = "is_SlotPrice x"
  have db: "distinct os" using d by (simp add: bids open_ipo_bids_def distinct_map)
  have sub: "set os \<subseteq> set (IpoBids (db w))" by (auto simp: bids open_ipo_bids_def)
  show ?thesis
  proof (cases "ratio_le (count_ratio (length os) ?q) 1")
    case True
    then have le: "length os \<le> unat ?q" using ratio_le_one [OF n] by simp
    obtain e where 1: "allot_all os newId ?n ?cost price w = Some (e, w')"
      "a = (case e of Some err \<Rightarrow> Inl err | None \<Rightarrow> Inr (ucast (of_nat (length os) * ?n)))"
      using run True by (cases "allot_all os newId ?n ?cost price w") (auto simp: allot_bids_def split: option.splits)
    note c = allot_all_closes [OF 1(1)]
    have l: "filter (\<lambda>b. b \<notin> set os) os = []" by (simp add: filter_empty_conv)
    show ?thesis
    proof (cases e)
      case None
      then have "allotted x os os [] newId price w w'"
        using c db le l closes_Nil [of w' w'] by (auto simp: allotted_def)
      then show ?thesis using 1(2) None by auto
    qed (use c 1(2) in simp)
  next
    case False
    then have le: "unat ?q \<le> length os" using ratio_le_one [OF n, of ?q] by (cases "?q = 0") auto
    obtain ok w1 where 1: "db_ok w = (ok, w1)" by fastforce
    note m1 = db_ok_same [OF 1]
    define ws where "ws = take (unat ?q) (shuffle os)"
    have ws: "set ws \<subseteq> set os" "distinct ws" "length ws = min (length os) (unat ?q)"
      using mset_eq_setD [OF sh] mset_eq_imp_distinct_iff [OF sh] mset_eq_length [OF sh] db set_take_subset
      by (fastforce simp: ws_def)+
    show ?thesis
    proof (cases ok)
      case False
      then show ?thesis using run \<open>\<not> ratio_le _ 1\<close> 1 m1 keeps_accounts_mem by (auto simp: allot_bids_def)
    next
      case ok: True
      obtain e w2 where 2: "allot_all ws newId ?n ?cost price w1 = Some (e, w2)"
        using run False 1 m1 ok bids
        by (cases "allot_all ws newId ?n ?cost price w1") (auto simp: allot_bids_def ws_def)
      note c = allot_all_closes [OF 2]
      have k2: "keeps_accounts w w2" using c m1 keeps_accounts_mem keeps_accounts_trans by blast
      show ?thesis
      proof (cases e)
        case (Some err)
        then show ?thesis using run False 1 m1 ok bids 2 k2 by (auto simp: allot_bids_def ws_def)
      next
        case None
        obtain ok2 w3 where 3: "db_ok w2 = (ok2, w3)" by fastforce
        note m3 = db_ok_same [OF 3]
        have "now w1 = now w" using m1 by (simp add: same_mem_def)
        then have c2: "closes (spend ?cost) (map (fulfil (now w)) ws) (map (allot_tx newId ?n ?cost price (now w)) ws) w1 w2"
          using c None by simp
        have c3: "closes (spend ?cost) (map (fulfil (now w)) ws) (map (allot_tx newId ?n ?cost price (now w)) ws) w w3"
          using closes_same_right [OF closes_same_left [OF _ _ c2]] m1 m3 by simp
        have "IpoBids (db w3) = map (\<lambda>b. if b \<in> set ws then fulfil (now w) b else b) (IpoBids (db w))"
          using c3 put_bids_map [OF d, of ws "fulfil (now w)"] ws(1) sub by (auto simp: closes_def fulfil_def)
        from open_after_winners [OF this f, of "is_Id x"]
        have ls: "filter (\<lambda>b. \<not> ib_IsFulfilled b) (open_ipo_bids (is_Id x) (db w3)) = filter (\<lambda>b. b \<notin> set ws) os"
          by (simp add: bids)
        show ?thesis
        proof (cases ok2)
          case no: False
          then show ?thesis using run False 1 m1 ok bids 2 None 3 k2 m3 keeps_accounts_mem keeps_accounts_trans
            by (fastforce simp: allot_bids_def ws_def)
        next
          case ok2: True
          let ?ls = "filter (\<lambda>b. b \<notin> set ws) os"
          obtain e2 where 4: "refund_all ?ls newId ?cost w3 = Some (e2, w')"
            "a = (case e2 of Some err \<Rightarrow> Inl err | None \<Rightarrow> Inr (ucast (?q * ?n)))"
            using run False 1 m1 ok bids 2 None 3 ok2 ls
            by (cases "refund_all ?ls newId ?cost w3") (auto simp: allot_bids_def ws_def split: option.splits)
          note c4 = refund_all_closes [OF 4(1)]
          have k3: "keeps_accounts w w3" "now w3 = now w" using c3 by (simp_all add: closes_def)
          show ?thesis
          proof (cases e2)
            case (Some err)
            then show ?thesis using 4(2) c4 k3 keeps_accounts_trans by auto
          next
            case N: None
            have "allotted x os ws ?ls newId price w w'"
              unfolding allotted_def using ws c3 c4 N k3(2) by auto
            moreover have "of_nat (length ws) = ?q" using ws(3) le by simp
            ultimately show ?thesis using 4(2) N by (simp (no_asm_simp)) (rule exI [of _ ws], simp, rule exI [of _ ?ls], simp)
          qed
        qed
      qed
    qed
  qed
qed

section \<open>The whole allotment\<close>

definition same_people :: "world \<Rightarrow> world \<Rightarrow> bool" where
  "same_people w w' \<longleftrightarrow> users w' = users w \<and> now w' = now w \<and> Users (db w') = Users (db w) \<and>
     Transactions (db w') = Transactions (db w) \<and> IpoBids (db w') = IpoBids (db w)"

lemma same_people_trans: "same_people a b \<Longrightarrow> same_people b c \<Longrightarrow> same_people a c"
  by (simp add: same_people_def)

lemma same_people_mem: "same_mem w w' \<Longrightarrow> db w' = db w \<Longrightarrow> same_people w w'"
  by (simp add: same_people_def same_mem_def)

lemma same_people_accounts: "same_people w w' \<Longrightarrow> keeps_accounts w w'"
  by (rule keeps_accounts_same) (simp_all add: same_people_def)

lemma same_people_loaded: "same_people w w' \<Longrightarrow> loaded w' j = loaded w j"
  by (simp add: loaded_def same_people_def cong: option.case_cong)

lemma load_stocks_people: "same_people w (load_stocks ss w)"
  by (induction ss arbitrary: w) (auto simp: same_people_def)

lemma LoadStocks_people: "same_people w (snd (LoadStocks w)) \<and> db (snd (LoadStocks w)) = db w"
proof -
  obtain ok w1 where 1: "db_ok w = (ok, w1)" by fastforce
  note m = db_ok_same [OF 1]
  let ?w = "w1\<lparr>allStocks := Map.empty, avgLastPrice := Map.empty\<rparr>"
  have "same_people w (load_stocks (Stocks (db w1)) ?w)"
    using load_stocks_people [of ?w "Stocks (db w1)"] m by (simp add: same_people_def same_mem_def)
  then show ?thesis using m 1 same_people_mem [of w w1] by (simp add: LoadStocks_def load_stocks_simps)
qed

text \<open>
  Before the bids are closed the offering is closed and the stock is listed; after it the number of
  shares in the market is written to the stock.
\<close>

lemma AllotSlots_cases:
  assumes run: "AllotSlots shuffle sid w = Some (e, w')"
  obtains (Early) err where "e = Some err" "same_people w w'"
  | (Closed) x w6 w7 a s where "row is_Id sid (IpoStocks (db w)) = Some x" "is_Id x = sid" "is_IsBiddable x" "same_people w w6"
      "allot_bids shuffle x (count_ratio (length (open_ipo_bids sid (db w))) (is_SlotQuantity x)) (open_ipo_bids sid (db w)) (s_Id s)
         (s_CurrentPrice s) w6 = Some (a, w7)"
      "s_CurrentPrice s = listing_price (count_ratio (length (open_ipo_bids sid (db w))) (is_SlotQuantity x)) (is_StockPrice x)"
      "same_people w7 w'" "row is_Id sid (IpoStocks (db w6)) = Some (x\<lparr>is_IsBiddable := False, is_UpdatedAt := now w\<rparr>)"
      "case a of Inl err \<Rightarrow> e = Some err | Inr m \<Rightarrow> e = None \<longrightarrow>
         (\<exists>t. row s_Id (s_Id s) (Stocks (db w')) = Some (s\<lparr>s_StocksInMarket := m, s_UpdatedAt := t\<rparr>)) \<and> IpoStocks (db w') = IpoStocks (db w7)"
proof -
  obtain r w1 where 1: "first_ipo_stock sid w = (r, w1)" by fastforce
  have m1: "same_people w w1" "db w1 = db w" using first_ipo_stock_mem [OF 1] same_people_mem by blast+
  obtain ok1 w2 where 2: "db_ok w1 = (ok1, w2)" by fastforce
  have m2: "same_people w w2" "db w2 = db w" using db_ok_same [OF 2] m1 same_people_mem same_people_trans by metis+
  show ?thesis
  proof (cases "ok1 \<and> (\<exists>x. r = Inr x \<and> is_IsBiddable x)")
    case False
    then show ?thesis using run 1 2 m1(1) m2(1) Early by (auto simp: AllotSlots_def split: sum.splits if_splits)
  next
    case True
    then obtain x where r: "r = Inr x" "is_IsBiddable x" by blast
    have x: "row is_Id sid (IpoStocks (db w)) = Some x" "is_Id x = sid" using first_ipo_stock_row [of sid w x w1] 1 r(1) by simp_all
    let ?x = "x\<lparr>is_IsBiddable := False, is_UpdatedAt := now w2\<rparr>"
    define w3 where "w3 = w2\<lparr>db := save_ipo_stock ?x (db w2)\<rparr>"
    have m3: "same_people w w3" "row is_Id sid (IpoStocks (db w3)) = Some ?x"
      using m2 x(2) by (auto simp: same_people_def w3_def save_ipo_stock_def)
    obtain ok2 w4 where 4: "db_ok w3 = (ok2, w4)" by fastforce
    have m4: "same_people w w4" "db w4 = db w3" using db_ok_same [OF 4] m3 same_people_mem same_people_trans by metis+
    obtain ok3 w5 where 5: "db_ok w4 = (ok3, w5)" by fastforce
    have m5: "same_people w w5" "db w5 = db w3" using db_ok_same [OF 5] m4 same_people_mem same_people_trans by metis+
    let ?os = "open_ipo_bids sid (db w)"
    let ?r = "count_ratio (length ?os) (is_SlotQuantity x)"
    define s where "s = (listed_stock x (listing_price ?r (is_StockPrice x)) (now w5))\<lparr>s_Id := nextId w5\<rparr>"
    define w6 where "w6 = w5\<lparr>db := (db w5)\<lparr>Stocks := Stocks (db w5) @ [s]\<rparr>, nextId := nextId w5 + 1\<rparr>"
    have os: "open_ipo_bids sid (db w4) = ?os" using m4(1) by (simp add: open_ipo_bids_def same_people_def)
    have m6: "same_people w w6" "IpoStocks (db w6) = IpoStocks (db w3)" using m5 by (simp_all add: w6_def same_people_def)
    have rest: "(if \<not> ok2 then Some (Some DbError, w4) else if \<not> ok3 then Some (Some DbError, w5)
        else do { (a, w7) \<leftarrow> allot_bids shuffle x ?r ?os (s_Id s) (listing_price ?r (is_StockPrice x)) w6;
          (case a of Inl err \<Rightarrow> Some (Some err, w7)
           | Inr inMarket \<Rightarrow> (let (ok4, w8) = db_ok w7 in
               if \<not> ok4 then Some (Some DbError, w8)
               else Some (None, snd (LoadStocks (w8\<lparr>db := save_stock
                 (s\<lparr>s_StocksInMarket := inMarket, s_UpdatedAt := now w8\<rparr>) (db w8)\<rparr>))))) }) = Some (e, w')"
      unfolding run [symmetric] AllotSlots_def Let_def 1 r(1) prod.case sum.case 2 w3_def [symmetric] 4 os 5 s_def [symmetric]
        w6_def [symmetric]
      using True r(2) by (simp split del: if_split)
    show ?thesis
    proof (cases "ok2 \<and> ok3")
      case False
      then show ?thesis using rest m4(1) m5(1) Early by (auto split: if_splits)
    next
      case True
      then obtain a w7 where a: "allot_bids shuffle x ?r ?os (s_Id s) (listing_price ?r (is_StockPrice x)) w6 = Some (a, w7)"
        using rest by (cases "allot_bids shuffle x ?r ?os (s_Id s) (listing_price ?r (is_StockPrice x)) w6") auto
      have price: "s_CurrentPrice s = listing_price ?r (is_StockPrice x)" by (simp add: s_def listed_stock_def)
      have row6: "row is_Id sid (IpoStocks (db w6)) = Some (x\<lparr>is_IsBiddable := False, is_UpdatedAt := now w\<rparr>)"
        using m3(2) m2(1) m6(2) by (simp add: same_people_def)
      note close = Closed [OF x r(2) m6(1) a [folded price] price _ row6]
      show ?thesis
      proof (cases a)
        case (Inl err)
        then show ?thesis using rest True a close by (simp add: same_people_def)
      next
        case (Inr m)
        obtain ok4 w8 where 8: "db_ok w7 = (ok4, w8)" by fastforce
        have m8: "same_people w7 w8" "db w8 = db w7" using db_ok_same [OF 8] same_people_mem by blast+
        show ?thesis
        proof (cases ok4)
          case False
          then show ?thesis using rest True a 8 m8(1) close Inr by auto
        next
          case ok: True
          let ?s = "s\<lparr>s_StocksInMarket := m, s_UpdatedAt := now w8\<rparr>"
          have e: "e = None" "w' = snd (LoadStocks (w8\<lparr>db := save_stock ?s (db w8)\<rparr>))"
            using rest True a 8 ok Inr by auto
          have w': "same_people w7 w'" "Stocks (db w') = upsert s_Id ?s (Stocks (db w8))" "IpoStocks (db w') = IpoStocks (db w7)"
            unfolding e(2) using m8 LoadStocks_people [of "w8\<lparr>db := save_stock ?s (db w8)\<rparr>"]
            by (simp_all add: same_people_def save_stock_def)
          have "row s_Id (s_Id s) (Stocks (db w')) = Some ?s" unfolding w'(2) row_upsert by simp
          then have "\<exists>t. row s_Id (s_Id s) (Stocks (db w')) = Some (s\<lparr>s_StocksInMarket := m, s_UpdatedAt := t\<rparr>)" by blast
          with w'(3) show ?thesis by (intro close [OF w'(1)]) (simp add: Inr)
        qed
      qed
    qed
  qed
qed

section \<open>When the database answers\<close>

lemma close_live:
  assumes "outcomes w = []" "users w (ib_UserId b) = Some u"
  shows "\<exists>w'. allotIpoSlotToUser b sid q n cost price w = Some (None, w') \<and> outcomes w' = [] \<and> dom (users w') = dom (users w)"
    "\<exists>w'. RefundIpoSlotToUser b sid cost w = Some (None, w') \<and> outcomes w' = [] \<and> dom (users w') = dom (users w)"
  using assms
  by (auto simp: allotIpoSlotToUser_def RefundIpoSlotToUser_def Let_def getUserExclusively_def tx_run_def set_user_def)

lemma allot_all_live:
  "outcomes w = [] \<Longrightarrow> ib_UserId ` set bs \<subseteq> dom (users w) \<Longrightarrow>
   \<exists>w'. allot_all bs sid n cost price w = Some (None, w') \<and> outcomes w' = [] \<and> dom (users w') = dom (users w)"
proof (induction bs arbitrary: w)
  case (Cons b bs)
  then obtain u where "users w (ib_UserId b) = Some u" by auto
  from close_live(1) [OF Cons.prems(1) this] obtain w1 where
    "allotIpoSlotToUser b sid (ib_SlotQuantity b) n cost price w = Some (None, w1)" "outcomes w1 = []" "dom (users w1) = dom (users w)"
    by blast
  then show ?case using Cons.IH [of w1] Cons.prems by auto
qed simp

lemma refund_all_live:
  "outcomes w = [] \<Longrightarrow> ib_UserId ` set bs \<subseteq> dom (users w) \<Longrightarrow>
   \<exists>w'. refund_all bs sid cost w = Some (None, w') \<and> outcomes w' = [] \<and> dom (users w') = dom (users w)"
proof (induction bs arbitrary: w)
  case (Cons b bs)
  then obtain u where "users w (ib_UserId b) = Some u" by auto
  from close_live(2) [OF Cons.prems(1) this] obtain w1 where
    "RefundIpoSlotToUser b sid cost w = Some (None, w1)" "outcomes w1 = []" "dom (users w1) = dom (users w)"
    by blast
  then show ?case using Cons.IH [of w1] Cons.prems by auto
qed simp

text \<open>The loops close bids only, so the bidders of the bids that are left are the same.\<close>

lemma upsert_users: "ib_UserId ` set (upsert ib_Id b xs) \<subseteq> insert (ib_UserId b) (ib_UserId ` set xs)"
  by (auto simp: upsert_def)

lemma put_bids_users: "ib_UserId ` set (put_bids bs xs) \<subseteq> ib_UserId ` set bs \<union> ib_UserId ` set xs"
proof (induction bs arbitrary: xs)
  case (Cons b bs)
  from Cons [of "upsert ib_Id b xs"] upsert_users [of b xs] show ?case by (auto simp: put_bids_def)
qed (simp add: put_bids_def)

lemma allot_bids_live:
  assumes w: "outcomes w = []" "ib_UserId ` set (IpoBids (db w)) \<subseteq> dom (users w)"
    and os: "os = open_ipo_bids (is_Id x) (db w)" "set (shuffle os) \<subseteq> set os"
  shows "\<exists>m w'. allot_bids shuffle x r os newId price w = Some (Inr m, w') \<and> outcomes w' = []"
proof (cases "ratio_le r 1")
  case True
  have "ib_UserId ` set os \<subseteq> dom (users w)" using w(2) by (auto simp: os open_ipo_bids_def)
  from allot_all_live [OF w(1) this] obtain w2 where
    "allot_all os newId (is_StocksPerSlot x) (is_SlotPrice x) price w = Some (None, w2)" "outcomes w2 = []" by blast
  then show ?thesis using True by (simp add: allot_bids_def)
next
  case False
  let ?ws = "take (unat (is_SlotQuantity x)) (shuffle os)"
  have "set os \<subseteq> set (IpoBids (db w))" by (auto simp: os(1) open_ipo_bids_def)
  then have "set ?ws \<subseteq> set (IpoBids (db w))" using os(2) set_take_subset [of "unat (is_SlotQuantity x)" "shuffle os"] by blast
  then have ws: "ib_UserId ` set ?ws \<subseteq> dom (users w)" using w(2) by blast
  obtain w2 where 2: "allot_all ?ws newId (is_StocksPerSlot x) (is_SlotPrice x) price w = Some (None, w2)" "outcomes w2 = []"
      "dom (users w2) = dom (users w)"
    using allot_all_live [OF w(1) ws] by blast
  have b2: "IpoBids (db w2) = put_bids (map (fulfil (now w)) ?ws) (IpoBids (db w))"
    using allot_all_closes [OF 2(1)] by (simp add: closes_def)
  have "ib_UserId ` set (map (fulfil (now w)) ?ws) \<subseteq> dom (users w)" using ws by (simp add: image_image fulfil_def)
  then have u2: "ib_UserId ` set (IpoBids (db w2)) \<subseteq> dom (users w2)"
    unfolding b2 2(3) by (intro subset_trans [OF put_bids_users] Un_least w(2))
  let ?ls = "filter (\<lambda>b. \<not> ib_IsFulfilled b) (open_ipo_bids (is_Id x) (db w2))"
  have "ib_UserId ` set ?ls \<subseteq> dom (users w2)" using u2 by (auto simp: open_ipo_bids_def)
  from refund_all_live [OF 2(2) this] obtain w4 where
    "refund_all ?ls newId (is_SlotPrice x) w2 = Some (None, w4)" "outcomes w4 = []" by blast
  then show ?thesis using False 2 w(1) os(1) by (simp add: allot_bids_def)
qed

lemma AllotSlots_live:
  assumes w: "outcomes w = []" "ib_UserId ` set (IpoBids (db w)) \<subseteq> dom (users w)"
    and x: "row is_Id sid (IpoStocks (db w)) = Some x" "is_IsBiddable x"
    and sh: "set (shuffle (open_ipo_bids sid (db w))) \<subseteq> set (open_ipo_bids sid (db w))"
  shows "\<exists>w'. AllotSlots shuffle sid w = Some (None, w')"
proof -
  let ?os = "open_ipo_bids sid (db w)"
  let ?r = "count_ratio (length ?os) (is_SlotQuantity x)"
  let ?x = "x\<lparr>is_IsBiddable := False, is_UpdatedAt := now w\<rparr>"
  let ?w3 = "w\<lparr>db := save_ipo_stock ?x (db w)\<rparr>"
  define s where "s = (listed_stock x (listing_price ?r (is_StockPrice x)) (now w))\<lparr>s_Id := nextId w\<rparr>"
  define w6 where "w6 = ?w3\<lparr>db := (db ?w3)\<lparr>Stocks := Stocks (db ?w3) @ [s]\<rparr>, nextId := nextId w + 1\<rparr>"
  have i: "is_Id x = sid" using row_key [OF x(1)] by simp
  have o: "open_ipo_bids sid (db ?w3) = ?os" by (simp add: open_ipo_bids_def save_ipo_stock_def)
  have "\<exists>m w7. allot_bids shuffle x ?r ?os (s_Id s) (listing_price ?r (is_StockPrice x)) w6 = Some (Inr m, w7) \<and> outcomes w7 = []"
    by (rule allot_bids_live) (use w sh i in \<open>simp_all add: w6_def open_ipo_bids_def save_ipo_stock_def\<close>)
  then obtain m w7 where a: "allot_bids shuffle x ?r ?os (s_Id s) (listing_price ?r (is_StockPrice x)) w6 = Some (Inr m, w7)" "outcomes w7 = []"
    by blast
  show ?thesis
    using w(1) x a o by (simp add: AllotSlots_def first_ipo_stock_def Let_def s_def w6_def)
qed

end
