(* ===== verification/Ipo_Properties.thy ===== *)
theory Ipo_Properties
  imports Ipo_Allotment Demo
begin

text \<open>
  The properties of initial public offerings: a bid, its cancellation, the allotment of the slots
  and the price at which the stock is listed.
\<close>

section \<open>Bids\<close>

definition open_bids_of :: "u32 \<Rightarrow> u32 \<Rightarrow> tables \<Rightarrow> ipo_bid list" where
  "open_bids_of i sid t = filter (\<lambda>b. ib_UserId b = i) (open_ipo_bids sid t)"

lemma IpoBids_simps [simp]:
  "IpoBids (insert_tx tr k t) = IpoBids t" "IpoBids (save_user u t) = IpoBids t"
  "IpoBids (insert_ipo_bid b k t) = IpoBids t @ [b\<lparr>ib_Id := k\<rparr>]"
  "IpoBids (save_ipo_bid b t) = upsert ib_Id b (IpoBids t)"
  "IpoStocks (insert_tx tr k t) = IpoStocks t" "IpoStocks (save_user u t) = IpoStocks t"
  "IpoStocks (insert_ipo_bid b k t) = IpoStocks t" "IpoStocks (save_ipo_bid b t) = IpoStocks t"
  by (simp_all add: insert_tx_def save_user_def insert_ipo_bid_def save_ipo_bid_def)

lemma sum_tx_ipo [ledger_simps]:
  "sum_tx f P (save_ipo_bid b t) = sum_tx f P t" "sum_tx f P (insert_ipo_bid b k t) = sum_tx f P t"
  by (simp_all add: sum_tx_def save_ipo_bid_def insert_ipo_bid_def)


lemma upsert_last: "row key k xs = None \<Longrightarrow> key x = k \<Longrightarrow> key y = k \<Longrightarrow> upsert key y (xs @ [x]) = xs @ [y]"
  by (auto simp: upsert_def row_None_iff intro: map_idI)

text \<open>The query at the end of a cancellation finds the row of the bid, whose total is the same.\<close>

lemma cancel_goes_through:
  assumes "outcomes w = []" "users w (ib_UserId b) = Some u"
    and "list_ex (\<lambda>x. t_UserId x = u_Id u \<and> t_Type x = IpoAllotmentTransaction \<and> t_Total x = - p) (Transactions (db w))"
  shows "\<exists>w'. SaveCancelledIpoBidTransaction b p w = Some (None, w')"
  using assms
  by (simp add: SaveCancelledIpoBidTransaction_def Let_def getUserExclusively_def tx_run_def find_ipo_tx_def save_ipo_bid_def
      save_user_def insert_tx_def set_user_def split: option.splits)

text \<open>
  C15. A bid that was made can be taken back while the bidding is open: the player then is as
  before, has no open bid for the stock, and the two transactions of the ledger cancel.
\<close>

theorem ipo_bid_cancelled:
  assumes run: "CreateIpoBid i sid q w = Some (Inr k, held, w1)" and u: "users w i = Some u"
    and new: "row ib_Id k (IpoBids (db w)) = None" and db: "outcomes w1 = []"
  shows "\<exists>w2. CancelIpoBid k w1 = Some (None, w2) \<and> users w2 i = Some u \<and> open_bids_of i sid (db w2) = [] \<and>
    sum_tx t_Total (\<lambda>x. t_UserId x = u_Id u) (db w2) = sum_tx t_Total (\<lambda>x. t_UserId x = u_Id u) (db w) \<and>
    sum_tx t_ReservedCashTotal (\<lambda>x. t_UserId x = u_Id u) (db w2) =
      sum_tx t_ReservedCashTotal (\<lambda>x. t_UserId x = u_Id u) (db w) \<and> keeps_accounts w w2"
  using run
proof (cases rule: CreateIpoBid_cases)
  case (Made x w3 b k')
  let ?p = "is_SlotPrice x"
  let ?u = "u\<lparr>u_Cash := u_Cash u - ?p, u_ReservedCash := u_ReservedCash u + ?p\<rparr>"
  have g: "getUserExclusively i w3 = (None, w3)" "users w3 i = Some u" using Made(11) [OF u] by (simp_all add: getUserExclusively_def)
  from Made(17) obtain j where s: "users w1 = (users w3)(i \<mapsto> ?u)" "k' = nextId w3" "keeps_accounts w3 w1"
      "db w1 = insert_tx (ipo_bid_tx (u_Id u) ?p (- ?p) (now w3)) j (save_user ?u (insert_ipo_bid b (nextId w3) (db w3)))"
      "same_mem (set_user i ?u w3) w1"
    by (cases rule: SaveNewIpoBid_cases) (use g in auto)
  have k: "k' = k" using Made(1) by simp
  have n: "now w1 = now w" using s(5) Made(13) by (simp add: same_mem_def ledger_simps)
  have x: "row is_Id sid (IpoStocks (db w)) = Some x" using Made(4,5) by (auto simp: zero_ipo_stock_def)
  let ?b = "b\<lparr>ib_Id := k\<rparr>"
  have b: "row ib_Id k (IpoBids (db w1)) = Some ?b" using s(2,4) new k Made(8) by (simp add: row_append)
  have tx: "list_ex (\<lambda>x. t_UserId x = u_Id ?u \<and> t_Type x = IpoAllotmentTransaction \<and> t_Total x = - ?p) (Transactions (db w1))"
    by (simp add: s(4) insert_tx_def ipo_bid_tx_def GetTransactionRef_def)
  have c: "CancelIpoBid k w1 = SaveCancelledIpoBidTransaction (?b\<lparr>ib_IsClosed := True, ib_UpdatedAt := now w1\<rparr>) ?p w1"
    using db b x s(4) Made(5,8,15) by (simp add: CancelIpoBid_def first_ipo_stock_def)
  have "\<exists>w2. CancelIpoBid k w1 = Some (None, w2)"
    unfolding c by (rule cancel_goes_through [where u = ?u]) (use db tx s(1) Made(15) in simp_all)
  then obtain w2 where w2: "CancelIpoBid k w1 = Some (None, w2)" by blast
  from w2 [unfolded c] show ?thesis
  proof (cases rule: SaveCancelledIpoBid_cases)
    case Failed
    then show ?thesis by simp
  next
    case (Done w4 v j2)
    have w4: "w4 = w1" "v = ?u" using Done(1,2) s(1) Made(15) by (auto simp: getUserExclusively_def)
    have "IpoBids (db w2) = IpoBids (db w) @ [?b\<lparr>ib_IsClosed := True, ib_UpdatedAt := now w1\<rparr>]"
      using Done(5) s(2,4) Made(8) w4 k upsert_last [OF new] by simp
    moreover have "open_bids_of i sid (db w) = []"
      using Made(16) by (auto simp: open_bids_of_def open_ipo_bids_def filter_empty_conv list_ex_iff)
    ultimately have "open_bids_of i sid (db w2) = []" by (simp add: open_bids_of_def open_ipo_bids_def)
    moreover have "users w2 i = Some u" using Done(4) w4 Made(15) by simp
    moreover have "keeps_accounts w w2" using Made(9) s(3) Done(6) keeps_accounts_trans by blast
    ultimately show ?thesis using w2 Done(5) w4 s(4) Made(8,15)
      by (simp add: ledger_simps ipo_bid_tx_def)
  qed
qed simp

section \<open>Allotment\<close>

lemma open_bids_people: "same_people w w' \<Longrightarrow> open_ipo_bids sid (db w') = open_ipo_bids sid (db w)"
  by (simp add: open_ipo_bids_def same_people_def)

text \<open>
  C16. Whatever call to the database fails, also in the middle of an allotment: bids, cancellations
  and allotments leave the account of every user in balance.
\<close>

theorem ipo_keeps_accounts:
  assumes "distinct (map ib_Id (IpoBids (db w)))" "list_all (\<lambda>b. ib_IsFulfilled b \<longrightarrow> ib_IsClosed b) (IpoBids (db w))"
    and "length (IpoBids (db w)) < 2 ^ 53" "mset (shuffle (open_ipo_bids sid (db w))) = mset (open_ipo_bids sid (db w))"
    and "CreateIpoBid i sid q w = Some (r, held, w') \<or> CancelIpoBid k w = Some (e, w') \<or> AllotSlots shuffle sid w = Some (e, w')"
  shows "keeps_accounts w w'"
  using assms(5)
proof (elim disjE)
  assume "CreateIpoBid i sid q w = Some (r, held, w')"
  then show ?thesis
  proof (cases rule: CreateIpoBid_cases)
    case (Made x w3 b oid)
    from Made(17) have "keeps_accounts w3 w'" by (cases rule: SaveNewIpoBid_cases) auto
    then show ?thesis using Made(9) keeps_accounts_trans by blast
  qed simp
next
  assume "CancelIpoBid k w = Some (e, w')"
  then show ?thesis
  proof (cases rule: CancelIpoBid_cases)
    case (Cancelled b x w2)
    from Cancelled(8) have "keeps_accounts w2 w'" by (cases rule: SaveCancelledIpoBid_cases) auto
    then show ?thesis using keeps_accounts_mem [OF Cancelled(6,7)] keeps_accounts_trans by blast
  qed simp
next
  assume "AllotSlots shuffle sid w = Some (e, w')"
  then show ?thesis
  proof (cases rule: AllotSlots_cases)
    case (Closed x w6 w7 a s)
    note p = open_bids_people [OF Closed(4)]
    have l: "length (open_ipo_bids sid (db w)) < 2 ^ 53" using assms(3) le_less_trans [OF length_filter_le] by (simp add: open_ipo_bids_def)
    have "keeps_accounts w6 w7"
      using allot_bids_cases [OF Closed(5) _ l, unfolded Closed(2) p] assms(1,2,4) Closed(4)
      by (auto simp: same_people_def allotted_def closes_def split: sum.splits intro: keeps_accounts_trans)
    then show ?thesis using same_people_accounts [OF Closed(4)] same_people_accounts [OF Closed(7)] keeps_accounts_trans by blast
  qed (simp add: same_people_accounts)
qed

text \<open>
  C13. An allotment that succeeds: as many bids win as there are slots, or all if there are fewer; a
  bid that wins is fulfilled, every other open bid is closed, and no bid for the stock is left open.
  The price of a winner is taken from the reserve and the shares are entered in the ledger, a loser
  gets the price back, and the listed stock has as many shares in the market as were allotted.
\<close>

theorem allotment_correct:
  assumes run: "AllotSlots shuffle sid w = Some (None, w')" and x: "row is_Id sid (IpoStocks (db w)) = Some x"
    and d: "distinct (map ib_Id (IpoBids (db w)))" "list_all (\<lambda>b. ib_IsFulfilled b \<longrightarrow> ib_IsClosed b) (IpoBids (db w))"
    and n: "length (IpoBids (db w)) < 2 ^ 53" "mset (shuffle (open_ipo_bids sid (db w))) = mset (open_ipo_bids sid (db w))"
  shows "\<exists>ws ls s. set ws \<union> set ls = set (open_ipo_bids sid (db w)) \<and> set ws \<inter> set ls = {} \<and>
    length ws = min (length (open_ipo_bids sid (db w))) (unat (is_SlotQuantity x)) \<and>
    IpoBids (db w') = map (\<lambda>b. if b \<in> set ws then fulfil (now w) b else if b \<in> set ls then shut (now w) b else b) (IpoBids (db w)) \<and>
    open_ipo_bids sid (db w') = [] \<and>
    adds_tx (map (allot_tx (s_Id s) (is_StocksPerSlot x) (is_SlotPrice x) (s_CurrentPrice s) (now w)) ws @
      map (ipo_refund_tx (s_Id s) (is_SlotPrice x) (now w)) ls) (db w) (db w') \<and>
    row s_Id (s_Id s) (Stocks (db w')) = Some s \<and> s_StocksInMarket s = ucast (of_nat (length ws) * is_StocksPerSlot x) \<and>
    s_CurrentPrice s = listing_price (count_ratio (length (open_ipo_bids sid (db w))) (is_SlotQuantity x)) (is_StockPrice x) \<and>
    (keyed w \<and> j \<noteq> 0 \<longrightarrow> loaded w' j =
       map_option ((get_back (is_SlotPrice x) ^^ bids_of j ls) \<circ> (spend (is_SlotPrice x) ^^ bids_of j ws)) (loaded w j))"
  using run
proof (cases rule: AllotSlots_cases)
  case (Closed x' w6 w7 a s)
  have x': "x' = x" using Closed(1) x by simp
  let ?os = "open_ipo_bids sid (db w)" and ?c = "is_SlotPrice x" and ?n = "is_StocksPerSlot x"
  note p = open_bids_people [OF Closed(4)]
  have l: "length ?os < 2 ^ 53" using n(1) le_less_trans [OF length_filter_le] by (simp add: open_ipo_bids_def)
  have b6: "IpoBids (db w6) = IpoBids (db w)" "now w6 = now w" using Closed(4) by (simp_all add: same_people_def)
  obtain m where m: "a = Inr m" using Closed(9) by (cases a) auto
  obtain ws ls where al: "m = ucast (of_nat (length ws) * ?n)" "allotted x ?os ws ls (s_Id s) (s_CurrentPrice s) w6 w7"
    using allot_bids_cases [OF Closed(5) _ l, unfolded Closed(2) p] d n(2) m b6 x' by auto
  obtain w1 where c: "closes (spend ?c) (map (fulfil (now w)) ws) (map (allot_tx (s_Id s) ?n ?c (s_CurrentPrice s) (now w)) ws) w6 w1"
      "closes (get_back ?c) (map (shut (now w)) ls) (map (ipo_refund_tx (s_Id s) ?c (now w)) ls) w1 w7"
    and w: "set ws \<subseteq> set ?os" "distinct ws" "ls = filter (\<lambda>b. b \<notin> set ws) ?os" "length ws = min (length ?os) (unat (is_SlotQuantity x))"
    using al(2) by (auto simp: allotted_def b6)
  let ?B = "IpoBids (db w)" and ?g = "\<lambda>b. if b \<in> set ws then fulfil (now w) b else b"
  let ?h = "\<lambda>b. if b \<in> set ws then fulfil (now w) b else if b \<in> set ls then shut (now w) b else b"
  have sub: "set ?os \<subseteq> set ?B" by (auto simp: open_ipo_bids_def)
  have ids: "ib_Id (fulfil t b) = ib_Id b" "ib_Id (shut t b) = ib_Id b" for t b by (simp_all add: fulfil_def shut_def)
  have "IpoBids (db w1) = map ?g ?B"
    using c(1) put_bids_map [OF d(1), of ws "fulfil (now w)"] w(1) sub ids by (auto simp: closes_def b6)
  moreover have "distinct (map ib_Id (map ?g ?B))" using d(1) by (simp add: o_def if_distrib ids cong: if_cong)
  moreover have "set ls \<subseteq> set (map ?g ?B)" using w(3) sub by (auto simp: image_iff intro!: bexI)
  ultimately have "IpoBids (db w7) = map (\<lambda>b. if b \<in> set ls then shut (now w) b else b) (map ?g ?B)"
    using c(2) put_bids_map [of "map ?g ?B" ls "shut (now w)"] ids by (auto simp: closes_def)
  moreover have "fulfil (now w) b \<notin> set ls" for b using w(3) by (auto simp: open_ipo_bids_def fulfil_def)
  ultimately have B: "IpoBids (db w') = map ?h ?B"
    using Closed(7) by (auto simp: same_people_def)
  have "\<not> (ib_IpoStockId (?h b) = sid \<and> \<not> ib_IsClosed (?h b))" if "b \<in> set ?B" for b
    using that w(1,3) by (auto simp: open_ipo_bids_def fulfil_def shut_def)
  then have o: "open_ipo_bids sid (db w') = []"
    unfolding open_ipo_bids_def B filter_empty_conv set_map by (metis (lifting) imageE)
  have tx: "adds_tx (map (allot_tx (s_Id s) ?n ?c (s_CurrentPrice s) (now w)) ws @ map (ipo_refund_tx (s_Id s) ?c (now w)) ls) (db w) (db w')"
    using c Closed(4,7) adds_tx_trans [of _ "db w6" "db w1" _ "db w7"] by (auto simp: closes_def same_people_def adds_tx_def)
  have us: "loaded w' j = map_option ((get_back ?c ^^ bids_of j ls) \<circ> (spend ?c ^^ bids_of j ws)) (loaded w j)"
    if "keyed w" "j \<noteq> 0"
  proof -
    have "keyed w6" "keyed w1" using that(1) same_people_accounts [OF Closed(4)] c(1) by (auto simp: keeps_accounts_def closes_def)
    moreover have "bids_of j (map (fulfil (now w)) ws) = bids_of j ws" "bids_of j (map (shut (now w)) ls) = bids_of j ls"
      by (simp_all add: bids_of_def filter_map o_def fulfil_def shut_def)
    ultimately show ?thesis using c that(2) same_people_loaded [OF Closed(4)] same_people_loaded [OF Closed(7)]
      by (simp add: closes_def option.map_comp)
  qed
  obtain t where t: "row s_Id (s_Id s) (Stocks (db w')) = Some (s\<lparr>s_StocksInMarket := m, s_UpdatedAt := t\<rparr>)"
    using Closed(9) m by auto
  show ?thesis
    using w B o tx us t al(1) Closed(6) x'
    by (intro exI [of _ ws] exI [of _ ls] exI [of _ "s\<lparr>s_StocksInMarket := m, s_UpdatedAt := t\<rparr>"]) auto
qed simp

section \<open>The price of the listing\<close>

text \<open>The percentage of the price, by the bands of the ratio.\<close>

definition listing_percent :: "f64 \<Rightarrow> int" where
  "listing_percent x = (if fl64 (19 / 20) \<le> x \<and> x \<le> fl64 (21 / 20) then 100
     else if fl64 (21 / 20) < x then if x < fl64 (6 / 5) then 105 else 110
     else if fl64 (4 / 5) < x then 95 else 90)"

lemma bands: "fl64 (4 / 5) \<le> fl64 (19 / 20)" "fl64 (19 / 20) \<le> 1" "1 \<le> fl64 (21 / 20)" "fl64 (21 / 20) \<le> fl64 (6 / 5)"
  using fl64_mono [of "4 / 5" "19 / 20"] fl64_mono [of "21 / 20" "6 / 5"] fl64_le_of_int [of "19 / 20" 1] of_int_le_fl64 [of 1 "21 / 20"]
  by simp_all

lemma listing_percent_mono: "x \<le> y \<Longrightarrow> listing_percent x \<le> listing_percent y"
  using bands by (simp add: listing_percent_def)

lemma listing_percent_range: "90 \<le> listing_percent x" "listing_percent x \<le> 110"
  by (simp_all add: listing_percent_def)

lemma uint_percent:
  fixes p :: u64
  assumes "uint p * 110 < 2 ^ 64" "uint k \<le> 110"
  shows "uint (p * k div 100) = uint p * uint k div 100"
proof -
  have "uint p * uint k \<le> uint p * 110" using assms(2) by (intro mult_left_mono) simp_all
  then have "uint (p * k) = uint p * uint k" using assms(1) by (simp add: uint_word_ariths)
  then show ?thesis by (simp add: uint_div)
qed

lemma listing_price_percent:
  assumes p: "uint p * 110 < 2 ^ 64"
  shows "uint (listing_price (Finite x) p) = uint p * listing_percent x div 100"
  using bands uint_percent [OF p, of 90] uint_percent [OF p, of 95] uint_percent [OF p, of 105] uint_percent [OF p, of 110]
  by (auto simp: listing_price_def listing_percent_def)

text \<open>
  C17. The price of the listing is between 90 and 110 percent of the price of the offering, does not
  fall when there are more bids, and is the price of the offering when there are as many bids as
  slots; the rounding of the ratio to floating point does not change that.
\<close>

theorem listing_price_correct:
  assumes "q \<noteq> 0" "n \<le> m" "m < 2 ^ 53" "uint p * 110 < 2 ^ 64"
  shows "uint (listing_price (count_ratio n q) p) \<le> uint (listing_price (count_ratio m q) p) \<and>
    uint p * 90 div 100 \<le> uint (listing_price (count_ratio n q) p) \<and>
    uint (listing_price (count_ratio m q) p) \<le> uint p * 110 div 100 \<and>
    listing_price (count_ratio (unat q) q) p = p"
proof -
  let ?x = "\<lambda>k :: nat. fl64 (of_nat k / of_int (uint q))"
  have r: "count_ratio k q = Finite (?x k)" if "k < 2 ^ 53" for k using count_ratio_finite [OF that assms(1)] .
  have q: "0 < uint q" using assms(1) by (simp add: word_neq_0_conv word_less_def)
  have qr: "(0 :: rat) \<le> of_int (uint q)" using q by (simp only: of_int_0_le_iff)
  then have "rat_of_nat n / of_int (uint q) \<le> of_nat m / of_int (uint q)"
    using assms(2) by (intro divide_right_mono of_nat_mono)
  then have "?x n \<le> ?x m" using divide_nonneg_nonneg [OF _ qr, of "of_nat n"] by (intro fl64_mono) simp_all
  from listing_percent_mono [OF this] have mono: "uint p * listing_percent (?x n) div 100 \<le> uint p * listing_percent (?x m) div 100"
    by (intro zdiv_mono1 mult_left_mono) simp_all
  have lo: "uint p * 90 div 100 \<le> uint p * listing_percent (?x n) div 100"
    using listing_percent_range(1) by (intro zdiv_mono1 mult_left_mono) simp_all
  have hi: "uint p * listing_percent (?x m) div 100 \<le> uint p * 110 div 100"
    using listing_percent_range(2) by (intro zdiv_mono1 mult_left_mono) simp_all
  have "unat q < 2 ^ 53" using uint_lt2p [of q] by (subst of_nat_less_iff [where 'a = int, symmetric]) simp
  moreover have "of_int (uint q) \<noteq> (0 :: rat)" using q unfolding of_int_eq_0_iff by simp
  then have "rat_of_nat (unat q) / of_int (uint q) = 1" by simp
  then have "?x (unat q) = 1" using fl64_of_int [of 1] by simp
  ultimately have "count_ratio (unat q) q = Finite 1" using r by simp
  then have "listing_price (count_ratio (unat q) q) p = p" using bands by (simp add: listing_price_def)
  then show ?thesis using mono lo hi r [of n] r [of m] assms(2,3) by (simp add: listing_price_percent [OF assms(4)])
qed

theorem listing_price_correct_witness:
  "uint (listing_price (count_ratio 3 4) 1000) \<le> uint (listing_price (count_ratio 5 4) 1000)"
  using listing_price_correct [of 4 3 5 1000] by simp

section \<open>Instances\<close>

text \<open>An offering of one slot, for which the users 1 and 2 bid.\<close>

definition ipo_demo :: world where
  "ipo_demo = demo\<lparr>db := (db demo)\<lparr>
     IpoStocks := [zero_ipo_stock\<lparr>is_Id := 7, is_IsBiddable := True, is_SlotPrice := 500, is_StockPrice := 100,
       is_SlotQuantity := 1, is_StocksPerSlot := 5\<rparr>],
     IpoBids := map (\<lambda>i. \<lparr>ib_Id = i, ib_UserId = i, ib_IpoStockId = 7, ib_SlotPrice = 500, ib_SlotQuantity = 1,
       ib_IsFulfilled = False, ib_IsClosed = False, ib_CreatedAt = [], ib_UpdatedAt = []\<rparr>) [1, 2]\<rparr>\<rparr>"

lemmas ipo_demo_defs = ipo_demo_def demo_defs zero_ipo_stock_def

definition ipo_demo_new :: world where
  "ipo_demo_new = ipo_demo\<lparr>db := (db ipo_demo)\<lparr>IpoBids := []\<rparr>\<rparr>"

lemma demo_bid:
  obtains w1 where "CreateIpoBid 1 7 1 ipo_demo_new = Some (Inr 10, False, w1)" "outcomes w1 = []"
  by (simp add: CreateIpoBid_def SaveNewIpoBidTransaction_def first_ipo_stock_def ipo_demo_new_def ipo_demo_defs getUserExclusively_def
      usr_def tx_run_def find_ipo_tx_def insert_ipo_bid_def save_user_def insert_tx_def ipo_bid_tx_def GetTransactionRef_def
      set_user_def Let_def)


theorem ipo_bid_cancelled_witness:
  "\<exists>w1 w2. CancelIpoBid 10 w1 = Some (None, w2) \<and> users w2 1 = users ipo_demo_new 1"
proof -
  obtain w1 where w1: "CreateIpoBid 1 7 1 ipo_demo_new = Some (Inr 10, False, w1)" "outcomes w1 = []" by (rule demo_bid)
  have "users ipo_demo_new 1 = Some (demo_user 1)" "row ib_Id 10 (IpoBids (db ipo_demo_new)) = None"
    by (simp_all add: ipo_demo_new_def ipo_demo_def demo_def)
  from ipo_bid_cancelled [OF w1(1) this w1(2)] this(1) show ?thesis by auto
qed

lemma ipo_demo_ok:
  "distinct (map ib_Id (IpoBids (db ipo_demo)))" "list_all (\<lambda>b. ib_IsFulfilled b \<longrightarrow> ib_IsClosed b) (IpoBids (db ipo_demo))"
  "length (IpoBids (db ipo_demo)) < 2 ^ 53" "length (open_ipo_bids 7 (db ipo_demo)) = 2"
  by (simp_all add: ipo_demo_def open_ipo_bids_def)

lemma ipo_demo_row:
  obtains x w' where "row is_Id 7 (IpoStocks (db ipo_demo)) = Some x" "is_SlotQuantity x = 1" "AllotSlots rev 7 ipo_demo = Some (None, w')"
proof -
  obtain x where x: "row is_Id 7 (IpoStocks (db ipo_demo)) = Some x" "is_SlotQuantity x = 1" "is_IsBiddable x"
    by (simp add: ipo_demo_def)
  have "\<exists>w'. AllotSlots rev 7 ipo_demo = Some (None, w')"
    by (rule AllotSlots_live [OF _ _ x(1,3)]) (simp_all add: ipo_demo_def demo_def)
  then show ?thesis using that x by blast
qed

theorem ipo_keeps_accounts_witness:
  "\<exists>w'. AllotSlots rev 7 ipo_demo = Some (None, w') \<and> keeps_accounts ipo_demo w'"
proof -
  obtain x w' where x: "AllotSlots rev 7 ipo_demo = Some (None, w')" by (rule ipo_demo_row)
  show ?thesis using x ipo_keeps_accounts [OF ipo_demo_ok(1-3) _ disjI2 [OF disjI2 [OF x]]] by simp
qed

theorem allotment_correct_witness:
  "\<exists>w' ws ls. AllotSlots rev 7 ipo_demo = Some (None, w') \<and> open_ipo_bids 7 (db w') = [] \<and>
     set ws \<union> set ls = set (open_ipo_bids 7 (db ipo_demo)) \<and> length ws = 1"
proof -
  obtain x w' where x: "row is_Id 7 (IpoStocks (db ipo_demo)) = Some x" "is_SlotQuantity x = 1"
    "AllotSlots rev 7 ipo_demo = Some (None, w')" by (rule ipo_demo_row)
  have "mset (rev (open_ipo_bids 7 (db ipo_demo))) = mset (open_ipo_bids 7 (db ipo_demo))" by simp
  from allotment_correct [OF x(3,1) ipo_demo_ok(1-3) this]
  obtain ws ls where "set ws \<union> set ls = set (open_ipo_bids 7 (db ipo_demo))" "open_ipo_bids 7 (db w') = []"
    "length ws = min (length (open_ipo_bids 7 (db ipo_demo))) (unat (is_SlotQuantity x))" by metis
  then show ?thesis using x(2,3) ipo_demo_ok(4) by auto
qed

end
