(* ===== verification/Leaderboard.thy ===== *)
theory Leaderboard
  imports Accounts Ledger Stocks
begin

text \<open>
  The leaderboards: \<^verbatim>\<open>models/LeaderboardRow.go\<close>, \<^verbatim>\<open>models/DailyLeaderboard.go\<close> and
  \<^verbatim>\<open>models/EndOfDayValues.go\<close>.

  Each update empties its table with \<^verbatim>\<open>TRUNCATE\<close> in the middle of a transaction. MySQL commits the
  transaction there, so the rows that follow are stored one by one and a rollback does not remove
  them. The error of \<^verbatim>\<open>TRUNCATE\<close> is ignored; if it fails the transaction goes on. The sums of the
  queries wrap here as \<^verbatim>\<open>int64\<close> does; rows with the same total keep the order of the users.
\<close>

section \<open>Filling a table anew\<close>

fun autocommit :: "txop list \<Rightarrow> world \<Rightarrow> bool \<times> world" where
  "autocommit [] w = (True, w)"
| "autocommit (op # ops) w =
     (case op (w, db w) of (True, w', t') \<Rightarrow> autocommit ops (w'\<lparr>db := t'\<rparr>) | (False, w', t') \<Rightarrow> (False, w'))"

text \<open>
  \<open>refill clear ops (w, t)\<close>: \<open>t\<close> are the tables of the transaction when the table is emptied. The
  result says whether the function reports success.
\<close>

definition refill :: "(tables \<Rightarrow> tables) \<Rightarrow> txop list \<Rightarrow> world \<times> tables \<Rightarrow> bool \<times> world" where
  "refill clear ops = (\<lambda>(w, t).
     let (truncated, w1) = db_ok w in
     if truncated
     then let (saved, w2) = autocommit ops (w1\<lparr>db := clear t\<rparr>) in if saved then db_ok w2 else (False, w2)
     else (case tx_seq ops (w1, t) of
             (False, w2, t2) \<Rightarrow> (False, w2)
           | (True, w2, t2) \<Rightarrow> (let (ok, w3) = db_ok w2 in (ok, if ok then w3\<lparr>db := t2\<rparr> else w3))))"

definition insert_lb :: "leaderboard_row \<Rightarrow> tables \<Rightarrow> tables" where
  "insert_lb r t = t\<lparr>Leaderboard := upsert lb_Id r (Leaderboard t)\<rparr>"

definition insert_daily :: "leaderboard_row \<Rightarrow> tables \<Rightarrow> tables" where
  "insert_daily r t = t\<lparr>DailyLeaderboard := upsert lb_Id r (DailyLeaderboard t)\<rparr>"

definition insert_eod :: "end_of_day \<Rightarrow> u32 \<Rightarrow> tables \<Rightarrow> tables" where
  "insert_eod r i t = t\<lparr>EndOfDayValues := EndOfDayValues t @ [r\<lparr>ed_Id := i\<rparr>]\<rparr>"

section \<open>The query for the leaderboard\<close>

record leaderboardQueryData =
  q_UserId :: u32
  q_UserName :: string
  q_Cash :: u64
  q_StockWorth :: i64
  q_Total :: i64
  q_IsBlocked :: bool

text \<open>
  The user's transactions joined with their stocks. \<^verbatim>\<open>SUM\<close> over no row is \<^verbatim>\<open>NULL\<close>; then the stocks
  count 0 and the total is the cash without the reserve.
\<close>

definition stock_trades :: "tables \<Rightarrow> u32 \<Rightarrow> (u64 \<times> transaction) list" where
  "stock_trades t i = [(s_CurrentPrice s, x). x \<leftarrow> Transactions t, t_UserId x = i, s \<leftarrow> Stocks t, s_Id s = t_StockId x]"

definition stocks_worth :: "tables \<Rightarrow> u32 \<Rightarrow> i64" where
  "stocks_worth t i =
     sum_list (map (\<lambda>(p, x). p * t_StockQuantity x) (stock_trades t i)) +
     sum_list (map (\<lambda>(p, x). p * t_ReservedStockQuantity x) (stock_trades t i))"

definition query_user :: "tables \<Rightarrow> user \<Rightarrow> leaderboardQueryData" where
  "query_user t u =
     \<lparr>q_UserId = u_Id u, q_UserName = u_Name u, q_Cash = u_Cash u + u_ReservedCash u,
      q_StockWorth = (if stock_trades t (u_Id u) = [] then 0 else stocks_worth t (u_Id u)),
      q_Total = (if stock_trades t (u_Id u) = [] then u_Cash u
                 else u_Cash u + u_ReservedCash u + stocks_worth t (u_Id u)),
      q_IsBlocked = u_IsBlocked u\<rparr>"

definition ranked_users :: "i64 \<Rightarrow> tables \<Rightarrow> leaderboardQueryData list" where
  "ranked_users maxBlockCount t =
     sort_key (\<lambda>r. - sint (q_Total r)) (map (query_user t) (filter (\<lambda>u. s_less (u_BlockCount u) maxBlockCount) (Users t)))"

section \<open>Ranks\<close>

text \<open>
  The loop over the sorted results: \<open>rank\<close> is the rank of the first one, \<open>counter\<close> its position.
\<close>

fun entries :: "nat \<Rightarrow> nat \<Rightarrow> nat \<Rightarrow> leaderboardQueryData list \<Rightarrow> leaderboard_row list" where
  "entries index rank counter [] = []"
| "entries index rank counter (r # rs) =
     \<lparr>lb_Id = of_nat (index + 1), lb_UserId = q_UserId r, lb_UserName = q_UserName r, lb_Rank = of_nat rank,
      lb_Cash = q_Cash r, lb_Debt = 0, lb_StockWorth = q_StockWorth r, lb_TotalWorth = q_Total r,
      lb_IsBlocked = q_IsBlocked r\<rparr> #
     (let counter' = counter + 1;
          rank' = (case rs of r' # _ \<Rightarrow> if s_less (q_Total r') (q_Total r) then counter' else rank | [] \<Rightarrow> rank)
      in entries (index + 1) rank' counter' rs)"

section \<open>The leaderboard\<close>

text \<open>
  The totals of the users: each user is changed in memory and saved. A user that cannot be saved
  keeps the new total in memory and stays locked, which is what \<open>Some i\<close> says.
\<close>

fun save_totals :: "leaderboardQueryData list \<Rightarrow> world \<times> tables \<Rightarrow> bool \<times> u32 option \<times> world \<times> tables" where
  "save_totals [] (w, t) = (True, None, w, t)"
| "save_totals (r # rs) (w, t) =
     (let i = q_UserId r; (e, w1) = getUserExclusively i w in
      if e \<noteq> None then (False, None, w1, t)
      else let u = (usr w1 i)\<lparr>u_Total := q_Total r\<rparr>;
               (ok, w2, t2) = tx_save (save_user u) (set_user i u w1, t)
           in if ok then save_totals rs (w2, t2) else (False, Some i, w2, t2))"

definition UpdateLeaderboard :: "i64 \<Rightarrow> world \<Rightarrow> u32 option \<times> world" where
  "UpdateLeaderboard maxBlockCount w =
     (let (ok, w1) = db_ok w;
          results = (if ok then ranked_users maxBlockCount (db w1) else []);
          (saved, locked, w2, t2) = save_totals results (w1, db w1)
      in if \<not> saved then (locked, w2)
         else (None, snd (refill (\<lambda>t. t\<lparr>Leaderboard := []\<rparr>)
                (map (\<lambda>r. tx_save (insert_lb r)) (entries 0 1 1 results)) (w2, t2))))"

definition GetEntireLeaderboard :: "world \<Rightarrow> (go_error + leaderboard_row list) \<times> world" where
  "GetEntireLeaderboard w =
     (let (ok, w1) = db_ok w
      in if ok then (Inr (sort_key lb_Rank (Leaderboard (db w1))), w1) else (Inl DbError, w1))"

text \<open>
  A page of a leaderboard, with the row of the user and the number of users, which is kept in a
  global variable and not changed when it cannot be counted.
\<close>

definition page_of_ranks ::
  "(tables \<Rightarrow> leaderboard_row list) \<Rightarrow> u32 \<Rightarrow> u32 \<Rightarrow> u32 \<Rightarrow> world \<Rightarrow> (go_error + leaderboard_row list \<times> leaderboard_row) \<times> world" where
  "page_of_ranks board userId startingId count w =
     (let start = (if startingId = 0 then 1 else startingId);
          n = (if count = 0 then 10 else MinInt32 count 10);
          (counted, w1) = db_ok w;
          w2 = (if counted then w1\<lparr>TotalUserCount := of_nat (length (Users (db w1)))\<rparr> else w1);
          (ok, w3) = db_ok w2
      in if \<not> ok then (Inl DbError, w3)
         else let rows = take (unat n) (sort_key lb_Rank (filter (\<lambda>r. start \<le> lb_Id r) (board (db w3))));
                  (ok2, w4) = db_ok w3
              in if \<not> ok2 then (Inl DbError, w4)
                 else (case sort_key lb_Id (filter (\<lambda>r. lb_UserId r = userId) (board (db w4))) of
                         [] \<Rightarrow> (Inl RecordNotFound, w4)
                       | me # _ \<Rightarrow> (Inr (rows, me), w4)))"

definition GetLeaderboard :: "u32 \<Rightarrow> u32 \<Rightarrow> u32 \<Rightarrow> world \<Rightarrow> (go_error + leaderboard_row list \<times> leaderboard_row) \<times> world" where
  "GetLeaderboard = page_of_ranks Leaderboard"

section \<open>The end of the day\<close>

definition end_of_day_row :: "leaderboard_row \<Rightarrow> end_of_day" where
  "end_of_day_row r = \<lparr>ed_Id = 0, ed_UserId = lb_UserId r, ed_Cash = lb_Cash r, ed_Debt = lb_Debt r,
     ed_StockWorth = lb_StockWorth r, ed_TotalWorth = lb_TotalWorth r\<rparr>"

definition UpdateEndOfDayValues :: "world \<Rightarrow> go_error option \<times> world" where
  "UpdateEndOfDayValues w =
     (let (r, w1) = GetEntireLeaderboard w in
      (case r of
         Inl e \<Rightarrow> (Some e, w1)
       | Inr rows \<Rightarrow>
           (let (ok, w2) = refill (\<lambda>t. t\<lparr>EndOfDayValues := []\<rparr>)
                  (map (\<lambda>r. tx_insert (insert_eod (end_of_day_row r))) rows) (w1, db w1)
            in (if ok then None else Some DbError, w2))))"

section \<open>The daily leaderboard\<close>

definition STARTING_CASH :: u64 where "STARTING_CASH = 200000"

text \<open>\<^verbatim>\<open>LEFT JOIN\<close>: a row that has no partner appears once, with \<^verbatim>\<open>NULL\<close> for the partner.\<close>

definition day_start :: "tables \<Rightarrow> u32 \<Rightarrow> end_of_day option list" where
  "day_start t i = (let es = filter (\<lambda>e. ed_UserId e = i) (EndOfDayValues t) in if es = [] then [None] else map Some es)"

definition daily_query :: "leaderboard_row \<Rightarrow> end_of_day option \<Rightarrow> leaderboardQueryData" where
  "daily_query l e =
     \<lparr>q_UserId = lb_UserId l, q_UserName = lb_UserName l,
      q_Cash = lb_Cash l - (case e of None \<Rightarrow> STARTING_CASH | Some x \<Rightarrow> ed_Cash x),
      q_StockWorth = lb_StockWorth l - (case e of None \<Rightarrow> 0 | Some x \<Rightarrow> ed_StockWorth x),
      q_Total = lb_TotalWorth l - (case e of None \<Rightarrow> STARTING_CASH | Some x \<Rightarrow> ed_TotalWorth x),
      q_IsBlocked = lb_IsBlocked l\<rparr>"

definition ranked_daily :: "tables \<Rightarrow> leaderboardQueryData list" where
  "ranked_daily t = sort_key (\<lambda>r. - sint (q_Total r)) [daily_query l e. l \<leftarrow> Leaderboard t, e \<leftarrow> day_start t (lb_UserId l)]"

definition UpdateDailyLeaderboard :: "world \<Rightarrow> world" where
  "UpdateDailyLeaderboard w =
     (let (ok, w1) = db_ok w; results = (if ok then ranked_daily (db w1) else [])
      in snd (refill (\<lambda>t. t\<lparr>DailyLeaderboard := []\<rparr>)
           (map (\<lambda>r. tx_save (insert_daily r)) (entries 0 1 1 results)) (w1, db w1)))"

definition GetDailyLeaderboard :: "u32 \<Rightarrow> u32 \<Rightarrow> u32 \<Rightarrow> world \<Rightarrow> (go_error + leaderboard_row list \<times> leaderboard_row) \<times> world" where
  "GetDailyLeaderboard = page_of_ranks DailyLeaderboard"

text \<open>One turn of the ticker; a user that is left locked is not unlocked by the next.\<close>

definition leaderboard_turn :: "i64 \<Rightarrow> world \<Rightarrow> u32 option \<times> world" where
  "leaderboard_turn maxBlockCount w =
     (let (locked, w1) = UpdateLeaderboard maxBlockCount w in (locked, UpdateDailyLeaderboard w1))"

end
