(* ===== verification/Leaderboard_Proofs.thy ===== *)
theory Leaderboard_Proofs
  imports Leaderboard Demo
begin

text \<open>
  The ranks of the leaderboards, and what an update of a leaderboard does when the database
  answers.
\<close>

section \<open>Ranks\<close>

abbreviation worth :: "leaderboardQueryData \<Rightarrow> int" where
  "worth r \<equiv> sint (q_Total r)"

definition better :: "leaderboardQueryData \<Rightarrow> leaderboardQueryData list \<Rightarrow> nat" where
  "better r rs = length (filter (\<lambda>x. worth r < worth x) rs)"

definition ranked_row :: "leaderboardQueryData list \<Rightarrow> nat \<times> leaderboardQueryData \<Rightarrow> leaderboard_row" where
  "ranked_row rs = (\<lambda>(k, r). \<lparr>lb_Id = of_nat (k + 1), lb_UserId = q_UserId r, lb_UserName = q_UserName r,
     lb_Rank = of_nat (1 + better r rs), lb_Cash = q_Cash r, lb_Debt = 0, lb_StockWorth = q_StockWorth r,
     lb_TotalWorth = q_Total r, lb_IsBlocked = q_IsBlocked r\<rparr>)"

lemma better_tail:
  assumes "sorted_wrt (\<lambda>a b. worth b \<le> worth a) (ps @ r # rs)"
  shows "better r (ps @ r # rs) = better r ps"
  using assms by (auto simp: better_def sorted_wrt_append filter_empty_conv)

text \<open>The rank of the next result is one more than the number of results before it that are better.\<close>

lemma next_rank:
  assumes s: "sorted_wrt (\<lambda>a b. worth b \<le> worth a) (ps @ r # r' # rs)"
  shows "Suc (better r' (ps @ [r])) = (if s_less (q_Total r') (q_Total r) then Suc (Suc (length ps)) else Suc (better r ps))"
proof (cases "worth r' < worth r")
  case True
  have "filter (\<lambda>x. worth r' < worth x) (ps @ [r]) = ps @ [r]"
    using s True by (auto simp: sorted_wrt_append filter_id_conv)
  then show ?thesis using True by (simp add: better_def s_less_def)
next
  case False
  then have "worth r' = worth r" using s by (simp add: sorted_wrt_append)
  then show ?thesis by (simp add: better_def s_less_def)
qed

lemma entries_ranked:
  "sorted_wrt (\<lambda>a b. worth b \<le> worth a) (ps @ rs) \<Longrightarrow> (\<And>r rs'. rs = r # rs' \<Longrightarrow> rank = Suc (better r ps)) \<Longrightarrow>
   entries (length ps) rank (Suc (length ps)) rs = map (ranked_row (ps @ rs)) (enumerate (length ps) rs)"
proof (induction rs arbitrary: ps rank)
  case (Cons r rs)
  have s: "sorted_wrt (\<lambda>a b. worth b \<le> worth a) ((ps @ [r]) @ rs)" using Cons.prems(1) by simp
  define rank' where "rank' = (case rs of r' # _ \<Rightarrow> if s_less (q_Total r') (q_Total r) then Suc (Suc (length ps)) else rank | [] \<Rightarrow> rank)"
  have rank: "rank = Suc (better r ps)" using Cons.prems(2) by simp
  have "rank' = Suc (better r' (ps @ [r]))" if "rs = r' # rs'" for r' rs'
    using next_rank [of ps r r' rs'] Cons.prems(1) that rank by (simp add: rank'_def)
  then have "entries (Suc (length ps)) rank' (Suc (Suc (length ps))) rs
      = map (ranked_row ((ps @ [r]) @ rs)) (enumerate (Suc (length ps)) rs)"
    using Cons.IH [OF s, of rank'] by simp
  moreover have "entries (length ps) rank (Suc (length ps)) (r # rs) =
      \<lparr>lb_Id = of_nat (length ps + 1), lb_UserId = q_UserId r, lb_UserName = q_UserName r, lb_Rank = of_nat rank,
       lb_Cash = q_Cash r, lb_Debt = 0, lb_StockWorth = q_StockWorth r, lb_TotalWorth = q_Total r,
       lb_IsBlocked = q_IsBlocked r\<rparr> # entries (Suc (length ps)) rank' (Suc (Suc (length ps))) rs"
    by (simp add: rank'_def)
  ultimately show ?case using better_tail [OF Cons.prems(1)] rank by (simp add: ranked_row_def del: entries.simps)
qed simp

lemma entries_start:
  assumes "sorted_wrt (\<lambda>a b. worth b \<le> worth a) rs"
  shows "entries 0 1 1 rs = map (ranked_row rs) (enumerate 0 rs)"
  using entries_ranked [of "[]" rs 1] assms by (simp add: better_def)


section \<open>The rows of the table\<close>

lemma autocommit_saves:
  assumes "outcomes w = []"
  shows "autocommit (map (\<lambda>r. tx_save (f r)) rs) w = (True, w\<lparr>db := foldl (\<lambda>t r. f r t) (db w) rs\<rparr>)"
  using assms by (induction rs arbitrary: w) simp_all

lemma put_rows:
  assumes "distinct (map key (xs @ rs))"
  shows "foldl (\<lambda>xs r. upsert key r xs) xs rs = xs @ rs"
  using assms
proof (induction rs arbitrary: xs)
  case (Cons r rs)
  have "key r \<notin> key ` set xs" using Cons.prems by simp
  then have "upsert key r xs = xs @ [r]" by (auto simp: upsert_def list_ex_iff image_iff)
  then show ?case using Cons.IH [of "xs @ [r]"] Cons.prems by simp
qed simp

lemma row_ids_distinct:
  assumes "length rs < 2 ^ 32"
  shows "distinct (map lb_Id (map (ranked_row os) (enumerate 0 rs)))"
proof -
  have "map lb_Id (map (ranked_row os) (enumerate 0 rs)) = map (\<lambda>k. of_nat (Suc k) :: u32) [0..<length rs]"
    by (rule nth_equalityI) (simp_all add: ranked_row_def nth_enumerate_eq)
  moreover have "inj_on (\<lambda>k. of_nat (Suc k) :: u32) {..<length rs}"
  proof (rule inj_onI)
    fix a b
    assume "a \<in> {..<length rs}" "b \<in> {..<length rs}" "of_nat (Suc a) = (of_nat (Suc b) :: u32)"
    moreover have "Suc c < 2 ^ 32" if "c < length rs" for c using assms that by linarith
    ultimately show "a = b" by (simp add: word_of_nat_eq_iff take_bit_nat_eq_self del: of_nat_Suc)
  qed
  ultimately show ?thesis by (simp add: distinct_map lessThan_atLeast0)
qed

lemma insert_lb_rows:
  "Leaderboard (foldl (\<lambda>t r. insert_lb r t) t rs) = foldl (\<lambda>xs r. upsert lb_Id r xs) (Leaderboard t) rs"
  "DailyLeaderboard (foldl (\<lambda>t r. insert_daily r t) t rs) = foldl (\<lambda>xs r. upsert lb_Id r xs) (DailyLeaderboard t) rs"
  "Users (foldl (\<lambda>t r. insert_lb r t) t rs) = Users t" "Transactions (foldl (\<lambda>t r. insert_lb r t) t rs) = Transactions t"
  by (induction rs arbitrary: t) (simp_all add: insert_lb_def insert_daily_def)

section \<open>The totals of the users\<close>


lemma same_total [simp]: "\<exists>T. u = u\<lparr>u_Total := T\<rparr>" "\<exists>T. u\<lparr>u_Total := S\<rparr> = u\<lparr>u_Total := T\<rparr>" for u :: user
proof -
  show "\<exists>T. u = u\<lparr>u_Total := T\<rparr>" by (rule exI [of _ "u_Total u"]) simp
qed blast






section \<open>The leaderboard after an update\<close>




section \<open>Properties\<close>




section \<open>A new day\<close>

lemma autocommit_days:
  assumes "outcomes w = []"
  shows "\<exists>w'. autocommit (map (\<lambda>r. tx_insert (insert_eod (end_of_day_row r))) rs) w = (True, w') \<and> outcomes w' = [] \<and>
    map (\<lambda>e. e\<lparr>ed_Id := 0\<rparr>) (EndOfDayValues (db w')) = map (\<lambda>e. e\<lparr>ed_Id := 0\<rparr>) (EndOfDayValues (db w)) @ map end_of_day_row rs \<and>
    Leaderboard (db w') = Leaderboard (db w)"
  using assms
proof (induction rs arbitrary: w)
  case (Cons r rs)
  let ?w = "w\<lparr>nextId := nextId w + 1, db := insert_eod (end_of_day_row r) (nextId w) (db w)\<rparr>"
  have "outcomes ?w = []" using Cons.prems by simp
  from Cons.IH [OF this] show ?case using Cons.prems by (auto simp: insert_eod_def end_of_day_row_def)
qed simp

lemma end_of_day_rows:
  assumes "outcomes w = []" "UpdateEndOfDayValues w = (e, w1)"
  shows "e = None" "outcomes w1 = []" "Leaderboard (db w1) = Leaderboard (db w)"
    "map (\<lambda>x. x\<lparr>ed_Id := 0\<rparr>) (EndOfDayValues (db w1)) = map end_of_day_row (sort_key lb_Rank (Leaderboard (db w)))"
proof -
  let ?rows = "sort_key lb_Rank (Leaderboard (db w))"
  obtain w2 where a: "autocommit (map (\<lambda>r. tx_insert (insert_eod (end_of_day_row r))) ?rows) (w\<lparr>db := (db w)\<lparr>EndOfDayValues := []\<rparr>\<rparr>) = (True, w2)"
    "outcomes w2 = []" "map (\<lambda>e. e\<lparr>ed_Id := 0\<rparr>) (EndOfDayValues (db w2)) = map end_of_day_row ?rows" "Leaderboard (db w2) = Leaderboard (db w)"
    using autocommit_days [of "w\<lparr>db := (db w)\<lparr>EndOfDayValues := []\<rparr>\<rparr>" ?rows] assms(1) by auto
  then have "(e, w1) = (None, w2)"
    using assms by (simp add: UpdateEndOfDayValues_def GetEntireLeaderboard_def refill_def)
  then show "e = None" "outcomes w1 = []" "Leaderboard (db w1) = Leaderboard (db w)"
    "map (\<lambda>x. x\<lparr>ed_Id := 0\<rparr>) (EndOfDayValues (db w1)) = map end_of_day_row ?rows" using a by simp_all
qed

lemma day_start_found:
  assumes es: "map (\<lambda>x. x\<lparr>ed_Id := 0\<rparr>) (EndOfDayValues t) = map end_of_day_row rows"
    and d: "distinct (map lb_UserId rows)" and l: "l \<in> set rows"
  obtains e where "day_start t (lb_UserId l) = [Some e]" "e\<lparr>ed_Id := 0\<rparr> = end_of_day_row l"
proof -
  let ?es = "filter (\<lambda>e. ed_UserId e = lb_UserId l) (EndOfDayValues t)"
  have "map (\<lambda>x. x\<lparr>ed_Id := 0\<rparr>) ?es = filter (\<lambda>e. ed_UserId e = lb_UserId l) (map (\<lambda>x. x\<lparr>ed_Id := 0\<rparr>) (EndOfDayValues t))"
    by (simp add: filter_map o_def)
  also have "\<dots> = map end_of_day_row (filter (\<lambda>r. lb_UserId r = lb_UserId l) rows)"
    unfolding es by (simp add: filter_map o_def end_of_day_row_def)
  also have "filter (\<lambda>r. lb_UserId r = lb_UserId l) rows = [l]"
    using d l by (induction rows) (auto simp: filter_empty_conv image_iff)
  finally obtain e where e: "?es = [e]" "e\<lparr>ed_Id := 0\<rparr> = end_of_day_row l" by auto
  then have "day_start t (lb_UserId l) = [Some e]" by (simp add: day_start_def)
  then show ?thesis using that e(2) by blast
qed

text \<open>
  C37. A new day starts even: when the values of the end of the day are stored and the daily
  leaderboard is computed, every user of the leaderboard is in it once, with no gain, on rank 1.
\<close>

theorem day_starts_even:
  assumes db: "outcomes w = []" and d: "distinct (map lb_UserId (Leaderboard (db w)))" and n: "length (Leaderboard (db w)) < 2 ^ 32"
    and eod: "UpdateEndOfDayValues w = (e, w1)"
  shows "e = None \<and>
    map (\<lambda>r. (lb_UserId r, lb_TotalWorth r, lb_StockWorth r, lb_Rank r)) (DailyLeaderboard (db (UpdateDailyLeaderboard w1))) =
    map (\<lambda>l. (lb_UserId l, 0, 0, 1)) (Leaderboard (db w))"
proof -
  note r = end_of_day_rows [OF db eod]
  let ?L = "Leaderboard (db w)"
  have "distinct (map lb_UserId (sort_key lb_Rank ?L))"
    using d mset_eq_imp_distinct_iff [of "map lb_UserId (sort_key lb_Rank ?L)" "map lb_UserId ?L"] by simp
  note found = day_start_found [OF r(4) this]
  define z where "z = (\<lambda>l :: leaderboard_row. \<lparr>q_UserId = lb_UserId l, q_UserName = lb_UserName l, q_Cash = 0, q_StockWorth = 0, q_Total = 0,
     q_IsBlocked = lb_IsBlocked l\<rparr>)"
  have one: "map (daily_query l) (day_start (db w1) (lb_UserId l)) = [z l]" if "l \<in> set ?L" for l
  proof -
    have "l \<in> set (sort_key lb_Rank ?L)" using that by simp
    then obtain x where x: "day_start (db w1) (lb_UserId l) = [Some x]" "x\<lparr>ed_Id := 0\<rparr> = end_of_day_row l"
      by (rule found)
    have "ed_Cash x = lb_Cash l" "ed_StockWorth x = lb_StockWorth l" "ed_TotalWorth x = lb_TotalWorth l"
      using arg_cong [OF x(2), of ed_Cash] arg_cong [OF x(2), of ed_StockWorth] arg_cong [OF x(2), of ed_TotalWorth]
      by (simp_all add: end_of_day_row_def)
    then show ?thesis by (simp add: x(1) daily_query_def z_def)
  qed
  have "(\<forall>l \<in> set ls. map (daily_query l) (day_start (db w1) (lb_UserId l)) = [z l]) \<longrightarrow>
      [daily_query l e. l \<leftarrow> ls, e \<leftarrow> day_start (db w1) (lb_UserId l)] = map z ls" for ls
    by (induction ls) simp_all
  then have "[daily_query l e. l \<leftarrow> ?L, e \<leftarrow> day_start (db w1) (lb_UserId l)] = map z ?L" using one by blast
  moreover have "sort_key (\<lambda>r. - worth r) (map z xs) = map z xs" for xs by (rule sort_key_id_if_sorted) (simp add: z_def o_def map_replicate_const)
  ultimately have rs: "ranked_daily (db w1) = map z ?L" by (simp add: ranked_daily_def r(3))
  let ?rows = "map (ranked_row (map z ?L)) (enumerate 0 (map z ?L))"
  have rows: "entries 0 1 1 (map z ?L) = ?rows" by (rule entries_start) (simp add: z_def sorted_wrt_map)
  have "foldl (\<lambda>xs r. upsert lb_Id r xs) [] ?rows = ?rows"
    using put_rows [of lb_Id "[]" ?rows] row_ids_distinct [of "map z ?L" "map z ?L"] n by simp
  moreover have "UpdateDailyLeaderboard w1 = w1\<lparr>db := foldl (\<lambda>t r. insert_daily r t) ((db w1)\<lparr>DailyLeaderboard := []\<rparr>) ?rows\<rparr>"
    using r(2) autocommit_saves [of "w1\<lparr>db := (db w1)\<lparr>DailyLeaderboard := []\<rparr>\<rparr>" insert_daily ?rows]
    by (simp add: UpdateDailyLeaderboard_def refill_def rs rows del: One_nat_def)
  ultimately have "DailyLeaderboard (db (UpdateDailyLeaderboard w1)) = ?rows" by (simp add: insert_lb_rows)
  moreover have "better r (map z ?L) = 0" if "q_Total r = 0" for r using that by (simp add: better_def z_def filter_map o_def)
  ultimately show ?thesis using r(1)
    by (auto intro!: nth_equalityI simp: ranked_row_def nth_enumerate_eq z_def)
qed

definition demo_board :: world where
  "demo_board = demo\<lparr>db := (db demo)\<lparr>Leaderboard := map (\<lambda>i. \<lparr>lb_Id = i, lb_UserId = i, lb_UserName = [],
     lb_Rank = i, lb_Cash = 10000 - ucast i, lb_Debt = 0, lb_StockWorth = 50, lb_TotalWorth = 10050 - ucast i, lb_IsBlocked = False\<rparr>) [1, 2]\<rparr>\<rparr>"

theorem day_starts_even_witness:
  "map (\<lambda>r. (lb_UserId r, lb_TotalWorth r, lb_StockWorth r, lb_Rank r))
     (DailyLeaderboard (db (UpdateDailyLeaderboard (snd (UpdateEndOfDayValues demo_board))))) = [(1, 0, 0, 1), (2, 0, 0, 1)]"
  using day_starts_even [OF _ _ _ prod.collapse [symmetric], of demo_board] by (simp add: demo_board_def demo_defs)

end
