(* ===== verification/Game_Config.thy ===== *)
theory Game_Config
  imports Stocks
begin

text \<open>
  The configuration of the game, \<^verbatim>\<open>models/Config.go\<close>, and the opening and closing of the market,
  \<^verbatim>\<open>models/MarketClose.go\<close>. An update without a condition changes every row of the table, which
  has one.
\<close>

section \<open>Configuration\<close>

definition save_config :: "game_config \<Rightarrow> tables \<Rightarrow> tables" where
  "save_config c t = t\<lparr>Configs := upsert c_Id c (Configs t)\<rparr>"

definition update_configs :: "(game_config \<Rightarrow> game_config) \<Rightarrow> world \<Rightarrow> go_error option \<times> world" where
  "update_configs f w =
     (let (ok, w1) = db_ok w
      in if ok then (None, w1\<lparr>db := (db w1)\<lparr>Configs := map f (Configs (db w1))\<rparr>\<rparr>) else (Some DbError, w1))"

text \<open>The first row by primary key; a query that fails leaves the zero value, which is returned.\<close>

definition read_config :: "(game_config \<Rightarrow> 'a) \<Rightarrow> 'a \<Rightarrow> world \<Rightarrow> 'a \<times> world" where
  "read_config field zero w =
     (let (ok, w1) = db_ok w
      in (if ok then (case sort_key c_Id (Configs (db w1)) of [] \<Rightarrow> zero | c # _ \<Rightarrow> field c) else zero, w1))"

text \<open>When the query fails the id is 0, and the row is overwritten by the initial one.\<close>

definition ConfigDataInit :: "world \<Rightarrow> world" where
  "ConfigDataInit w =
     (let (ok, w1) = db_ok w
      in if ok \<and> row c_Id 1 (Configs (db w1)) \<noteq> None then w1
         else snd (tx_run [tx_save (save_config \<lparr>c_Id = 1, c_IsDailyChallengeOpen = False, c_MarketDay = 0, c_IsMarketOpen = False\<rparr>)] w1))"

definition IsDailyChallengeOpen :: "world \<Rightarrow> bool \<times> world" where
  "IsDailyChallengeOpen = read_config c_IsDailyChallengeOpen False"

definition SetIsDailyChallengeOpen :: "bool \<Rightarrow> world \<Rightarrow> go_error option \<times> world" where
  "SetIsDailyChallengeOpen challengeStatus = update_configs (\<lambda>c. c\<lparr>c_IsDailyChallengeOpen := challengeStatus\<rparr>)"

definition GetMarketDay :: "world \<Rightarrow> u32 \<times> world" where
  "GetMarketDay = read_config c_MarketDay 0"

definition SetMarketDay :: "u32 \<Rightarrow> world \<Rightarrow> go_error option \<times> world" where
  "SetMarketDay marketDay = update_configs (\<lambda>c. c\<lparr>c_MarketDay := marketDay\<rparr>)"

definition GetDailyChallengeConfig :: "u32 \<Rightarrow> world \<Rightarrow> (go_error + game_config \<times> u32) \<times> world" where
  "GetDailyChallengeConfig totalMarketDays w =
     (let (ok, w1) = db_ok w
      in if \<not> ok then (Inl DbError, w1)
         else (case sort_key c_Id (Configs (db w1)) of
                 [] \<Rightarrow> (Inl RecordNotFound, w1) | c # _ \<Rightarrow> (Inr (c, totalMarketDays), w1)))"

section \<open>The market\<close>

text \<open>
  The channel that stops the recorder of the stock history: \<^verbatim>\<open>nil\<close> until a recorder is started,
  and closed once it is stopped. Closing it again, or closing \<^verbatim>\<open>nil\<close>, panics. The recorder
  makes the channel as soon as its goroutine runs, which is taken as at once.
\<close>

datatype recorder = NoRecorder | Recording | Stopped

definition stopStockHistoryRecorder :: "recorder \<Rightarrow> recorder option" where
  "stopStockHistoryRecorder r = (if r = Recording then Some Stopped else None)"

text \<open>The error of the update of the table is ignored. \<open>ids\<close> is the order in which Go goes through the stocks.\<close>

definition OpenMarket :: "u32 list \<Rightarrow> bool \<Rightarrow> recorder \<Rightarrow> world \<Rightarrow> go_error option \<times> recorder \<times> world" where
  "OpenMarket ids updateDayHighAndLow r w =
     (let (_, w1) = update_configs (\<lambda>c. c\<lparr>c_IsMarketOpen := True\<rparr>) (w\<lparr>isMarketOpen := True\<rparr>)
      in if updateDayHighAndLow then (let (e, w2) = SetDayHighAndLow ids w1 in (e, r, w2))
         else (None, Recording, w1))"

definition CloseMarket :: "u32 list \<Rightarrow> bool \<Rightarrow> recorder \<Rightarrow> world \<Rightarrow> (go_error option \<times> recorder \<times> world) option" where
  "CloseMarket ids updatePreviousDayClose r w =
     (let (_, w1) = update_configs (\<lambda>c. c\<lparr>c_IsMarketOpen := False\<rparr>) (w\<lparr>isMarketOpen := False\<rparr>)
      in if updatePreviousDayClose then (let (e, w2) = SetPreviousDayClose ids w1 in Some (e, r, w2))
         else do { r' \<leftarrow> stopStockHistoryRecorder r; Some (None, r', w1) })"

definition IsMarketOpen :: "world \<Rightarrow> bool" where
  "IsMarketOpen = isMarketOpen"

end
