(* ===== verification/Challenges.thy ===== *)
theory Challenges
  imports Game_Config Leaderboard
begin

text \<open>
  The daily challenges: \<^verbatim>\<open>models/DailyChallenge.go\<close>. When the challenges of a day are opened, the
  value each player starts from is stored; when they are closed, it is compared with the value then;
  a player who reached the target can ask for the reward. The final value is \<^verbatim>\<open>NULL\<close> until a
  challenge is closed, which reads as 0. The streams and push notifications are left out.
\<close>

section \<open>The challenges of a day\<close>

definition GetDailyChallenges :: "u32 \<Rightarrow> world \<Rightarrow> (go_error + challenge list) \<times> world" where
  "GetDailyChallenges marketDay w =
     (let (ok, w1) = db_ok w
      in if ok then (Inr (filter (\<lambda>c. dc_MarketDay c = marketDay) (DailyChallenges (db w1))), w1) else (Inl DbError, w1))"

definition AddDailyChallenge :: "u64 \<Rightarrow> u32 \<Rightarrow> u32 \<Rightarrow> string \<Rightarrow> u32 \<Rightarrow> world \<Rightarrow> go_error option \<times> world" where
  "AddDailyChallenge value marketDay stockId challengeType reward w =
     (let (liveMarketDay, w1) = GetMarketDay w in
      if marketDay \<le> liveMarketDay then (Some InvalidRequestError, w1)
      else if (challengeType = ''SpecificStock'') = (stockId = 0) then (Some InvalidRequestError, w1)
      else let (ok, w2) = db_ok w1 in
        if \<not> ok then (Some InternalServerError, w2)
        else (None, w2\<lparr>nextId := nextId w2 + 1, db := (db w2)\<lparr>DailyChallenges := DailyChallenges (db w2) @
               [\<lparr>dc_Id = nextId w2, dc_MarketDay = marketDay, dc_ChallengeType = challengeType, dc_Value = value,
                 dc_StockId = stockId, dc_Reward = reward\<rparr>]\<rparr>\<rparr>))"

section \<open>Opening\<close>

definition insert_state :: "user_state \<Rightarrow> u32 \<Rightarrow> tables \<Rightarrow> tables" where
  "insert_state s i t = t\<lparr>UserStates := UserStates t @ [s\<lparr>us_Id := i\<rparr>]\<rparr>"

definition new_state :: "u32 \<Rightarrow> u32 \<Rightarrow> i64 \<Rightarrow> user_state" where
  "new_state challengeId userId initial =
     \<lparr>us_Id = 0, us_ChallengeId = challengeId, us_UserId = userId, us_InitialValue = initial, us_FinalValue = 0,
      us_IsCompleted = False, us_IsRewardClaimed = False\<rparr>"

text \<open>The shares of one stock that each user owns, those in open orders included.\<close>

definition getSpecificStocksEntry :: "i64 \<Rightarrow> u32 \<Rightarrow> tables \<Rightarrow> (u32 \<times> i64) list" where
  "getSpecificStocksEntry maxBlockCount stockId t =
     map (\<lambda>u. (u_Id u, sum_tx t_StockQuantity (of_user_stock (u_Id u) stockId) t +
                      sum_tx t_ReservedStockQuantity (of_user_stock (u_Id u) stockId) t))
       (filter (\<lambda>u. s_less (u_BlockCount u) maxBlockCount) (Users t))"

definition initial_states :: "challenge \<Rightarrow> (u32 \<times> i64) list \<Rightarrow> txop" where
  "initial_states c vs = tx_seq (map (\<lambda>(i, v). tx_insert (insert_state (new_state (dc_Id c) i v))) vs)"

text \<open>The rows of one challenge; a type that is not supported rolls the transaction back.\<close>

definition save_challenge :: "i64 \<Rightarrow> leaderboardQueryData list \<Rightarrow> challenge \<Rightarrow> txop" where
  "save_challenge maxBlockCount results c = (\<lambda>(w, t).
     if dc_ChallengeType c = ''Cash'' then initial_states c (map (\<lambda>r. (q_UserId r, q_Cash r)) results) (w, t)
     else if dc_ChallengeType c = ''NetWorth'' then initial_states c (map (\<lambda>r. (q_UserId r, q_Total r)) results) (w, t)
     else if dc_ChallengeType c = ''StockWorth'' then initial_states c (map (\<lambda>r. (q_UserId r, q_StockWorth r)) results) (w, t)
     else if dc_ChallengeType c = ''SpecificStock''
     then (let (ok, w1) = db_ok w
           in if ok then initial_states c (getSpecificStocksEntry maxBlockCount (dc_StockId c) t) (w1, t) else (False, w1, t))
     else (False, w, t))"

definition saveUsersState :: "i64 \<Rightarrow> challenge list \<Rightarrow> world \<Rightarrow> bool \<times> world" where
  "saveUsersState maxBlockCount cs w =
     (let (begun, w1) = db_ok w in
      if \<not> begun then (False, w1)
      else let (ok, w2) = db_ok w1 in
        if \<not> ok then (False, w2)
        else let results = map (query_user (db w2)) (filter (\<lambda>u. s_less (u_BlockCount u) maxBlockCount) (Users (db w2)))
             in tx_run (map (save_challenge maxBlockCount results) cs) w2)"

definition OpenDailyChallenge :: "i64 \<Rightarrow> u32 \<Rightarrow> world \<Rightarrow> go_error option \<times> world" where
  "OpenDailyChallenge maxBlockCount marketDay w =
     (let (challengeStatus, w1) = IsDailyChallengeOpen w in
      if challengeStatus then (Some InvalidRequestError, w1)
      else let (r, w2) = GetDailyChallenges marketDay w1 in
        (case r of
           Inl _ \<Rightarrow> (Some InternalServerError, w2)
         | Inr cs \<Rightarrow>
             (let (saved, w3) = saveUsersState maxBlockCount cs w2 in
              if \<not> saved then (Some InternalServerError, w3)
              else let (e, w4) = SetIsDailyChallengeOpen True w3
                   in (if e = None then None else Some InternalServerError, w4))))"

section \<open>Closing\<close>

text \<open>\<^verbatim>\<open>Select("FinalValue", "IsCompleted").Save\<close>: the two columns of the row with that id.\<close>

definition set_final :: "u32 \<Rightarrow> i64 \<Rightarrow> bool \<Rightarrow> tables \<Rightarrow> tables" where
  "set_final i v done t = t\<lparr>UserStates :=
     map (\<lambda>s. if us_Id s = i then s\<lparr>us_FinalValue := v, us_IsCompleted := done\<rparr> else s) (UserStates t)\<rparr>"

definition states_of_day :: "u32 \<Rightarrow> tables \<Rightarrow> (user_state \<times> challenge) list" where
  "states_of_day marketday t =
     [(s, c). s \<leftarrow> UserStates t, c \<leftarrow> DailyChallenges t, dc_Id c = us_ChallengeId s \<and> dc_MarketDay c = marketday]"

text \<open>
  What a challenge compares, \<open>Inl False\<close> when it cannot be read. The code panics when the user of a
  \<^verbatim>\<open>StockWorth\<close> challenge cannot be loaded. For a \<^verbatim>\<open>SpecificStock\<close> challenge a user whose shares
  cannot be counted stays locked.
\<close>

definition final_value :: "user_state \<Rightarrow> challenge \<Rightarrow> world \<Rightarrow> (i64 option \<times> world) option" where
  "final_value s c w =
     (let i = us_UserId s in
      if dc_ChallengeType c = ''StockWorth''
      then do { (v, w1) \<leftarrow> GetUserStockWorth i w; Some (Some v, w1) }
      else if dc_ChallengeType c \<in> {''Cash'', ''NetWorth'', ''SpecificStock''}
      then let (e, w1) = getUserExclusively i w; u = usr w1 i in
        if e \<noteq> None then Some (None, w1)
        else if dc_ChallengeType c = ''Cash'' then Some (Some (u_Cash u + u_ReservedCash u), w1)
        else if dc_ChallengeType c = ''NetWorth'' then Some (Some (u_Total u), w1)
        else (case getTotalSingleStockCount u (dc_StockId c) w1 of
                (Inl _, w2) \<Rightarrow> Some (None, w2) | (Inr v, w2) \<Rightarrow> Some (Some v, w2))
      else Some (None, w))"

definition reached :: "user_state \<Rightarrow> challenge \<Rightarrow> i64 \<Rightarrow> bool" where
  "reached s c v \<longleftrightarrow> s_le (us_InitialValue s + dc_Value c) v"

fun close_states :: "(user_state \<times> challenge) list \<Rightarrow> world \<times> tables \<Rightarrow> (bool \<times> world \<times> tables) option" where
  "close_states [] (w, t) = Some (True, w, t)"
| "close_states ((s, c) # qs) (w, t) =
     do { (v, w1) \<leftarrow> final_value s c w;
          (case v of
             None \<Rightarrow> Some (False, w1, t)
           | Some x \<Rightarrow>
               (let (ok, w2, t2) = tx_save (set_final (us_Id s) x (reached s c x)) (w1, t)
                in if ok then close_states qs (w2, t2) else Some (False, w2, t2))) }"

definition updateUserState :: "u32 \<Rightarrow> world \<Rightarrow> (bool \<times> world) option" where
  "updateUserState marketday w =
     (let (begun, w1) = db_ok w in
      if \<not> begun then Some (False, w1)
      else let (ok, w2) = db_ok w1 in
        if \<not> ok then Some (False, w2)
        else do { (saved, w3, t3) \<leftarrow> close_states (states_of_day marketday (db w2)) (w2, db w2);
                  Some (if \<not> saved then (False, w3)
                        else let (committed, w4) = db_ok w3 in (committed, if committed then w4\<lparr>db := t3\<rparr> else w4)) })"

definition CloseDailyChallenge :: "world \<Rightarrow> (go_error option \<times> world) option" where
  "CloseDailyChallenge w =
     (let (marketDay, w1) = GetMarketDay w; (challengeStatus, w2) = IsDailyChallengeOpen w1 in
      if \<not> challengeStatus then Some (Some InvalidRequestError, w2)
      else do { (saved, w3) \<leftarrow> updateUserState marketDay w2;
                Some (if \<not> saved then (Some InternalServerError, w3)
                      else let (e, w4) = SetIsDailyChallengeOpen False w3
                           in (if e = None then None else Some InternalServerError, w4)) })"

section \<open>Rewards\<close>

definition GetUserState :: "u32 \<Rightarrow> u32 \<Rightarrow> world \<Rightarrow> (go_error + user_state) \<times> world" where
  "GetUserState userId challengeId w =
     (let (ok, w1) = db_ok w
      in if \<not> ok then (Inl DbError, w1)
         else (case sort_key us_Id (filter (\<lambda>s. us_UserId s = userId \<and> us_ChallengeId s = challengeId) (UserStates (db w1))) of
                 [] \<Rightarrow> (Inl RecordNotFound, w1) | s # _ \<Rightarrow> (Inr s, w1)))"

definition set_claimed :: "u32 \<Rightarrow> tables \<Rightarrow> tables" where
  "set_claimed i t = t\<lparr>UserStates := map (\<lambda>s. if us_Id s = i then s\<lparr>us_IsRewardClaimed := True\<rparr> else s) (UserStates t)\<rparr>"

definition reward_of :: "user_state \<Rightarrow> tables \<Rightarrow> u64" where
  "reward_of s t = (case row dc_Id (us_ChallengeId s) (DailyChallenges t) of None \<Rightarrow> 0 | Some c \<Rightarrow> ucast (dc_Reward c))"

text \<open>
  The query names the market day \<^verbatim>\<open>market_day\<close>, but the field it is read into, \<^verbatim>\<open>Marketday\<close>, has the
  column \<^verbatim>\<open>marketday\<close>, so the field is always 0. The cash of the user is raised in memory before
  the transaction, and is not lowered again when the transaction fails.
\<close>

definition GetMyReward :: "u32 \<Rightarrow> u32 \<Rightarrow> world \<Rightarrow> ((go_error + u64) \<times> world) option" where
  "GetMyReward userStateId userId w =
     (let (begun, w1) = db_ok w in
      if \<not> begun then Some (Inl InternalServerError, w1)
      else let (ok, w2) = db_ok w1 in
        (case if ok then row us_Id userStateId (UserStates (db w2)) else None of
           None \<Rightarrow> Some (Inl InternalServerError, w2)
         | Some s \<Rightarrow>
             if us_UserId s \<noteq> userId then Some (Inl InvalidUserError, w2)
             else let (day, w3) = GetMarketDay w2;
                      (isOpen, w4) = (if day = 0 then IsDailyChallengeOpen w3 else (False, w3)) in
               if isOpen then Some (Inl InvalidRequestError, w4)
               else if \<not> us_IsCompleted s then Some (Inl InvalidCredentialError, w4)
               else if us_IsRewardClaimed s then Some (Inl InvalidRequestError, w4)
               else let (e, w5) = getUserExclusively userId w4; reward = reward_of s (db w2) in
                 if e \<noteq> None then None
                 else let u = (usr w5 userId)\<lparr>u_Cash := u_Cash (usr w5 userId) + reward\<rparr>;
                          (saved, w6) = tx_run [tx_save (save_user u), tx_save (set_claimed userStateId)] (set_user userId u w5)
                      in Some (if saved then Inr reward else Inl InternalServerError, w6)))"

section \<open>Players who register later\<close>

text \<open>The challenges of the days 1 up to the current one.\<close>

fun challenges_upto :: "nat \<Rightarrow> world \<Rightarrow> (go_error + challenge list) \<times> world" where
  "challenges_upto 0 w = (Inr [], w)"
| "challenges_upto (Suc n) w =
     (let (r, w1) = challenges_upto n w in
      (case r of
         Inl e \<Rightarrow> (Inl e, w1)
       | Inr cs \<Rightarrow> (let (r2, w2) = GetDailyChallenges (of_nat (Suc n)) w1
                     in (case r2 of Inl e \<Rightarrow> (Inl e, w2) | Inr ds \<Rightarrow> (Inr (cs @ ds), w2)))))"

definition late_state :: "u32 \<Rightarrow> u32 \<Rightarrow> challenge \<Rightarrow> user_state" where
  "late_state userId marketDay c =
     (let start = (if dc_ChallengeType c \<in> {''Cash'', ''NetWorth''} then STARTING_CASH else 0)
      in (new_state (dc_Id c) userId start)\<lparr>us_FinalValue := (if dc_MarketDay c < marketDay then start else 0)\<rparr>)"

definition saveNewUserState :: "u32 \<Rightarrow> world \<Rightarrow> go_error option \<times> world" where
  "saveNewUserState userId w =
     (let (marketDay, w1) = GetMarketDay w; (r, w2) = challenges_upto (unat marketDay) w1 in
      (case r of
         Inl e \<Rightarrow> (Some e, w2)
       | Inr cs \<Rightarrow>
           (let (begun, w3) = db_ok w2 in
            if \<not> begun then (Some DbError, w3)
            else let known = takeWhile (\<lambda>c. dc_ChallengeType c \<in> {''Cash'', ''NetWorth'', ''StockWorth'', ''SpecificStock''}) cs;
                     ops = map (\<lambda>c. tx_insert (insert_state (late_state userId marketDay c))) known in
              if length known = length cs then (let (ok, w4) = tx_run ops w3 in (if ok then None else Some DbError, w4))
              else let (ok, w4, t4) = tx_seq ops (w3, db w3) in (Some (if ok then InvalidChallengeTypeError else DbError), w4))))"

end
