(* ===== verification/Challenge_Proofs.thy ===== *)
theory Challenge_Proofs
  imports Challenges Accounting Demo
begin

text \<open>
  The properties of the daily challenges: what closing them stores, and that a reward is paid once.
\<close>

section \<open>Reading the configuration\<close>


section \<open>The values that are compared\<close>

definition value_of :: "challenge \<Rightarrow> user \<Rightarrow> tables \<Rightarrow> i64" where
  "value_of c u t =
     (if dc_ChallengeType c = ''Cash'' then u_Cash u + u_ReservedCash u
      else if dc_ChallengeType c = ''NetWorth'' then u_Total u
      else if dc_ChallengeType c = ''StockWorth'' then u_Total u - (u_Cash u + u_ReservedCash u)
      else sum_tx t_StockQuantity (of_user_stock (u_Id u) (dc_StockId c)) t +
        sum_tx t_ReservedStockQuantity (of_user_stock (u_Id u) (dc_StockId c)) t)"

lemma final_value_ok:
  assumes "final_value s c w = Some (Some v, w')"
  obtains u where "loaded w (us_UserId s) = Some u" "v = value_of c u (db w)" "same_but_users w w'" "\<And>j. loaded w' j = loaded w j"
proof -
  let ?i = "us_UserId s"
  obtain w1 where g: "getUserExclusively ?i w = (None, w1)"
    using assms by (cases "getUserExclusively ?i w") (auto simp: final_value_def GetUserStockWorth_def Let_def split: if_splits)
  note l = loaded_get [OF g] and f = getUserExclusively_frame(1) [OF g]
  obtain u where u: "loaded w ?i = Some u" "users w1 ?i = Some u" using l(1,3) by auto
  have uw: "usr w1 ?i = u" using u(2) by simp
  have "v = value_of c u (db w) \<and> same_mem w1 w' \<and> db w' = db w1 \<and> nextId w' = nextId w1"
    using assms g uw f
    by (auto simp: final_value_def GetUserStockWorth_def value_of_def getTotalSingleStockCount_def Let_def same_but_users_def
        dest: db_ok_same split: if_splits prod.splits)
  then show ?thesis using that u(1) f l(2)
    by (auto simp: same_but_users_def same_mem_def loaded_def cong: option.case_cong)
qed

text \<open>A challenge of a type the code knows, of a player who can be loaded, can be closed.\<close>

definition closable :: "world \<Rightarrow> user_state \<times> challenge \<Rightarrow> bool" where
  "closable w = (\<lambda>(s, c). loaded w (us_UserId s) \<noteq> None \<and>
     dc_ChallengeType c \<in> {''Cash'', ''NetWorth'', ''StockWorth'', ''SpecificStock''})"

lemma final_value_total:
  assumes "outcomes w = []" "closable w (s, c)"
  shows "\<exists>v w'. final_value s c w = Some (Some v, w') \<and> outcomes w' = []"
proof -
  obtain w1 where g: "getUserExclusively (us_UserId s) w = (None, w1)" "outcomes w1 = []"
    using assms by (auto simp: closable_def loaded_def getUserExclusively_def set_user_def split: option.splits)
  then show ?thesis using assms(2)
    by (auto simp: closable_def final_value_def GetUserStockWorth_def getTotalSingleStockCount_def Let_def)
qed

section \<open>Closing the challenges\<close>

definition closed_state :: "world \<Rightarrow> user_state \<times> challenge \<Rightarrow> user_state \<Rightarrow> user_state" where
  "closed_state w = (\<lambda>(s, c) x.
     let v = value_of c (the (loaded w (us_UserId s))) (db w)
     in if us_Id x = us_Id s then x\<lparr>us_FinalValue := v, us_IsCompleted := reached s c v\<rparr> else x)"

lemma closed_state_id [simp]: "us_Id (closed_state w q x) = us_Id x"
  by (cases q) (simp add: closed_state_def Let_def)

lemma close_states_ok:
  "close_states qs (w, t) = Some (True, w', t') \<Longrightarrow> same_but_users w w' \<and>
     (\<forall>q \<in> set qs. loaded w (us_UserId (fst q)) \<noteq> None) \<and>
     t' = t\<lparr>UserStates := map (\<lambda>x. foldl (\<lambda>x q. closed_state w q x) x qs) (UserStates t)\<rparr>"
proof (induction qs arbitrary: w t)
  case (Cons q qs)
  obtain s c where q: "q = (s, c)" by fastforce
  obtain v w1 where v: "final_value s c w = Some (Some v, w1)"
    using Cons.prems q by (auto simp: bind_eq_Some_conv split: option.splits)
  obtain u where u: "loaded w (us_UserId s) = Some u" "v = value_of c u (db w)" "same_but_users w w1" "\<And>j. loaded w1 j = loaded w j"
    using final_value_ok [OF v] by blast
  obtain ok w2 where 2: "db_ok w1 = (ok, w2)" by fastforce
  note m = db_ok_same [OF 2]
  have ok: ok using Cons.prems q v 2 by (auto simp: tx_save_def split: if_splits)
  let ?t = "set_final (us_Id s) v (reached s c v) t"
  have w2: "same_but_users w w2" "\<And>j. loaded w2 j = loaded w j" "db w2 = db w"
    using u(3,4) m by (auto simp: same_but_users_def same_mem_def loaded_def cong: option.case_cong)
  have "close_states qs (w2, ?t) = Some (True, w', t')" using Cons.prems q v 2 ok by (simp add: tx_save_def)
  note ih = Cons.IH [OF this]
  have cs: "closed_state w2 = closed_state w" using w2 by (simp add: closed_state_def fun_eq_iff)
  have "t' = t\<lparr>UserStates := map (\<lambda>x. foldl (\<lambda>x q. closed_state w q x) x (q # qs)) (UserStates t)\<rparr>"
    using ih u(1,2) by (simp add: q cs set_final_def closed_state_def [of w] Let_def o_def)
  then show ?case using ih w2 u(1) q same_but_users_trans by auto
qed (simp add: tables.equality)

lemma close_states_total:
  "outcomes w = [] \<Longrightarrow> list_all (closable w) qs \<Longrightarrow> \<exists>w' t'. close_states qs (w, t) = Some (True, w', t') \<and> outcomes w' = []"
proof (induction qs arbitrary: w t)
  case (Cons q qs)
  obtain s c where q: "q = (s, c)" by fastforce
  obtain v w1 where v: "final_value s c w = Some (Some v, w1)" "outcomes w1 = []"
    using final_value_total Cons.prems q by fastforce
  obtain "\<And>j. loaded w1 j = loaded w j" using final_value_ok [OF v(1)] by blast
  then have "closable w1 = closable w" by (simp add: closable_def fun_eq_iff)
  then show ?case using Cons.IH [OF v(2)] Cons.prems v q by simp
qed simp

lemma fold_closed_other: "us_Id x \<notin> (us_Id \<circ> fst) ` set qs \<Longrightarrow> foldl (\<lambda>x q. closed_state w q x) x qs = x"
  by (induction qs) (auto simp: closed_state_def Let_def)

lemma fold_closed_id [simp]: "us_Id (foldl (\<lambda>x q. closed_state w q x) x qs) = us_Id x"
  by (induction qs arbitrary: x) simp_all

lemma fold_closed_one:
  "distinct (map (us_Id \<circ> fst) qs) \<Longrightarrow> (s, c) \<in> set qs \<Longrightarrow> us_Id x = us_Id s \<Longrightarrow>
   foldl (\<lambda>x q. closed_state w q x) x qs = closed_state w (s, c) x"
proof (induction qs arbitrary: x)
  case (Cons q qs)
  show ?case
  proof (cases "q = (s, c)")
    case True
    then have "us_Id (closed_state w q x) \<notin> (us_Id \<circ> fst) ` set qs" using Cons.prems(1,3) by (auto simp: image_iff)
    then show ?thesis using fold_closed_other True by simp
  next
    case False
    then have "us_Id (fst q) \<noteq> us_Id s" using Cons.prems by (force simp: image_iff)
    then have "closed_state w q x = x" using Cons.prems(3) by (cases q) (simp add: closed_state_def Let_def)
    then show ?thesis using Cons False by simp
  qed
qed simp

lemma comprehension: "concat (map (\<lambda>c. if P c then [f c] else []) cs) = map f (filter P cs)"
  by (induction cs) auto

lemma one_challenge:
  assumes "distinct (map dc_Id cs)"
  shows "length (filter (\<lambda>c. dc_Id c = k \<and> P c) cs) \<le> 1"
  using assms by (induction cs) (auto simp: filter_empty_conv image_iff)

lemma states_of_day_distinct:
  assumes "distinct (map us_Id (UserStates t))" "distinct (map dc_Id (DailyChallenges t))"
  shows "distinct (map (us_Id \<circ> fst) (states_of_day d t))"
proof -
  let ?m = "\<lambda>s. filter (\<lambda>c. dc_Id c = us_ChallengeId s \<and> dc_MarketDay c = d) (DailyChallenges t)"
  have eq: "states_of_day d t = concat (map (\<lambda>s. map (\<lambda>c. (s, c)) (?m s)) (UserStates t))"
    by (simp add: states_of_day_def comprehension)
  have "distinct (map (us_Id \<circ> fst) (concat (map (\<lambda>s. map (\<lambda>c. (s, c)) (?m s)) ss)))" if "distinct (map us_Id ss)" for ss
    using that
  proof (induction ss)
    case (Cons s ss)
    have "distinct (map (us_Id \<circ> fst) (map (\<lambda>c. (s, c)) (?m s)))"
      using one_challenge [OF assms(2), of "us_ChallengeId s" "\<lambda>c. dc_MarketDay c = d"] by (cases "?m s") (auto simp: Suc_le_eq)
    then show ?case using Cons by (auto simp: image_iff o_def)
  qed simp
  then show ?thesis using assms(1) unfolding eq by blast
qed

lemma challenges_closed_if:
  assumes run: "updateUserState d w = Some (True, w')"
    and ids: "distinct (map us_Id (UserStates (db w)))" "distinct (map dc_Id (DailyChallenges (db w)))"
    and s: "s \<in> set (UserStates (db w))"
  shows "row us_Id (us_Id s) (UserStates (db w')) =
      Some (case row dc_Id (us_ChallengeId s) (filter (\<lambda>c. dc_MarketDay c = d) (DailyChallenges (db w))) of
              None \<Rightarrow> s
            | Some c \<Rightarrow> (let v = value_of c (the (loaded w (us_UserId s))) (db w)
                         in s\<lparr>us_FinalValue := v, us_IsCompleted := (sint (us_InitialValue s + dc_Value c) \<le> sint v)\<rparr>)) \<and>
    Users (db w') = Users (db w) \<and> (\<forall>j u. users w j = Some u \<longrightarrow> users w' j = Some u)"
proof -
  obtain b w1 where 1: "db_ok w = (b, w1)" by fastforce
  obtain b2 w2 where 12: "db_ok w1 = (b2, w2)" by fastforce
  have 2: "same_mem w w2" "db w2 = db w"
    using db_ok_same [OF 1] db_ok_same [OF 12] same_mem_trans by auto
  have run2: "do { (saved, w3, t3) \<leftarrow> close_states (states_of_day d (db w2)) (w2, db w2);
      Some (if \<not> saved then (False, w3)
            else let (committed, w4) = db_ok w3 in (committed, if committed then w4\<lparr>db := t3\<rparr> else w4)) } = Some (True, w')"
    using run 1 12 by (simp add: updateUserState_def split: if_splits)
  let ?qs = "states_of_day d (db w)"
  obtain w3 t3 where c: "close_states ?qs (w2, db w2) = Some (True, w3, t3)" "db w' = t3" "users w' = users w3"
    using run2 2(2) by (auto simp: bind_eq_Some_conv Let_def same_mem_def dest!: db_ok_same split: if_splits prod.splits)
  note o = close_states_ok [OF c(1)]
  have l: "closed_state w2 = closed_state w" using 2 by (simp add: closed_state_def loaded_def same_mem_def fun_eq_iff cong: option.case_cong)
  let ?g = "\<lambda>x. foldl (\<lambda>x q. closed_state w q x) x ?qs"
  have t3: "UserStates t3 = map ?g (UserStates (db w))" "Users t3 = Users (db w)" using o 2 l by simp_all
  have "row us_Id (us_Id s) (map ?g xs) = map_option ?g (row us_Id (us_Id s) xs)" for xs by (induction xs) auto
  moreover have "row us_Id (us_Id s) (UserStates (db w)) = Some s" using s ids(1) by (rule row_distinct)
  ultimately have r: "row us_Id (us_Id s) (UserStates (db w')) = Some (?g s)" using c(2) t3 by simp
  note dq = states_of_day_distinct [OF ids, of d]
  let ?cs = "filter (\<lambda>c. dc_MarketDay c = d) (DailyChallenges (db w))"
  have "?g s = (case row dc_Id (us_ChallengeId s) ?cs of None \<Rightarrow> s | Some c \<Rightarrow> closed_state w (s, c) s)"
  proof (cases "row dc_Id (us_ChallengeId s) ?cs")
    case (Some c)
    then have "(s, c) \<in> set ?qs" using s row_key [OF Some] by (auto simp: states_of_day_def)
    then show ?thesis using fold_closed_one [OF dq, of s c s w] Some by simp
  next
    case None
    have "us_Id s \<notin> (us_Id \<circ> fst) ` set ?qs"
    proof
      assume "us_Id s \<in> (us_Id \<circ> fst) ` set ?qs"
      then obtain x c where x: "(x, c) \<in> set ?qs" "us_Id x = us_Id s" by force
      then have "x = s" using s ids(1) by (auto simp: states_of_day_def distinct_map inj_on_def)
      then show False using x(1) None by (auto simp: states_of_day_def row_None_iff)
    qed
    then show ?thesis using fold_closed_other None by simp
  qed
  moreover have "\<forall>j u. users w j = Some u \<longrightarrow> users w' j = Some u"
    using o 2(1) c(3) by (simp add: same_but_users_def same_mem_def)
  ultimately show ?thesis using r c(2) t3(2)
    by (simp add: closed_state_def reached_def s_le_def Let_def cong: option.case_cong)
qed

text \<open>
  C34. When the challenges of a day are closed, every player's state for one of them gets the value
  the player has then, and is completed exactly when that value is at least the initial value
  plus the target; the states of other days stay, and no user is changed. Closing succeeds when the
  database answers, every player can be loaded and every challenge has a type the code knows.
\<close>

theorem challenges_closed:
  assumes ids: "distinct (map us_Id (UserStates (db w)))" "distinct (map dc_Id (DailyChallenges (db w)))"
    and s: "s \<in> set (UserStates (db w))"
  shows "(outcomes w = [] \<and> list_all (closable w) (states_of_day d (db w)) \<longrightarrow> (\<exists>w'. updateUserState d w = Some (True, w'))) \<and>
    (\<forall>w'. updateUserState d w = Some (True, w') \<longrightarrow> row us_Id (us_Id s) (UserStates (db w')) =
      Some (case row dc_Id (us_ChallengeId s) (filter (\<lambda>c. dc_MarketDay c = d) (DailyChallenges (db w))) of
              None \<Rightarrow> s
            | Some c \<Rightarrow> (let v = value_of c (the (loaded w (us_UserId s))) (db w)
                         in s\<lparr>us_FinalValue := v, us_IsCompleted := (sint (us_InitialValue s + dc_Value c) \<le> sint v)\<rparr>)) \<and>
    Users (db w') = Users (db w) \<and> (\<forall>j u. users w j = Some u \<longrightarrow> users w' j = Some u))"
proof (intro conjI impI allI)
  assume a: "outcomes w = [] \<and> list_all (closable w) (states_of_day d (db w))"
  then obtain w1 t1 where "close_states (states_of_day d (db w)) (w, db w) = Some (True, w1, t1)" "outcomes w1 = []"
    using close_states_total by blast
  then show "\<exists>w'. updateUserState d w = Some (True, w')" using a by (simp add: updateUserState_def)
next
  fix w' assume run: "updateUserState d w = Some (True, w')"
  note c = challenges_closed_if [OF run ids s]
  then show "Users (db w') = Users (db w)" and "\<And>j u. users w j = Some u \<Longrightarrow> users w' j = Some u" by blast+
  from c show "row us_Id (us_Id s) (UserStates (db w')) =
      Some (case row dc_Id (us_ChallengeId s) (filter (\<lambda>c. dc_MarketDay c = d) (DailyChallenges (db w))) of
              None \<Rightarrow> s
            | Some c \<Rightarrow> (let v = value_of c (the (loaded w (us_UserId s))) (db w)
                         in s\<lparr>us_FinalValue := v, us_IsCompleted := (sint (us_InitialValue s + dc_Value c) \<le> sint v)\<rparr>))"
    by blast
qed

definition challenge_demo :: world where
  "challenge_demo = demo\<lparr>db := (db demo)\<lparr>
     Configs := [\<lparr>c_Id = 1, c_IsDailyChallengeOpen = False, c_MarketDay = 3, c_IsMarketOpen = True\<rparr>],
     DailyChallenges := [\<lparr>dc_Id = 4, dc_MarketDay = 3, dc_ChallengeType = ''Cash'', dc_Value = 500, dc_StockId = 0, dc_Reward = 70\<rparr>],
     UserStates := [\<lparr>us_Id = 5, us_ChallengeId = 4, us_UserId = 1, us_InitialValue = 9000, us_FinalValue = 10000,
       us_IsCompleted = True, us_IsRewardClaimed = False\<rparr>]\<rparr>\<rparr>"

lemmas challenge_demo_defs = challenge_demo_def demo_defs

theorem challenges_closed_witness:
  "\<exists>w' v. updateUserState 3 challenge_demo = Some (True, w') \<and>
     map us_IsCompleted (UserStates (db w')) = [True] \<and> row us_Id 5 (UserStates (db w')) = Some v \<and> us_FinalValue v = 10000"
proof -
  obtain w' where w': "updateUserState 3 challenge_demo = Some (True, w')" "UserStates (db w') \<noteq> []" "tl (UserStates (db w')) = []"
    by (simp add: updateUserState_def states_of_day_def final_value_def challenge_demo_defs getUserExclusively_def usr_def
        set_final_def Let_def)
  obtain s where s: "UserStates (db challenge_demo) = [s]" "s \<in> set (UserStates (db challenge_demo))" "us_Id s = 5"
    by (simp add: challenge_demo_def)
  have "distinct (map us_Id (UserStates (db challenge_demo)))" "distinct (map dc_Id (DailyChallenges (db challenge_demo)))"
    by (simp_all add: challenge_demo_def)
  from challenges_closed [OF this s(2), of 3] w'(1) obtain x where x: "row us_Id 5 (UserStates (db w')) = Some x" "us_IsCompleted x" "us_FinalValue x = 10000"
    using s by (auto simp: challenge_demo_defs value_of_def loaded_def Let_def)
  moreover have "UserStates (db w') = [x]" using w'(2,3) x(1) by (cases "UserStates (db w')") (auto split: if_splits)
  ultimately show ?thesis using w'(1) by auto
qed

section \<open>Rewards\<close>


text \<open>
  When the transaction of a reward fails, the request is answered with an error but the cash in
  memory stays raised, and the reward can be asked for again.
\<close>

lemma failed_reward_paid:
  "\<exists>w'. GetMyReward 5 1 (challenge_demo\<lparr>outcomes := [True, True, True, True, True, False]\<rparr>) = Some (Inl InternalServerError, w') \<and>
     u_Cash (usr w' 1) = u_Cash (usr challenge_demo 1) + 70 \<and> db w' = db challenge_demo"
  by (simp add: GetMyReward_def challenge_demo_defs db_ok_def GetMarketDay_def read_config_def getUserExclusively_def usr_def
      reward_of_def tx_run_def tx_save_def set_user_def Let_def)


end
