(* ===== verification/Market_Day.thy ===== *)
theory Market_Day
  imports Game_Config Demo
begin

text \<open>
  What closing and opening the market does to the stocks, and to the recorder of their history.
\<close>

section \<open>Saving and loading all stocks\<close>








section \<open>A night\<close>



text \<open>
  Opening the market for a new day starts no recorder; closing it without the end of a day then
  panics when it stops the recorder.
\<close>

lemma open_day_close_panics:
  "OpenMarket ids True NoRecorder w = (e, r, w1) \<Longrightarrow> CloseMarket ids False r w1 = None"
  by (auto simp: OpenMarket_def CloseMarket_def stopStockHistoryRecorder_def Let_def split: prod.splits)

end
