(* ===== verification/Spec2Isabelle.thy ===== *)
theory Spec2Isabelle
  imports Server_Properties Request_Properties Ipo_Properties Leaderboard_Proofs Challenge_Proofs Market_Day
begin

text \<open>
  Dalal Street is the server of a stock market game. Players place orders to buy and sell
  stocks, the matching engine trades them against each other, and every movement of cash and
  stocks is written to a ledger of transactions in a database. This development models the
  core of the server as it is written in Go and proves what makes it correct.

  The parts of the program and the theories that model them:

  \<^item> \<^verbatim>\<open>utils/utils.go\<close> (minimum and absolute value) and the machine integers: \<open>Prelude\<close>. A Go
    \<^verbatim>\<open>uint64\<close> or \<^verbatim>\<open>int64\<close> is a 64 bit word, so arithmetic wraps as it does in Go; signed
    comparisons read the word through \<^term>\<open>sint\<close>. The prelude also has the rows of a table, and
    the pages of a listing.
  \<^item> Go's \<^verbatim>\<open>float64\<close>: \<open>Go_Float\<close>, as rational numbers rounded to 53 bits after every operation.
  \<^item> \<^verbatim>\<open>matchingengine/pqueue.go\<close>: \<open>Orders\<close> (order types, comparators), \<open>Array_Heap\<close> (heaps in an
    array, free of any program), \<open>Pqueue\<close> (the queues as the code has them, refined to the
    heaps, and the locale \<open>priority_queue\<close> of what the order book relies on).
  \<^item> \<^verbatim>\<open>datastreams/MarketDepth.go\<close>: \<open>Market_Depth\<close>, with the locale \<open>depth_stream\<close>.
  \<^item> The state of the \<^verbatim>\<open>models\<close> package and its calls to the database: \<open>World\<close>.
  \<^item> \<^verbatim>\<open>models/Ask.go\<close>, \<^verbatim>\<open>models/Bid.go\<close>: \<open>Order_Objects\<close>.
  \<^item> \<^verbatim>\<open>matchingengine/OrderBook.go\<close>, \<^verbatim>\<open>matchingengine/helpers.go\<close>: \<open>Order_Book\<close> (the operations),
    \<open>Book_Queues\<close> (the invariant of a book, the search for a match), \<open>Book_Proofs\<close> (stop-losses),
    \<open>Matching\<close> and \<open>Process_Orders\<close> (trades and the matching loops, over the locale
    \<open>fill_order\<close> of what the book relies on from the function that fills orders).
  \<^item> \<^verbatim>\<open>models/Stock.go\<close>: \<open>Stocks\<close>. \<^verbatim>\<open>models/Transaction.go\<close> and
    \<^verbatim>\<open>models/OrderDepositTransaction.go\<close>: \<open>Ledger\<close>. \<^verbatim>\<open>models/ShortSell.go\<close>: \<open>Short_Sell\<close>.
  \<^item> \<^verbatim>\<open>models/User.go\<close>: \<open>Accounts\<close> (locking and loading users, fees, queries), \<open>Tax\<close>,
    \<open>Placing\<close> (placing and cancelling orders), \<open>Exchange\<close> (buying from the exchange and, with
    \<^verbatim>\<open>models/MortgageDetail.go\<close>, mortgages), \<open>Order_Fill\<close> (\<^verbatim>\<open>PerformOrderFillTransaction\<close>).
  \<^item> Proofs that span components: \<open>Accounting\<close> (the accounts of users), \<open>Cancel_Proofs\<close>,
    \<open>Fill_Proofs\<close>, \<open>Fill_Correct\<close> and \<open>Trading\<close> (the outcomes of a fill, its contracts and their
    interpretations), \<open>Matching_Accounts\<close> (the locale \<open>accounting_fill\<close>, which extends
    \<open>fill_order\<close>: matching keeps the accounts).
  \<^item> \<^verbatim>\<open>matchingengine/MatchingEngine.go\<close>: \<open>Engine\<close>; \<open>Startup\<close> and \<open>Engine_Start\<close> prove that the engine
    starts (the matching of old orders ends) and that its books are then well formed.
  \<^item> \<^verbatim>\<open>grpcapi/actionservice\<close> (placing and cancelling orders, buying, mortgages): \<open>Services\<close>.
  \<^item> \<^verbatim>\<open>models/Ipo.go\<close>, \<^verbatim>\<open>models/IpoBid.go\<close>: \<open>Ipo\<close> (the operations), \<open>Ipo_Proofs\<close> (their outcomes),
    \<open>Ipo_Allotment\<close> (the loops over the bids), \<open>Ipo_Properties\<close>.
  \<^item> \<^verbatim>\<open>models/LeaderboardRow.go\<close>, \<^verbatim>\<open>models/DailyLeaderboard.go\<close>, \<^verbatim>\<open>models/EndOfDayValues.go\<close>:
    \<open>Leaderboard\<close> and \<open>Leaderboard_Proofs\<close>. \<^verbatim>\<open>models/Config.go\<close>, \<^verbatim>\<open>models/MarketClose.go\<close>: \<open>Game_Config\<close>,
    and \<open>Market_Day\<close> for what a night does to the stocks. \<^verbatim>\<open>models/DailyChallenge.go\<close>:
    \<open>Challenges\<close> and \<open>Challenge_Proofs\<close>.
  \<^item> The server as a state machine: \<open>Order_Frames\<close> (what an operation leaves of the order objects),
    \<open>Server\<close> (books of a running engine), \<open>Server_Machine\<close> (the steps \<open>server_step\<close>, the invariant
    \<open>server_ok\<close>, its preservation), \<open>Server_Properties\<close>. \<open>Steps\<close>, \<open>Placing_Proofs\<close>, \<open>Cancelling\<close> and
    \<open>Exchange_Proofs\<close> have the outcomes of the requests of players, \<open>Request_Properties\<close> their properties.
  \<^item> \<open>Demo\<close> has the concrete state at which the properties are instantiated.

  How the state corresponds to the code: the record \<open>world\<close> has the global variables of the
  \<^verbatim>\<open>models\<close> package (\<^verbatim>\<open>userLocks.m\<close>, \<^verbatim>\<open>asksMap\<close>, \<^verbatim>\<open>bidsMap\<close>, \<^verbatim>\<open>allStocks\<close>, \<^verbatim>\<open>avgLastPrice\<close>), the order
  objects, which the engine and the maps share by reference, and the tables of the database.
  The database is not part of the repository. Which of its calls fail is the list
  \<open>outcomes\<close>, and theorems about all worlds hold for every choice of failures. A database
  transaction works on a copy of the tables that \<^verbatim>\<open>Commit\<close> makes the committed ones.
  A value of an operation is \<^term>\<open>None\<close> where the Go code panics or blocks for ever. The loops of
  the engine are \<^theory_text>\<open>partial_function (option)\<close>, so that running for ever is \<^term>\<open>None\<close> as well, and
  the theorems about them say that the result is not \<^term>\<open>None\<close>.

  What the lemmas show: the queues give back what was pushed, in the order of their
  comparators; an incoming order is matched against the best order of another user or rests in
  the book without crossing it; stop-losses are triggered exactly when the price reaches them;
  a trade is made completely or not at all, moves cash and shares exactly as the ledger says, and
  keeps the sum of every user's account; the depth shown to clients is exact; taxes stay within
  their brackets; prices stay within their marks; stocks lent for short sells are not lost; the
  leaderboard ranks every player by worth; and a challenge is completed exactly by those who reach
  its target, and rewarded once.

  Not modelled: concurrency below the level of an operation (the program serialises the
  operations on a user by the user's lock, and those on a book by its goroutine; each is one step
  here), the streams, notifications, mail and messages an operation sends after it is done,
  logging, the conversion to protobuf messages, sessions, login and the network services.
\<close>

section \<open>Matching\<close>

text \<open>
  C2. Matching an incoming ask with the program's own fill function terminates without a
  panic whatever calls to the database fail, keeps the book well formed, and removes bids
  only; the ask either does not enter the book or rests there, and then no bid of another
  user in the book matches it. While no bid stop-loss waits, only closed bids leave the book.
\<close>

theorem processAsk_correct:
  assumes "book_ok w ob" "ar \<notin># ask_refs ob" "o_StockId (askObj w ar) = ob_stockId ob"
  shows "\<exists>ob' w'. processAsk PerformOrderFillTransaction ar ob w = Some (ob', w') \<and> book_ok w' ob' \<and>
    bid_refs ob' \<subseteq># bid_refs ob \<and>
    (ask_refs ob' = ask_refs ob \<or>
     ask_refs ob' = add_mset ar (ask_refs ob) \<and>
     (\<forall>b \<in># pq_refs (bids ob'). o_UserId (bidObj w' b) \<noteq> o_UserId (askObj w' ar) \<longrightarrow>
        \<not> isOrderMatching (askObj w' ar) (bidObj w' b))) \<and>
    (pq_refs (bidStoploss ob) = {#} \<longrightarrow> all_closed (bidObj w') (bid_refs ob - bid_refs ob'))"
proof -
  obtain ob' w' D where "processAsk PerformOrderFillTransaction ar ob w = Some (ob', w')"
    "ask_processed ar w ob w' ob' D" using fills.processAsk_ok [OF assms] by blast
  then show ?thesis by (auto simp: ask_processed_def ask_crosses_def)
qed

theorem processAsk_correct_witness:
  "\<exists>ob' w'. processAsk PerformOrderFillTransaction 0 demo_book demo = Some (ob', w') \<and> book_ok w' ob'"
proof -
  have "book_ok demo demo_book" by (rule demo_book_ok) (simp add: demo_def)
  moreover have "o_StockId (askObj demo 0) = ob_stockId demo_book"
    by (simp add: demo_def demo_order_def demo_book_def NewOrderBook_def)
  ultimately show ?thesis using processAsk_correct [of demo demo_book 0] by (auto simp: demo_book_empty)
qed

text \<open>
  C3. Matching an incoming bid: the same, with the sides exchanged.
\<close>

theorem processBid_correct:
  assumes "book_ok w ob" "br \<notin># bid_refs ob"
  shows "\<exists>ob' w'. processBid PerformOrderFillTransaction br ob w = Some (ob', w') \<and> book_ok w' ob' \<and>
    ask_refs ob' \<subseteq># ask_refs ob \<and>
    (bid_refs ob' = bid_refs ob \<or>
     bid_refs ob' = add_mset br (bid_refs ob) \<and>
     (\<forall>a \<in># pq_refs (asks ob'). o_UserId (askObj w' a) \<noteq> o_UserId (bidObj w' br) \<longrightarrow>
        \<not> isOrderMatching (askObj w' a) (bidObj w' br))) \<and>
    (pq_refs (askStoploss ob) = {#} \<longrightarrow> all_closed (askObj w') (ask_refs ob - ask_refs ob'))"
proof -
  obtain ob' w' D where "processBid PerformOrderFillTransaction br ob w = Some (ob', w')"
    "bid_processed br w ob w' ob' D" using fills.processBid_ok [OF assms] by blast
  then show ?thesis by (auto simp: bid_processed_def bid_crosses_def)
qed

theorem processBid_correct_witness:
  "\<exists>ob' w'. processBid PerformOrderFillTransaction 0 demo_book demo = Some (ob', w') \<and> book_ok w' ob'"
proof -
  have "book_ok demo demo_book" by (rule demo_book_ok) (simp add: demo_def)
  then show ?thesis using processBid_correct [of demo demo_book 0] by (auto simp: demo_book_empty)
qed

text \<open>
  C4. One step of the goroutine of an order book keeps the accounts of every user, whatever
  calls to the database fail in it: the user's row stays equal to the object in memory, and
  the difference between the user's cash and the sum of the totals of the user's
  transactions stays what it was.
\<close>

theorem waitForOrder_keeps_accounts:
  assumes "waitForOrder PerformOrderFillTransaction pick ob w = Some (ob', w')"
    and "keyed w" "j \<noteq> 0" "synced w j"
  shows "keyed w' \<and> synced w' j \<and> ledger_gap j (db w') = ledger_gap j (db w)"
  using book.waitForOrder_accounts [OF assms(1)] assms(2-4) by (simp add: keeps_accounts_def)

theorem waitForOrder_keeps_accounts_witness:
  "\<exists>ob' w'. waitForOrder PerformOrderFillTransaction (True, 0) demo_book demo = Some (ob', w') \<and> synced w' 1"
proof -
  have "keyed demo" "synced demo 1" by (auto simp: keyed_def synced_def demo_defs)
  moreover have "waitForOrder PerformOrderFillTransaction (True, 0) demo_book demo = Some (demo_book, demo)"
    by (simp add: waitForOrder_def demo_book_def NewOrderBook_def)
  ultimately show ?thesis
    using waitForOrder_keeps_accounts [of "(True, 0)" demo_book demo demo_book demo 1] by auto
qed



text \<open>
  C6. A trade triggers exactly the stop-losses its price has reached: the asks at or above
  it and the bids at or below it move, as active orders, from the stop-loss queues to the
  queues the engine matches, all others stay, and the triggering ends.
\<close>

theorem triggerStopLosses_correct:
  assumes "book_inv w ob"
  shows "\<exists>ob' w'. triggerStopLosses tr ob w = Some (ob', w') \<and> book_inv w' ob' \<and>
    pq_refs (askStoploss ob') = {#r \<in># pq_refs (askStoploss ob). o_Price (askObj w r) < t_Price tr#} \<and>
    pq_refs (asks ob') = pq_refs (asks ob) + {#r \<in># pq_refs (askStoploss ob). t_Price tr \<le> o_Price (askObj w r)#} \<and>
    pq_refs (bidStoploss ob') = {#r \<in># pq_refs (bidStoploss ob). t_Price tr < o_Price (bidObj w r)#} \<and>
    pq_refs (bids ob') = pq_refs (bids ob) + {#r \<in># pq_refs (bidStoploss ob). o_Price (bidObj w r) \<le> t_Price tr#} \<and>
    (\<forall>r \<in># pq_refs (askStoploss ob). t_Price tr \<le> o_Price (askObj w r) \<longrightarrow> o_OrderType (askObj w' r) = StopLossActive) \<and>
    (\<forall>r \<in># pq_refs (bidStoploss ob). o_Price (bidObj w r) \<le> t_Price tr \<longrightarrow> o_OrderType (bidObj w' r) = StopLossActive)"
proof -
  have sa: "side_inv (askObj w) askComparator bidComparator (asks ob) (askStoploss ob)"
    and sb: "side_inv (bidObj w) bidComparator askComparator (bids ob) (bidStoploss ob)"
    using assms by (simp_all add: book_inv_def)
  obtain ob1 w1 where 1: "triggerAsks (t_Price tr) ob w = Some (ob1, w1)"
    "side_inv (askObj w1) askComparator bidComparator (asks ob1) (askStoploss ob1)"
    "pq_refs (askStoploss ob1) = {#r \<in># pq_refs (askStoploss ob). o_Price (askObj w r) < t_Price tr#}"
    "pq_refs (asks ob1) = pq_refs (asks ob) + {#r \<in># pq_refs (askStoploss ob). t_Price tr \<le> o_Price (askObj w r)#}"
    "triggered_asks {#r \<in># pq_refs (askStoploss ob). t_Price tr \<le> o_Price (askObj w r)#} w w1"
    "bids ob1 = bids ob" "bidStoploss ob1 = bidStoploss ob"
    using triggerAsks_ok [OF sa, of "t_Price tr"] by blast
  have w1: "bidObj w1 = bidObj w" using 1(5) by (simp add: triggered_asks_def)
  have "side_inv (bidObj w1) bidComparator askComparator (bids ob1) (bidStoploss ob1)" using sb w1 1(6,7) by simp
  from triggerBids_ok [OF this, of "t_Price tr", unfolded w1 1(6,7)]
  obtain ob' w' where 2: "triggerBids (t_Price tr) ob1 w1 = Some (ob', w')"
    "side_inv (bidObj w') bidComparator askComparator (bids ob') (bidStoploss ob')"
    "pq_refs (bidStoploss ob') = {#r \<in># pq_refs (bidStoploss ob). t_Price tr < o_Price (bidObj w r)#}"
    "pq_refs (bids ob') = pq_refs (bids ob) + {#r \<in># pq_refs (bidStoploss ob). o_Price (bidObj w r) \<le> t_Price tr#}"
    "triggered_bids {#r \<in># pq_refs (bidStoploss ob). o_Price (bidObj w r) \<le> t_Price tr#} w1 w'"
    "asks ob' = asks ob1" "askStoploss ob' = askStoploss ob1" by blast
  have w2: "askObj w' = askObj w1" using 2(5) by (simp add: triggered_bids_def)
  have "book_inv w' ob'" using 1(2) 2(2,6,7) w2 by (simp add: book_inv_def)
  then show ?thesis using 1 2 w2
    by (auto simp: triggerStopLosses_def triggered_asks_def triggered_bids_def activated_def)
qed

theorem triggerStopLosses_correct_witness:
  "\<exists>ob' w'. triggerStopLosses (GetTransactionRef 1 1 OrderFillTransaction 0 5 100 0 0 []) demo_book demo = Some (ob', w') \<and>
     book_inv w' ob'"
proof -
  have "book_ok demo demo_book" by (rule demo_book_ok) (simp add: demo_def)
  then have "book_inv demo demo_book" by (simp add: book_ok_def)
  from triggerStopLosses_correct [OF this, of "GetTransactionRef 1 1 OrderFillTransaction 0 5 100 0 0 []"] show ?thesis by blast
qed

section \<open>Filling orders\<close>





text \<open>
  C21. When no call to the database fails, two open orders of different users whose deposit is
  in the ledger are traded if the bidder has the cash.
\<close>

theorem order_fill_live:
  assumes "o_UserId (askObj w ar) \<noteq> o_UserId (bidObj w br)" "o_StockId (askObj w ar) \<in> dom (allStocks w)"
    and "\<not> o_IsClosed (askObj w ar)" "\<not> o_IsClosed (bidObj w br)" "outcomes w = []"
    and "users w (o_UserId (askObj w ar)) \<noteq> None" "users w (o_UserId (bidObj w br)) = Some ub"
    and "deposit_rows (o_Id (bidObj w br)) False (db w) = tr # rest"
    and "0 \<le> sint (u_Cash ub - price * qty + reserve_share (- t_Total tr) qty (o_StockQuantity (bidObj w br)))"
  shows "\<exists>sa sb t w'. PerformOrderFillTransaction ar br price qty w = Some ((sa, sb, Some t), w')"
  by (rule PerformOrderFill_live [OF _ assms(3-6) _ assms(8)])
    (use assms in \<open>simp_all add: fillable_def cash_left_def s_less_def\<close>)

theorem order_fill_live_witness:
  "\<exists>sa sb t w'. PerformOrderFillTransaction 0 0 100 5 demo_placed = Some ((sa, sb, Some t), w')"
proof -
  let ?tr = "\<lparr>t_Id = 1, t_UserId = 2, t_StockId = 1, t_Type = PlaceOrderTransaction,
        t_ReservedStockQuantity = 0, t_StockQuantity = 0, t_Price = 0, t_ReservedCashTotal = 500,
        t_Total = -500, t_CreatedAt = []\<rparr>"
  have "reserve_share 500 5 5 = 500" by code_simp
  moreover have "deposit_rows (o_Id (bidObj demo_placed 0)) False (db demo_placed) = ?tr # []"
    by (simp add: demo_placed_def demo_defs deposit_rows_def)
  ultimately show ?thesis
    by (intro order_fill_live [of demo_placed 0 0 "demo_user 2" ?tr "[]"]) (simp_all add: demo_placed_def demo_defs)
qed

section \<open>Order book data\<close>

text \<open>
  C22. The priority queues: any orders pushed into a new queue, of any kind, come off it in
  the order of the queue's comparator, each exactly once, and leave it empty. The queue is
  an array heap; the sequence is the abstract one of a sorted list.
\<close>

theorem pqueue_sorts:
  "\<exists>q vs q'. push_all (pq_Push obj) rs (NewBidPQueue kind) = Some q \<and> pq_Size q = length rs \<and>
     drain (pq_Pop obj) (length rs) q = Some (vs, q') \<and> mset vs = mset rs \<and> pq_Empty q' \<and>
     sorted_wrt (\<lambda>v w. \<not> ref_lt obj (if kind = MAXPQ then bidComparator else askComparator) v w) vs"
proof -
  let ?c = "if kind = MAXPQ then bidComparator else askComparator"
  have size: "pq_elemsCount q = size (pq_refs q)" for q by (simp add: pq_refs_def pq_contents_def)
  have inv: "pq_ok obj (NewBidPQueue kind) \<and> pq_comparator (NewBidPQueue kind) = ?c"
    by (simp add: queue_simps) (simp add: NewBidPQueue_def)
  obtain q where q: "push_all (pq_Push obj) rs (NewBidPQueue kind) = Some q" "pq_ok obj q \<and> pq_comparator q = ?c"
    "pq_refs q = mset rs" using pq.push_all_ok [OF inv, of rs] by (auto simp: queue_simps)
  obtain vs q' where d: "drain (pq_Pop obj) (length rs) q = Some (vs, q')" "pq_refs q' = {#}" "mset vs = mset rs"
    "sorted_wrt (\<lambda>v w. \<not> ref_lt obj ?c v w) vs"
    using pq.drain_ok [OF q(2), of "length rs"] q(3) by auto
  show ?thesis using q d by (auto simp: pq_Size_def pq_Empty_def size)
qed

text \<open>
  C23. The quantity of a trade is at most what either order still wants and exhausts one of
  them, and its price respects the limit of both orders.
\<close>

theorem trade_price_and_quantity:
  assumes "isOrderMatching ask bid" "getTradePriceAndQty ask bid w = (price, qty)"
  shows "qty \<le> unfulfilled ask \<and> qty \<le> unfulfilled bid \<and> (qty = unfulfilled ask \<or> qty = unfulfilled bid) \<and>
    (\<not> isMarket (o_OrderType ask) \<longrightarrow> o_Price ask \<le> price) \<and>
    (\<not> isMarket (o_OrderType bid) \<longrightarrow> price \<le> o_Price bid)"
  using assms by (auto simp: getTradePriceAndQty_def isOrderMatching_def MinInt64_min min_def Let_def split: if_splits)

theorem trade_price_and_quantity_witness:
  "getTradePriceAndQty (demo_order 1 1) (demo_order 2 2) demo = (100, 5) \<and> (5::u64) \<le> unfulfilled (demo_order 1 1)"
proof -
  have "isOrderMatching (demo_order 1 1) (demo_order 2 2)"
    "getTradePriceAndQty (demo_order 1 1) (demo_order 2 2) demo = (100, 5)"
    by (simp_all add: isOrderMatching_def isMarket_def getTradePriceAndQty_def MinInt64_def unfulfilled_def Let_def demo_defs)
  then show ?thesis using trade_price_and_quantity [of "demo_order 1 1" "demo_order 2 2" demo 100 5] by simp
qed

text \<open>
  C24. The market depth: a client whose view was exact when nothing was pending, and who adds
  the differences of the next update, has again the exact quantity at every price, whatever
  orders and trades came in between; and nothing is pending after the update.
\<close>

theorem depth_updates_correct:
  assumes "0 < listeners" "depth_flush listeners (fold depth_step ops mds) = (upd, mds')"
    and "\<And>s p. depth_pending s mds p = 0"
  shows "(case upd of None \<Rightarrow> depth_qty s mds p | Some u \<Rightarrow> apply_diff s u (depth_qty s mds) p) = depth_qty s mds' p \<and>
    depth_pending s mds' p = 0"
proof -
  let ?m = "fold depth_step ops mds"
  have base: "depth_qty s ?m p - depth_pending s ?m p = depth_qty s mds p"
    using depth_base_fold [of s ops mds p] assms(3) by (simp add: depth_base_def)
  show ?thesis
  proof (cases upd)
    case None
    then have "mds' = ?m" "askDepthDiff ?m = Map.empty" "bidDepthDiff ?m = Map.empty"
      using assms(1,2) by (auto simp: depth_flush_def split: if_splits)
    then show ?thesis using base None by (cases s) (simp_all add: depth_pending_def)
  next
    case (Some u)
    then have "u_AskDepthDiff u = askDepthDiff ?m" "u_BidDepthDiff u = bidDepthDiff ?m"
      "askDepth mds' = askDepth ?m" "bidDepth mds' = bidDepth ?m"
      "askDepthDiff mds' = Map.empty" "bidDepthDiff mds' = Map.empty"
      using assms(1,2) by (auto simp: depth_flush_def empty_update_def split: if_splits)
    then have "apply_diff s u (depth_qty s mds) p = depth_qty s ?m p" "depth_qty s mds' p = depth_qty s ?m p"
      "depth_pending s mds' p = 0"
      using base by (auto simp: apply_diff_def depth_pending_def depth_qty_def algebra_simps)
    then show ?thesis using Some by simp
  qed
qed

theorem depth_updates_correct_witness:
  "\<exists>u mds'. depth_flush 1 (fold depth_step [DAdd False True 100 5, DClose False True 100 2] newMarketDepthStream) = (Some u, mds') \<and>
     apply_diff True u (depth_qty True newMarketDepthStream) 100 = depth_qty True mds' 100"
proof -
  let ?m = "fold depth_step [DAdd False True 100 5, DClose False True 100 2] newMarketDepthStream"
  obtain upd mds' where f: "depth_flush 1 ?m = (upd, mds')" by fastforce
  have "depth_pending s newMarketDepthStream p = 0" for s p by (simp add: depth_pending_def newMarketDepthStream_def)
  note t = depth_updates_correct [OF _ f this, of True 100]
  have "askDepthDiff ?m 100 \<noteq> None"
    by (simp add: depth_AddOrder_def depth_CloseOrder_def newMarketDepthStream_def Let_def mdrop0_def)
  then have "upd \<noteq> None" using f by (auto simp: depth_flush_def simp del: fold.simps split: if_splits)
  then show ?thesis using t f by auto
qed

text \<open>
  C25. A quantity in the market depth never wraps below 0: closing takes away at most what is
  there, on its own side and price only, and adding an order and then closing it is no change.
\<close>

theorem depth_close_correct:
  "depth_qty s (depth_CloseOrder m isAsk p q mds) p' \<le> depth_qty s mds p' \<and>
   (s \<noteq> isAsk \<or> p' \<noteq> depth_key m p \<longrightarrow> depth_qty s (depth_CloseOrder m isAsk p q mds) p' = depth_qty s mds p') \<and>
   (depth_qty isAsk mds (depth_key m p) \<le> depth_qty isAsk mds (depth_key m p) + q \<longrightarrow>
      depth_qty s (depth_CloseOrder m isAsk p q (depth_AddOrder m isAsk p q mds)) p' = depth_qty s mds p')"
  using mds.close_never_wraps mds.close_add by (simp add: depth_qty_CloseOrder)

theorem depth_close_correct_witness:
  "depth_qty True (depth_CloseOrder False True 100 9 newMarketDepthStream) 100 \<le> depth_qty True newMarketDepthStream 100 \<and>
   depth_qty False (depth_CloseOrder False True 100 9 newMarketDepthStream) 100 = 0"
  using depth_close_correct [of True False True 100 9 newMarketDepthStream 100]
    depth_close_correct [of False False True 100 9 newMarketDepthStream 100]
  by (simp add: depth_qty_def newMarketDepthStream_def)

section \<open>Users and the ledger\<close>



text \<open>
  C28. The tax rate follows the brackets, never exceeds a quarter, never falls when the
  worth of the user grows, and so bounds the tax on a profit.
\<close>

theorem tax_schedule:
  "getTaxPercent n = (if sint n \<le> 0 then 0 else if sint n \<le> 100000 then 2
     else if sint n \<le> 500000 then 5 else if sint n \<le> 1000000 then 9
     else if sint n \<le> 2000000 then 15 else 25) \<and>
   getTaxPercent n \<le> 25 \<and> (sint n \<le> sint m \<longrightarrow> getTaxPercent n \<le> getTaxPercent m) \<and>
   (uint (u64_of_f profit) * 25 < 2 ^ 64 \<longrightarrow> uint (tax_on profit u) \<le> uint (u64_of_f profit) * 25 div 100) \<and>
   (profit \<le> 0 \<longrightarrow> tax_on profit u = 0)"
  using getTaxPercent_brackets getTaxPercent_le getTaxPercent_mono [of n m] tax_on_le [of profit u]
  by (simp add: tax_on_def)

theorem tax_schedule_witness:
  "getTaxPercent 100000 \<le> getTaxPercent 100001 \<and> uint (tax_on 1000 (demo_user 1)) \<le> 250 \<and> tax_on (- 5) (demo_user 1) = 0"
proof -
  have "u64_of_f 1000 = 1000" by code_simp
  then show ?thesis
    using tax_schedule [of 100000 100001 1000 "demo_user 1"] tax_schedule [of 100001 0 "- 5" "demo_user 1"] by simp
qed

text \<open>
  C29. The pages of a user's transactions and closed orders are complete: a page holds the
  matching rows with the largest ids, at most ten, and when it is said to be the last one,
  every matching row is on it.
\<close>

theorem listings_are_pages:
  "(GetTransactions uid lastId n w = (Inr (b1, txs), w1) \<longrightarrow>
      page_of t_Id {x \<in> set (Transactions (db w)). (lastId \<noteq> 0 \<longrightarrow> t_Id x \<le> lastId) \<and> t_UserId x = uid} b1 txs) \<and>
   (GetMyClosedAsks uid lastId n w = (Inr (b2, as), w2) \<longrightarrow>
      page_of o_Id {x \<in> set (Asks (db w)). (lastId \<noteq> 0 \<longrightarrow> o_Id x \<le> lastId) \<and> o_UserId x = uid \<and> o_IsClosed x} b2 as) \<and>
   (GetMyClosedBids uid lastId n w = (Inr (b3, bs), w3) \<longrightarrow>
      page_of o_Id {x \<in> set (Bids (db w)). (lastId \<noteq> 0 \<longrightarrow> o_Id x \<le> lastId) \<and> o_UserId x = uid \<and> o_IsClosed x} b3 bs)"
  by (intro conjI impI) (rule GetTransactions_page GetMyClosedAsks_page GetMyClosedBids_page, assumption)+

theorem listings_are_pages_witness:
  "\<exists>txs w1. GetTransactions 2 0 5 demo_placed = (Inr (False, txs), w1) \<and> length txs = 1 \<and>
     page_of t_Id {x \<in> set (Transactions (db demo_placed)). t_UserId x = 2} False txs"
proof -
  let ?tr = "\<lparr>t_Id = 1, t_UserId = 2, t_StockId = 1, t_Type = PlaceOrderTransaction,
        t_ReservedStockQuantity = 0, t_StockQuantity = 0, t_Price = 0, t_ReservedCashTotal = 500,
        t_Total = -500, t_CreatedAt = []\<rparr>"
  have "GetTransactions 2 0 5 demo_placed = (Inr (False, [?tr]), demo_placed)"
    by (simp add: GetTransactions_def demo_placed_def demo_defs MinInt32_def Let_def)
  then show ?thesis using listings_are_pages [of 2 0 5 demo_placed False "[?tr]" demo_placed] by auto
qed

text \<open>
  C30. The names of order types and transaction types in the database are read back as the
  type they were written for, and no other string is accepted.
\<close>

theorem type_names_roundtrip:
  "(OrderType_Scan v = Some ot \<longleftrightarrow> v = OrderType_String ot) \<and>
   (TransactionType_Scan v = Some tt \<longleftrightarrow> v = TransactionType_String tt)"
  using OrderType_Scan_Some TransactionType_Scan_Some by auto

section \<open>Stocks and short sells\<close>



text \<open>
  C32. Squaring off the lends: the stocks that the bank has together with the stocks that
  are lent out do not change, even when a call fails in the middle; when none fails, no
  lend is left and the bank has everything back.
\<close>

theorem SquareOffLends_correct:
  assumes "SquareOffLends w = Some (e, w')" "distinct (map sl_Id (ShortSellLends (db w)))"
  shows "bank_available sid (db w') + lent_out sid (ShortSellLends (db w')) =
      bank_available sid (db w) + lent_out sid (ShortSellLends (db w)) \<and>
    (e = None \<longrightarrow> lent_out sid (ShortSellLends (db w')) = 0 \<and>
      bank_available sid (db w') = bank_available sid (db w) + lent_out sid (ShortSellLends (db w)))"
  using SquareOffLends_ok [OF assms, of sid] by (simp add: bank_total_def)

theorem SquareOffLends_correct_witness:
  "\<exists>w'. SquareOffLends demo = Some (None, w') \<and> bank_available 1 (db w') = 43"
proof -
  let ?l = "\<lparr>sl_Id = 1, sl_StockId = 1, sl_UserId = 1, sl_StockQuantity = 3, sl_IsSquaredOff = False\<rparr>"
  have "\<exists>w'. SquareOffLends demo = Some (None, w')"
    by (simp add: SquareOffLends_def demo_defs tx_run_def updateShortSellBank_def getAvailableLendStocks_def
        insert_tx_def save_lend_def save_bank_def upsert_def)
  then obtain w' where w': "SquareOffLends demo = Some (None, w')" by blast
  have "distinct (map sl_Id (ShortSellLends (db demo)))" by (simp add: demo_defs)
  from SquareOffLends_correct [OF w' this, of 1] show ?thesis
    using w' by (auto simp: demo_defs bank_available_def lent_out_def)
qed

end
